(* ===== verification/Prelude.thy ===== *)
theory Prelude
  imports Main "HOL-Library.AList"
begin

text \<open>
  Shared vocabulary of the development: the names of the Go types the components exchange, the
  reading of Go maps as association lists, and the generic lemmas on lists, maps and majorities
  that the component proofs share.

  Go's \<^verbatim>\<open>int\<close> is modelled by \<^typ>\<open>int\<close> for terms and log indices (both only
  grow by one per election or log entry, so the 63 bits are never exhausted), \<^verbatim>\<open>string\<close> and
  \<^verbatim>\<open>[]byte\<close> by \<^typ>\<open>string\<close>, a list of 8-bit characters.  A Go map is an association list
  with distinct keys; its order stands for the order in which \<^verbatim>\<open>range\<close> visits it.
\<close>

named_theorems raft_defs \<open>definitions of the small helper functions of the Raft node\<close>
named_theorems frame_simps \<open>fields an operation leaves alone\<close>

type_synonym node_id = string
type_synonym bytes = string
type_synonym ('k, 'v) gomap = "('k \<times> 'v) list"

subsection \<open>Go maps\<close>

text \<open>Reading a missing key of a \<^verbatim>\<open>map[K]int\<close> yields the zero value.\<close>

definition int_at :: "('k, int) gomap \<Rightarrow> 'k \<Rightarrow> int" where
  "int_at m k = (case map_of m k of None \<Rightarrow> 0 | Some v \<Rightarrow> v)"

lemma int_at_update [simp]:
  "int_at (AList.update k v m) k' = (if k' = k then v else int_at m k')"
  by (simp add: int_at_def update_conv')

lemma int_at_Nil [simp]: "int_at [] k = 0"
  by (simp add: int_at_def)

lemma int_at_const_map:
  "int_at (map (\<lambda>p. (fst p, c)) ps) k = (if k \<in> fst ` set ps then c else 0)"
  by (induction ps) (auto simp: int_at_def)

lemma map_of_delete [simp]:
  "map_of (AList.delete k m) k' = (if k' = k then None else map_of m k')"
  by (simp add: delete_conv')

lemma map_of_update [simp]:
  "map_of (AList.update k v m) k' = (if k' = k then Some v else map_of m k')"
  by (simp add: update_conv')

lemma map_of_filter_keys:
  "map_of (filter (\<lambda>p. P (fst p)) m) k = (if P k then map_of m k else None)"
  by (induction m) auto

lemma map_of_fold_update:
  "distinct (map fst ps) \<Longrightarrow> map_of (fold (\<lambda>p. AList.update (fst p) (snd p)) ps m) = map_of m ++ map_of ps"
proof (induction ps arbitrary: m)
  case (Cons p ps)
  then have "map_of ps (fst p) = None" by (simp add: map_of_eq_None_iff)
  with Cons show ?case by (auto simp: fun_eq_iff map_add_def update_conv' split: option.splits)
qed simp

subsection \<open>Lists\<close>

lemma nth_drop_shift: "i \<le> j \<Longrightarrow> j < length xs \<Longrightarrow> drop i xs ! (j - i) = xs ! j"
  by simp

lemma hd_drop_tail: "i < length xs \<Longrightarrow> drop i xs = xs ! i # drop (Suc i) xs"
  by (rule Cons_nth_drop_Suc [symmetric])

lemma sorted_le_last: "x \<in> set xs \<Longrightarrow> sorted xs \<Longrightarrow> x \<le> last xs"
  by (induction xs) auto

lemma set_nonempty: "x \<in> set xs \<Longrightarrow> xs \<noteq> []"
  by auto

lemma ex_int_step:
  assumes "(l::int) < h"
  shows "(\<exists>i. l < i \<and> i \<le> h \<and> P i) \<longleftrightarrow> P (l + 1) \<or> (\<exists>i. l + 1 < i \<and> i \<le> h \<and> P i)"
proof
  assume "\<exists>i. l < i \<and> i \<le> h \<and> P i"
  then obtain i where "l < i" "i \<le> h" "P i" by blast
  then show "P (l + 1) \<or> (\<exists>i. l + 1 < i \<and> i \<le> h \<and> P i)"
    by (cases "i = l + 1") auto
next
  assume "P (l + 1) \<or> (\<exists>i. l + 1 < i \<and> i \<le> h \<and> P i)"
  then show "\<exists>i. l < i \<and> i \<le> h \<and> P i"
  proof
    assume "P (l + 1)"
    then show ?thesis using assms by (intro exI [of _ "l + 1"]) simp
  next
    assume "\<exists>i. l + 1 < i \<and> i \<le> h \<and> P i"
    then obtain i where "l + 1 < i" "i \<le> h" "P i" by blast
    then show ?thesis by (intro exI [of _ i]) simp
  qed
qed

subsection \<open>Majorities\<close>

text \<open>Two sets that each hold more than half of a finite universe share a member.\<close>

lemma majorities_meet:
  assumes "finite U" and "A \<subseteq> U" and "B \<subseteq> U"
    and "card U < 2 * card A" and "card U < 2 * card B"
  obtains x where "x \<in> A" and "x \<in> B"
proof -
  have "A \<inter> B \<noteq> {}"
  proof
    assume "A \<inter> B = {}"
    with assms(1-3) have "card (A \<union> B) = card A + card B"
      by (meson card_Un_disjoint finite_subset)
    moreover have "card (A \<union> B) \<le> card U"
      using assms(1-3) by (simp add: card_mono)
    ultimately show False using assms(4,5) by linarith
  qed
  then show ?thesis using that by blast
qed

subsection \<open>64-bit arithmetic\<close>

text \<open>
  A \<^verbatim>\<open>time.Duration\<close> is an \<^verbatim>\<open>int64\<close> count of nanoseconds; its arithmetic wraps around.
\<close>

definition wrap64 :: "int \<Rightarrow> int" where
  "wrap64 x = (x + 2 ^ 63) mod 2 ^ 64 - 2 ^ 63"

lemma wrap64_id: "- (2 ^ 63) \<le> x \<Longrightarrow> x < 2 ^ 63 \<Longrightarrow> wrap64 x = x"
  by (simp add: wrap64_def)

lemma wrap64_range: "- (2 ^ 63) \<le> wrap64 x \<and> wrap64 x < 2 ^ 63"
  by (simp add: wrap64_def pos_mod_bound [of "2 ^ 64" "x + 2 ^ 63"] less_diff_eq)

end
