(* ===== verification/Raft_Types.thy ===== *)
theory Raft_Types
  imports Prelude
begin

text \<open>
  The data of \<^verbatim>\<open>src/raft/types.go\<close>, \<^verbatim>\<open>src/raft/status.go\<close> and
  \<^verbatim>\<open>src/raft/state_string.go\<close>: roles, log entries, snapshots, RPC arguments and replies, apply
  messages and the persistent state.  Field names carry the name of their struct as a prefix, since
  the Go structs reuse \<^verbatim>\<open>Term\<close> and \<^verbatim>\<open>Data\<close>.
\<close>

subsection \<open>Roles\<close>

datatype State = Follower | Candidate | Leader

fun State_String :: "State \<Rightarrow> string" where
  "State_String Follower = ''follower''"
| "State_String Candidate = ''candidate''"
| "State_String Leader = ''leader''"

subsection \<open>Log and snapshot\<close>

record LogEntry =
  le_Term :: int
  le_Command :: bytes

record Snapshot =
  snap_LastIncludedIndex :: int
  snap_LastIncludedTerm :: int
  snap_Data :: bytes

subsection \<open>RPC arguments and replies\<close>

record RequestVoteArgs =
  rva_Term :: int
  rva_CandidateID :: node_id
  rva_LastLogIndex :: int
  rva_LastLogTerm :: int

record RequestVoteReply =
  rvr_Term :: int
  rvr_VoteGranted :: bool

record AppendEntriesArgs =
  aea_Term :: int
  aea_LeaderID :: node_id
  aea_PrevLogIndex :: int
  aea_PrevLogTerm :: int
  aea_Entries :: "LogEntry list"
  aea_LeaderCommit :: int

record AppendEntriesReply =
  aer_Term :: int
  aer_Success :: bool
  aer_ConflictIndex :: int
  aer_ConflictTerm :: int

record InstallSnapshotArgs =
  isa_Term :: int
  isa_LeaderID :: node_id
  isa_LastIncludedIndex :: int
  isa_LastIncludedTerm :: int
  isa_Data :: bytes

record InstallSnapshotReply =
  isr_Term :: int

subsection \<open>Apply messages, persistent state, status\<close>

record ApplyMsg =
  am_Index :: int
  am_Command :: bytes
  am_Snapshot :: bool
  am_SnapshotData :: bytes
  am_SnapshotIndex :: int
  am_SnapshotTerm :: int

text \<open>The two shapes of message the node sends: the other fields keep their zero values.\<close>

definition command_msg :: "int \<Rightarrow> bytes \<Rightarrow> ApplyMsg" where
  "command_msg idx cmd = \<lparr>am_Index = idx, am_Command = cmd, am_Snapshot = False,
     am_SnapshotData = [], am_SnapshotIndex = 0, am_SnapshotTerm = 0\<rparr>"

definition snapshot_msg :: "bytes \<Rightarrow> int \<Rightarrow> int \<Rightarrow> ApplyMsg" where
  "snapshot_msg data idx trm = \<lparr>am_Index = 0, am_Command = [], am_Snapshot = True,
     am_SnapshotData = data, am_SnapshotIndex = idx, am_SnapshotTerm = trm\<rparr>"

record PersistentState =
  ps_CurrentTerm :: int
  ps_VotedFor :: node_id
  ps_Log :: "LogEntry list"
  ps_CommitIndex :: int
  ps_Snapshot :: Snapshot

record Status =
  st_ID :: node_id
  st_Term :: int
  st_State :: string
  st_LeaderID :: node_id
  st_CommitIndex :: int
  st_LastApplied :: int
  st_LastLogIndex :: int

text \<open>The zero values of the structs, as Go's composite literals leave omitted fields.\<close>

definition zero_Snapshot :: Snapshot where
  "zero_Snapshot = \<lparr>snap_LastIncludedIndex = 0, snap_LastIncludedTerm = 0, snap_Data = []\<rparr>"

definition zero_PersistentState :: PersistentState where
  "zero_PersistentState = \<lparr>ps_CurrentTerm = 0, ps_VotedFor = [], ps_Log = [],
     ps_CommitIndex = 0, ps_Snapshot = zero_Snapshot\<rparr>"

abbreviation sentinel :: "int \<Rightarrow> LogEntry" where
  "sentinel trm \<equiv> \<lparr>le_Term = trm, le_Command = []\<rparr>"

subsection \<open>Errors the node returns\<close>

datatype raft_error =
    ErrNotLeader
  | ErrSnapshotNotCommitted
  | ErrIDRequired
  | ErrStorage string
  | ErrDecode
  | ErrDeadlineExceeded
  | ErrCanceled

end
