(* ===== verification/Json_Strings.thy ===== *)
theory Json_Strings
  imports Prelude
begin

text \<open>
  The strings of Go's \<^verbatim>\<open>encoding/json\<close> (as of the Go 1.15 that \<^verbatim>\<open>go.mod\<close> names), which the commands,
  the snapshots and the stored Raft state go through.  A Go string is a sequence of bytes.  The
  encoder copies valid UTF-8, escapes quotes, backslashes, control characters, \<^verbatim>\<open><\<close>, \<^verbatim>\<open>>\<close>,
  \<^verbatim>\<open>&\<close> and the line separators U+2028 and U+2029, and replaces every byte that is not part of valid UTF-8
  by U+FFFD.  The decoder undoes the escapes.
\<close>

abbreviation byte :: "char \<Rightarrow> nat" where
  "byte c \<equiv> of_char c"

subsection \<open>UTF-8\<close>

definition continuation :: "nat \<Rightarrow> bool" where
  "continuation b \<longleftrightarrow> 0x80 \<le> b \<and> b \<le> 0xBF"

text \<open>
  The length of the valid multi-byte rune at the head, 0 when there is none: the ranges of
  \<^verbatim>\<open>utf8.DecodeRune\<close>, which exclude overlong forms, surrogates and code points above U+10FFFF.
\<close>

fun rune_len :: "string \<Rightarrow> nat" where
  "rune_len (c0 # c1 # cs) =
     (let b0 = byte c0; b1 = byte c1
      in if 0xC2 \<le> b0 \<and> b0 \<le> 0xDF then (if continuation b1 then 2 else 0)
         else if 0xE0 \<le> b0 \<and> b0 \<le> 0xEF then
           (case cs of
              c2 # _ \<Rightarrow>
                if (if b0 = 0xE0 then 0xA0 else 0x80) \<le> b1 \<and> b1 \<le> (if b0 = 0xED then 0x9F else 0xBF) \<and>
                   continuation (byte c2) then 3 else 0
            | [] \<Rightarrow> 0)
         else if 0xF0 \<le> b0 \<and> b0 \<le> 0xF4 then
           (case cs of
              c2 # c3 # _ \<Rightarrow>
                if (if b0 = 0xF0 then 0x90 else 0x80) \<le> b1 \<and> b1 \<le> (if b0 = 0xF4 then 0x8F else 0xBF) \<and>
                   continuation (byte c2) \<and> continuation (byte c3) then 4 else 0
            | _ \<Rightarrow> 0)
         else 0)"
| "rune_len _ = 0"

text \<open>\<^verbatim>\<open>utf8.EncodeRune\<close> on a code point that is not a surrogate.\<close>

definition utf8_encode :: "nat \<Rightarrow> string" where
  "utf8_encode n =
     (if n < 0x80 then [char_of n]
      else if n < 0x800 then [char_of (0xC0 + n div 0x40), char_of (0x80 + n mod 0x40)]
      else if n < 0x10000 then
        [char_of (0xE0 + n div 0x1000), char_of (0x80 + n div 0x40 mod 0x40), char_of (0x80 + n mod 0x40)]
      else
        [char_of (0xF0 + n div 0x40000), char_of (0x80 + n div 0x1000 mod 0x40),
         char_of (0x80 + n div 0x40 mod 0x40), char_of (0x80 + n mod 0x40)])"

definition replacement :: string where
  "replacement = [CHR 0xEF, CHR 0xBF, CHR 0xBD]"

lemma rune_len_bounds:
  assumes "rune_len cs \<noteq> 0"
  shows "2 \<le> rune_len cs" and "rune_len cs \<le> length cs"
  using assms by (cases cs rule: rune_len.cases; auto simp: Let_def split: if_splits list.splits)+

lemma rune_len_take:
  assumes "rune_len cs \<noteq> 0"
  shows "rune_len (take (rune_len cs) cs @ rest) = rune_len cs"
  using assms
  by (cases cs rule: rune_len.cases) (auto simp: Let_def split: if_splits list.splits)

lemma rune_len_ascii: "byte c < 0x80 \<Longrightarrow> rune_len (c # cs) = 0"
  by (cases "c # cs" rule: rune_len.cases) (auto simp: Let_def split: if_splits)

subsection \<open>Encoding a string\<close>

definition hex_digit :: "nat \<Rightarrow> char" where
  "hex_digit d = (if d < 10 then char_of (0x30 + d) else char_of (0x57 + d))"

definition esc :: "string \<Rightarrow> string" where
  "esc s = CHR 0x5C # s"

definition quote_ascii :: "char \<Rightarrow> string" where
  "quote_ascii c =
     (if c = CHR 0x22 \<or> c = CHR 0x5C then esc [c]
      else if c = CHR 0x0A then esc ''n''
      else if c = CHR 0x0D then esc ''r''
      else if c = CHR 0x09 then esc ''t''
      else if byte c < 0x20 \<or> c = CHR ''<'' \<or> c = CHR ''>'' \<or> c = CHR ''&''
      then esc (''u00'' @ [hex_digit (byte c div 16), hex_digit (byte c mod 16)])
      else [c])"

function quote_body :: "string \<Rightarrow> string" where
  "quote_body [] = []"
| "quote_body (c # cs) =
     (if byte c < 0x80 then quote_ascii c @ quote_body cs
      else
        let k = rune_len (c # cs)
        in if k = 0 then esc ''ufffd'' @ quote_body cs
           else
             let r = take k (c # cs)
             in (if r = [CHR 0xE2, CHR 0x80, CHR 0xA8] then esc ''u2028''
                 else if r = [CHR 0xE2, CHR 0x80, CHR 0xA9] then esc ''u2029'' else r) @
                quote_body (drop k (c # cs)))"
  by pat_completeness auto
termination
  by (relation "measure length") auto

definition quote :: "string \<Rightarrow> string" where
  "quote s = CHR 0x22 # quote_body s @ [CHR 0x22]"

subsection \<open>Decoding a string\<close>

definition hex_value :: "char \<Rightarrow> nat option" where
  "hex_value c =
     (let b = byte c
      in if 0x30 \<le> b \<and> b \<le> 0x39 then Some (b - 0x30)
         else if 0x61 \<le> b \<and> b \<le> 0x66 then Some (b - 0x57)
         else if 0x41 \<le> b \<and> b \<le> 0x46 then Some (b - 0x37)
         else None)"

fun hex4 :: "string \<Rightarrow> (nat \<times> string) option" where
  "hex4 (a # b # c # d # cs) =
     (case (hex_value a, hex_value b, hex_value c, hex_value d) of
        (Some p, Some q, Some r, Some s) \<Rightarrow> Some (((p * 16 + q) * 16 + r) * 16 + s, cs)
      | _ \<Rightarrow> None)"
| "hex4 _ = None"

fun unescape :: "char \<Rightarrow> char option" where
  "unescape c =
     (if c = CHR 0x22 \<or> c = CHR 0x5C \<or> c = CHR ''/'' then Some c
      else if c = CHR ''b'' then Some (CHR 0x08)
      else if c = CHR ''f'' then Some (CHR 0x0C)
      else if c = CHR ''n'' then Some (CHR 0x0A)
      else if c = CHR ''r'' then Some (CHR 0x0D)
      else if c = CHR ''t'' then Some (CHR 0x09)
      else None)"

text \<open>
  The rune of an escape \<^verbatim>\<open>\uXXXX\<close> whose digits begin \<open>cs\<close>: a pair of surrogates is one rune, a lone
  surrogate is U+FFFD.
\<close>

definition unquote_u :: "string \<Rightarrow> (string \<times> string) option" where
  "unquote_u cs =
     (case hex4 cs of
        None \<Rightarrow> None
      | Some (n, rest) \<Rightarrow>
          if \<not> (0xD800 \<le> n \<and> n < 0xE000) then Some (utf8_encode n, rest)
          else
            (case rest of
               b # u # ds \<Rightarrow>
                 if b = CHR 0x5C \<and> u = CHR ''u'' then
                   (case hex4 ds of
                      Some (m, rest') \<Rightarrow>
                        if n < 0xDC00 \<and> 0xDC00 \<le> m \<and> m < 0xE000
                        then Some (utf8_encode (0x10000 + (n - 0xD800) * 0x400 + (m - 0xDC00)), rest')
                        else Some (replacement, rest)
                    | None \<Rightarrow> Some (replacement, rest))
                 else Some (replacement, rest)
             | _ \<Rightarrow> Some (replacement, rest)))"

lemma hex4_shorter: "hex4 cs = Some (n, rest) \<Longrightarrow> length rest < length cs"
  by (cases cs rule: hex4.cases) (auto split: option.splits)

lemma unquote_u_shorter: "unquote_u cs = Some (r, rest) \<Longrightarrow> length rest < length cs"
  by (fastforce simp: unquote_u_def split: option.splits if_splits list.splits dest!: hex4_shorter)

text \<open>
  The rest of a string literal after its opening quote: the decoded bytes and what follows the closing
  quote, or \<^term>\<open>None\<close> for a syntax error.
\<close>

function unquote :: "string \<Rightarrow> (string \<times> string) option" where
  "unquote [] = None"
| "unquote (c # cs) =
     (if c = CHR 0x22 then Some ([], cs)
      else if c = CHR 0x5C then
        (case cs of
           [] \<Rightarrow> None
         | e # es \<Rightarrow>
             if e = CHR ''u'' then
               (case unquote_u es of
                  None \<Rightarrow> None
                | Some (r, rest) \<Rightarrow> map_option (apfst (append r)) (unquote rest))
             else
               (case unescape e of
                  None \<Rightarrow> None
                | Some d \<Rightarrow> map_option (apfst (Cons d)) (unquote es)))
      else if byte c < 0x20 then None
      else if byte c < 0x80 then map_option (apfst (Cons c)) (unquote cs)
      else
        let k = rune_len (c # cs)
        in if k = 0 then map_option (apfst (append replacement)) (unquote cs)
           else map_option (apfst (append (take k (c # cs)))) (unquote (drop k (c # cs))))"
  by pat_completeness auto
termination
  by (relation "measure length") (auto dest: unquote_u_shorter)

subsection \<open>Round trip\<close>

text \<open>What survives encoding: the string with its invalid bytes replaced.\<close>

function sanitize :: "string \<Rightarrow> string" where
  "sanitize [] = []"
| "sanitize (c # cs) =
     (if byte c < 0x80 then c # sanitize cs
      else
        let k = rune_len (c # cs)
        in if k = 0 then replacement @ sanitize cs
           else take k (c # cs) @ sanitize (drop k (c # cs)))"
  by pat_completeness auto
termination
  by (relation "measure length") auto

function valid_utf8 :: "string \<Rightarrow> bool" where
  "valid_utf8 [] = True"
| "valid_utf8 (c # cs) =
     (if byte c < 0x80 then valid_utf8 cs
      else let k = rune_len (c # cs) in if k = 0 then False else valid_utf8 (drop k (c # cs)))"
  by pat_completeness auto
termination
  by (relation "measure length") auto

declare quote_body.simps(2) [simp del] unquote.simps(2) [simp del]
declare sanitize.simps(2) [simp del] valid_utf8.simps(2) [simp del] rune_len.simps [simp del]

lemma sanitize_valid: "valid_utf8 s \<Longrightarrow> sanitize s = s"
  by (induction s rule: valid_utf8.induct)
    (auto simp: valid_utf8.simps sanitize.simps Let_def split: if_splits)

lemma hex_value_digit: "d < 16 \<Longrightarrow> hex_value (hex_digit d) = Some d"
  by (simp add: hex_value_def hex_digit_def Let_def)

lemma hex4_digits:
  assumes "n < 256"
  shows "hex4 (''00'' @ [hex_digit (n div 16), hex_digit (n mod 16)] @ cs) = Some (n, cs)"
proof -
  have "hex_value (CHR ''0'') = Some 0" by (simp add: hex_value_def)
  moreover have "n div 16 < 16" using assms by simp
  ultimately show ?thesis by (simp add: hex_value_digit)
qed

lemma unquote_quote_ascii:
  assumes "byte c < 0x80"
  shows "unquote (quote_ascii c @ cs) = map_option (apfst (Cons c)) (unquote cs)"
proof (cases "byte c < 0x20 \<or> c = CHR ''<'' \<or> c = CHR ''>'' \<or> c = CHR ''&''")
  case True
  have "unquote_u (''00'' @ [hex_digit (byte c div 16), hex_digit (byte c mod 16)] @ cs) = Some ([c], cs)"
    unfolding unquote_u_def hex4_digits [OF nat_of_char_less_256]
    using assms by (simp add: utf8_encode_def)
  with True assms show ?thesis
    by (auto simp: quote_ascii_def esc_def unquote.simps Let_def option.map_comp comp_def apfst_def map_prod_def
        split: option.splits)
next
  case False
  then show ?thesis
    using assms by (auto simp: quote_ascii_def esc_def unquote.simps Let_def)
qed

lemma utf8_encode_special:
  "utf8_encode 0xFFFD = replacement"
  "utf8_encode 0x2028 = [CHR 0xE2, CHR 0x80, CHR 0xA8]"
  "utf8_encode 0x2029 = [CHR 0xE2, CHR 0x80, CHR 0xA9]"
  by (simp_all add: utf8_encode_def replacement_def char_of_eq_iff)

lemma unquote_fffd: "unquote (esc ''ufffd'' @ cs) = map_option (apfst (append replacement)) (unquote cs)"
  by (simp add: esc_def unquote.simps unquote_u_def hex_value_def utf8_encode_special)

lemma unquote_2028:
  "unquote (esc ''u2028'' @ cs) = map_option (apfst (append [CHR 0xE2, CHR 0x80, CHR 0xA8])) (unquote cs)"
  "unquote (esc ''u2029'' @ cs) = map_option (apfst (append [CHR 0xE2, CHR 0x80, CHR 0xA9])) (unquote cs)"
  by (simp_all add: esc_def unquote.simps unquote_u_def hex_value_def utf8_encode_special)

lemma unquote_rune:
  assumes "rune_len s \<noteq> 0" and "\<not> byte (hd s) < 0x80"
  shows "unquote (take (rune_len s) s @ cs) = map_option (apfst (append (take (rune_len s) s))) (unquote cs)"
proof -
  let ?r = "take (rune_len s) s"
  have len: "length ?r = rune_len s" using rune_len_bounds [OF assms(1)] by simp
  obtain c t where r: "?r = c # t" using len assms(1) by (cases ?r) auto
  then have c: "hd s = c" using assms(1) by (cases s; cases "rune_len s") auto
  have k: "rune_len (?r @ cs) = rune_len s" using assms(1) by (rule rune_len_take)
  have "c \<noteq> CHR 0x22" "c \<noteq> CHR 0x5C" "\<not> byte c < 0x20" "\<not> byte c < 0x80" using assms(2) c by auto
  moreover have "take (rune_len s) (?r @ cs) = ?r" "drop (rune_len s) (?r @ cs) = cs"
    using len by simp_all
  ultimately show ?thesis
    using k assms(1) r by (simp add: unquote.simps)
qed

lemma unquote_quote: "unquote (quote_body s @ CHR 0x22 # rest) = Some (sanitize s, rest)"
proof (induction s rule: quote_body.induct)
  case 1
  then show ?case by (simp add: unquote.simps)
next
  case (2 c cs)
  show ?case
  proof (cases "byte c < 0x80")
    case True
    with 2(1) show ?thesis by (simp add: quote_body.simps sanitize.simps unquote_quote_ascii)
  next
    case ge: False
    show ?thesis
    proof (cases "rune_len (c # cs) = 0")
      case True
      with ge 2(2) [OF ge refl True] show ?thesis
        by (simp add: quote_body.simps sanitize.simps unquote_fffd)
    next
      case False
      let ?r = "take (rune_len (c # cs)) (c # cs)"
      note IH = 2(3) [OF ge refl False refl]
      have "unquote (?r @ x) = map_option (apfst (append ?r)) (unquote x)" for x
        using unquote_rune [OF False] ge by simp
      with ge False IH show ?thesis
        by (simp add: quote_body.simps sanitize.simps unquote_2028 Let_def del: take_Suc_Cons)
    qed
  qed
qed

end
