(* ===== verification/Json.thy ===== *)
theory Json
  imports Json_Strings
begin

text \<open>
  Go's \<^verbatim>\<open>encoding/json\<close> on documents: the values, the text that \<^verbatim>\<open>json.Marshal\<close> and
  \<^verbatim>\<open>json.MarshalIndent\<close> write, and the parser behind \<^verbatim>\<open>json.Unmarshal\<close>, as a lexer and a stack
  machine over its tokens that accepts what the scanner of the package accepts (with its nesting limit of
  10000).  The parser returns what was printed, with invalid UTF-8 replaced.
\<close>

datatype json =
    JNull
  | JBool bool
  | JNum string
  | JStr string
  | JArr "json list"
  | JObj "(string \<times> json) list"

subsection \<open>Printing\<close>

fun join :: "'a list \<Rightarrow> 'a list list \<Rightarrow> 'a list" where
  "join s [] = []"
| "join s [x] = x"
| "join s (x # y # ys) = x @ s @ join s (y # ys)"

text \<open>
  \<open>nl d\<close> is what starts a line at depth \<open>d\<close> and \<open>col\<close> what separates a key from its value.
\<close>

fun print_with :: "(nat \<Rightarrow> string) \<Rightarrow> string \<Rightarrow> nat \<Rightarrow> json \<Rightarrow> string" where
  "print_with nl col d JNull = ''null''"
| "print_with nl col d (JBool b) = (if b then ''true'' else ''false'')"
| "print_with nl col d (JNum n) = n"
| "print_with nl col d (JStr s) = quote s"
| "print_with nl col d (JArr xs) =
     (if xs = [] then ''[]''
      else ''['' @ nl (Suc d) @ join ('','' @ nl (Suc d)) (map (print_with nl col (Suc d)) xs) @ nl d @ '']'')"
| "print_with nl col d (JObj ps) =
     (if ps = [] then ''{}''
      else ''{'' @ nl (Suc d) @
        join ('','' @ nl (Suc d)) (map (\<lambda>p. quote (fst p) @ col @ print_with nl col (Suc d) (snd p)) ps) @
        nl d @ ''}'')"

definition Marshal :: "json \<Rightarrow> string" where
  "Marshal v = print_with (\<lambda>_. []) '':'' 0 v"

text \<open>\<^verbatim>\<open>json.MarshalIndent(v, "", "  ")\<close>.\<close>

definition MarshalIndent :: "json \<Rightarrow> string" where
  "MarshalIndent v = print_with (\<lambda>d. CHR 0x0A # replicate (2 * d) (CHR '' '')) '': '' 0 v"

subsection \<open>Lexing\<close>

datatype token =
    TLBrace | TRBrace | TLBrack | TRBrack | TColon | TComma
  | TStr string | TNum string | TTrue | TFalse | TNull

definition is_space :: "char \<Rightarrow> bool" where
  "is_space c \<longleftrightarrow> c \<in> {CHR '' '', CHR 0x09, CHR 0x0A, CHR 0x0D}"

definition is_digit :: "char \<Rightarrow> bool" where
  "is_digit c \<longleftrightarrow> 0x30 \<le> byte c \<and> byte c \<le> 0x39"

definition scan_digits :: "string \<Rightarrow> (string \<times> string) option" where
  "scan_digits cs =
     (let ds = takeWhile is_digit cs in if ds = [] then None else Some (ds, dropWhile is_digit cs))"

definition scan_int :: "string \<Rightarrow> (string \<times> string) option" where
  "scan_int cs =
     (case cs of
        c # r \<Rightarrow> if c = CHR ''0'' then Some ([c], r) else scan_digits cs
      | [] \<Rightarrow> None)"

definition scan_frac :: "string \<Rightarrow> (string \<times> string) option" where
  "scan_frac cs =
     (case cs of
        c # r \<Rightarrow>
          if c = CHR ''.'' then map_option (apfst (Cons c)) (scan_digits r) else Some ([], cs)
      | [] \<Rightarrow> Some ([], []))"

definition scan_exp :: "string \<Rightarrow> (string \<times> string) option" where
  "scan_exp cs =
     (case cs of
        c # r \<Rightarrow>
          if c = CHR ''e'' \<or> c = CHR ''E'' then
            (case r of
               s # r' \<Rightarrow>
                 if s = CHR ''+'' \<or> s = CHR ''-'' then map_option (apfst (append [c, s])) (scan_digits r')
                 else map_option (apfst (Cons c)) (scan_digits r)
             | [] \<Rightarrow> None)
          else Some ([], cs)
      | [] \<Rightarrow> Some ([], []))"

text \<open>The number at the head of the input: sign, integer part, fraction, exponent.\<close>

definition scan_number :: "string \<Rightarrow> (string \<times> string) option" where
  "scan_number cs =
     (let (sign, cs) = (case cs of c # r \<Rightarrow> if c = CHR ''-'' then ([c], r) else ([], cs) | [] \<Rightarrow> ([], cs))
      in case scan_int cs of
           None \<Rightarrow> None
         | Some (i, cs) \<Rightarrow>
             (case scan_frac cs of
                None \<Rightarrow> None
              | Some (f, cs) \<Rightarrow>
                  (case scan_exp cs of
                     None \<Rightarrow> None
                   | Some (e, cs) \<Rightarrow> Some (sign @ i @ f @ e, cs))))"

lemma unquote_shorter: "unquote cs = Some (s, rest) \<Longrightarrow> length rest < length cs"
proof (induction "length cs" arbitrary: cs s rule: less_induct)
  case less
  then obtain c cs' where cs: "cs = c # cs'" by (cases cs) auto
  have tail: "length rest < length cs" if "unquote x = Some (a, rest)" "length x < length cs" for a x
    using that less(1) by fastforce
  show ?case
  proof (cases "c = CHR 0x5C")
    case True
    with less(2) cs show ?thesis
      by (auto simp: unquote.simps(2) simp del: unescape.simps split: list.splits if_splits option.splits
          dest!: unquote_u_shorter dest: tail) (use tail in force)
  next
    case False
    with less(2) cs show ?thesis
      by (auto simp: unquote.simps(2) Let_def split: if_splits dest: tail)
  qed
qed

lemma scan_digits_shorter: "scan_digits cs = Some (s, rest) \<Longrightarrow> length rest < length cs"
  by (cases cs) (auto simp: scan_digits_def Let_def length_dropWhile_le less_Suc_eq_le split: if_splits)

lemma scan_number_shorter: "scan_number cs = Some (s, rest) \<Longrightarrow> length rest < length cs"
  by (fastforce simp: scan_number_def scan_int_def scan_frac_def scan_exp_def Let_def
      dest!: scan_digits_shorter split: if_splits list.splits option.splits prod.splits)

definition punctuation :: "char \<Rightarrow> token option" where
  "punctuation c =
     (if c = CHR ''{'' then Some TLBrace else if c = CHR ''}'' then Some TRBrace
      else if c = CHR ''['' then Some TLBrack else if c = CHR '']'' then Some TRBrack
      else if c = CHR '':'' then Some TColon else if c = CHR '','' then Some TComma else None)"

function tokenize :: "string \<Rightarrow> token list option" where
  "tokenize [] = Some []"
| "tokenize (c # cs) =
     (if is_space c then tokenize cs
      else case punctuation c of
        Some t \<Rightarrow> map_option (Cons t) (tokenize cs)
      | None \<Rightarrow>
          if c = CHR 0x22 then
            (case unquote cs of
               None \<Rightarrow> None
             | Some (s, rest) \<Rightarrow> map_option (Cons (TStr s)) (tokenize rest))
          else if take 4 (c # cs) = ''true'' then map_option (Cons TTrue) (tokenize (drop 4 (c # cs)))
          else if take 5 (c # cs) = ''false'' then map_option (Cons TFalse) (tokenize (drop 5 (c # cs)))
          else if take 4 (c # cs) = ''null'' then map_option (Cons TNull) (tokenize (drop 4 (c # cs)))
          else
            (case scan_number (c # cs) of
               None \<Rightarrow> None
             | Some (n, rest) \<Rightarrow> map_option (Cons (TNum n)) (tokenize rest)))"
  by pat_completeness auto
termination
proof (relation "measure length")
  show "wf (measure (length :: string \<Rightarrow> nat))" by simp
qed (auto dest!: unquote_shorter scan_number_shorter)

declare tokenize.simps(2) [simp del]

subsection \<open>Parsing\<close>

datatype frame = ArrF "json list" | ObjF "(string \<times> json) list" string

datatype mode =
    MValue
  | MFirst
  | MKeyOrEnd
  | MKey "(string \<times> json) list"
  | MColon "(string \<times> json) list" string
  | MDone json

definition max_depth :: nat where
  "max_depth = 10000"

fun value_token :: "frame list \<Rightarrow> token \<Rightarrow> (frame list \<times> mode) option" where
  "value_token st (TStr s) = Some (st, MDone (JStr s))"
| "value_token st (TNum n) = Some (st, MDone (JNum n))"
| "value_token st TTrue = Some (st, MDone (JBool True))"
| "value_token st TFalse = Some (st, MDone (JBool False))"
| "value_token st TNull = Some (st, MDone JNull)"
| "value_token st TLBrack = (if length st < max_depth then Some (ArrF [] # st, MFirst) else None)"
| "value_token st TLBrace = (if length st < max_depth then Some (st, MKeyOrEnd) else None)"
| "value_token st _ = None"

fun parse_step :: "token \<Rightarrow> frame list \<Rightarrow> mode \<Rightarrow> (frame list \<times> mode) option" where
  "parse_step t st MValue = value_token st t"
| "parse_step t st MFirst = (if t = TRBrack then Some (tl st, MDone (JArr [])) else value_token st t)"
| "parse_step t st MKeyOrEnd =
     (case t of TRBrace \<Rightarrow> Some (st, MDone (JObj [])) | TStr k \<Rightarrow> Some (st, MColon [] k) | _ \<Rightarrow> None)"
| "parse_step t st (MKey ps) = (case t of TStr k \<Rightarrow> Some (st, MColon ps k) | _ \<Rightarrow> None)"
| "parse_step t st (MColon ps k) = (if t = TColon then Some (ObjF ps k # st, MValue) else None)"
| "parse_step t st (MDone v) =
     (case st of
        [] \<Rightarrow> None
      | ArrF xs # st' \<Rightarrow>
          (case t of
             TComma \<Rightarrow> Some (ArrF (v # xs) # st', MValue)
           | TRBrack \<Rightarrow> Some (st', MDone (JArr (rev (v # xs))))
           | _ \<Rightarrow> None)
      | ObjF ps k # st' \<Rightarrow>
          (case t of
             TComma \<Rightarrow> Some (st', MKey ((k, v) # ps))
           | TRBrace \<Rightarrow> Some (st', MDone (JObj (rev ((k, v) # ps))))
           | _ \<Rightarrow> None))"

fun parse_run :: "token list \<Rightarrow> frame list \<times> mode \<Rightarrow> json option" where
  "parse_run [] (st, m) = (case (st, m) of ([], MDone v) \<Rightarrow> Some v | _ \<Rightarrow> None)"
| "parse_run (t # ts) (st, m) = (case parse_step t st m of None \<Rightarrow> None | Some s \<Rightarrow> parse_run ts s)"

text \<open>The value of a document, or \<^term>\<open>None\<close> for a \<^verbatim>\<open>SyntaxError\<close>.\<close>

definition parse :: "string \<Rightarrow> json option" where
  "parse data = (case tokenize data of None \<Rightarrow> None | Some ts \<Rightarrow> parse_run ts ([], MValue))"

subsection \<open>Round trip\<close>

fun toks :: "json \<Rightarrow> token list" where
  "toks JNull = [TNull]"
| "toks (JBool b) = [if b then TTrue else TFalse]"
| "toks (JNum n) = [TNum n]"
| "toks (JStr s) = [TStr s]"
| "toks (JArr xs) = TLBrack # join [TComma] (map toks xs) @ [TRBrack]"
| "toks (JObj ps) =
     TLBrace # join [TComma] (map (\<lambda>p. TStr (fst p) # TColon # toks (snd p)) ps) @ [TRBrace]"

text \<open>The document with all its strings sanitized.\<close>

fun clean :: "json \<Rightarrow> json" where
  "clean (JStr s) = JStr (sanitize s)"
| "clean (JArr xs) = JArr (map clean xs)"
| "clean (JObj ps) = JObj (map (\<lambda>p. (sanitize (fst p), clean (snd p))) ps)"
| "clean v = v"

fun depth :: "json \<Rightarrow> nat" where
  "depth (JArr xs) = Suc (foldr max (map depth xs) 0)"
| "depth (JObj ps) = Suc (foldr max (map (\<lambda>p. depth (snd p)) ps) 0)"
| "depth _ = 0"

lemma depth_member:
  "x \<in> set xs \<Longrightarrow> depth x < depth (JArr xs)"
  "p \<in> set ps \<Longrightarrow> depth (snd p) < depth (JObj ps)"
  by (induction xs; auto simp: less_Suc_eq_le le_max_iff_disj)
    (induction ps; auto simp: less_Suc_eq_le le_max_iff_disj)

lemma toks_nonempty: "\<exists>t ts. toks v = t # ts \<and> t \<noteq> TRBrack"
  by (cases v) simp_all

lemma run_array:
  assumes "\<And>x ts st. x \<in> set xs \<Longrightarrow> length st \<le> n \<Longrightarrow>
      parse_run (toks x @ ts) (st, MValue) = parse_run ts (st, MDone x)"
    and "xs \<noteq> []" and "length st < n"
  shows "parse_run (join [TComma] (map toks xs) @ TRBrack # ts) (ArrF acc # st, MValue) =
     parse_run ts (st, MDone (JArr (rev acc @ xs)))"
  using assms
proof (induction xs arbitrary: acc)
  case (Cons x xs)
  then show ?case by (cases xs) simp_all
qed simp

lemma run_object:
  assumes "\<And>p ts st. p \<in> set ps \<Longrightarrow> length st \<le> n \<Longrightarrow>
      parse_run (toks (snd p) @ ts) (st, MValue) = parse_run ts (st, MDone (snd p))"
    and "ps \<noteq> []" and "length st < n" and "m = MKey acc \<or> m = MKeyOrEnd \<and> acc = []"
  shows "parse_run (join [TComma] (map (\<lambda>p. TStr (fst p) # TColon # toks (snd p)) ps) @ TRBrace # ts) (st, m) =
     parse_run ts (st, MDone (JObj (rev acc @ ps)))"
  using assms
proof (induction ps arbitrary: acc m)
  case (Cons p ps)
  obtain k v where p: "p = (k, v)" by (cases p)
  have v: "parse_run (toks v @ ts') (ObjF ac k # st, MValue) = parse_run ts' (ObjF ac k # st, MDone v)" for ts' ac
    using Cons.prems(1) [of p "ObjF ac k # st" ts'] Cons.prems(3) p by simp
  show ?case
  proof (cases ps)
    case Nil
    with v p Cons.prems(4) show ?thesis by auto
  next
    case (Cons q qs)
    have "parse_run (join [TComma] (map (\<lambda>p. TStr (fst p) # TColon # toks (snd p)) ps) @ TRBrace # ts)
        (st, MKey ((k, v) # acc)) = parse_run ts (st, MDone (JObj (rev ((k, v) # acc) @ ps)))"
      using Cons.IH [of "MKey ((k, v) # acc)" "(k, v) # acc"] Cons.prems Cons by simp
    with v p Cons.prems(4) Cons show ?thesis by auto
  qed
qed simp

lemma run_toks:
  "length st + depth v \<le> max_depth \<Longrightarrow> parse_run (toks v @ ts) (st, MValue) = parse_run ts (st, MDone v)"
proof (induction v arbitrary: st ts)
  case (JArr xs)
  have IH: "parse_run (toks x @ ts) (st', MValue) = parse_run ts (st', MDone x)"
    if "x \<in> set xs" "length st' \<le> Suc (length st)" for x ts st'
    using JArr.prems that(2) depth_member(1) [OF that(1)] by (intro JArr.IH [OF that(1)]) linarith
  show ?case
  proof (cases xs)
    case Nil
    with JArr.prems show ?thesis by simp
  next
    case (Cons x ys)
    have "parse_run (toks (JArr xs) @ ts) (st, MValue) =
        parse_run (join [TComma] (map toks xs) @ TRBrack # ts) (ArrF [] # st, MFirst)"
      using JArr.prems by simp
    also have "\<dots> = parse_run (join [TComma] (map toks xs) @ TRBrack # ts) (ArrF [] # st, MValue)"
      using toks_nonempty [of x] Cons by (cases ys) auto
    also have "\<dots> = parse_run ts (st, MDone (JArr xs))"
      using run_array [of xs "Suc (length st)" st ts "[]"] IH Cons by simp
    finally show ?thesis .
  qed
next
  case (JObj ps)
  have IH: "parse_run (toks (snd p) @ ts) (st', MValue) = parse_run ts (st', MDone (snd p))"
    if "p \<in> set ps" "length st' \<le> Suc (length st)" for p ts st'
    using JObj.prems that depth_member(2) [OF that(1)] by (intro JObj.IH [OF that(1)]) (auto simp: snds.simps)
  show ?case
  proof (cases "ps = []")
    case True
    with JObj.prems show ?thesis by simp
  next
    case False
    with JObj.prems run_object [of ps "Suc (length st)" st MKeyOrEnd "[]" ts] IH show ?thesis by simp
  qed
qed simp_all

text \<open>A number literal is read back whole when what follows cannot continue a number.\<close>

definition ends_number :: "string \<Rightarrow> bool" where
  "ends_number rest \<longleftrightarrow>
     (case rest of [] \<Rightarrow> True | c # _ \<Rightarrow> \<not> is_digit c \<and> c \<noteq> CHR ''.'' \<and> c \<noteq> CHR ''e'' \<and> c \<noteq> CHR ''E'')"

definition num_literal :: "string \<Rightarrow> bool" where
  "num_literal n \<longleftrightarrow> n \<noteq> [] \<and> (is_digit (hd n) \<or> hd n = CHR ''-'') \<and>
     (\<forall>rest. ends_number rest \<longrightarrow> scan_number (n @ rest) = Some (n, rest))"

fun nums_ok :: "json \<Rightarrow> bool" where
  "nums_ok (JNum n) = num_literal n"
| "nums_ok (JArr xs) = list_all nums_ok xs"
| "nums_ok (JObj ps) = list_all (\<lambda>p. nums_ok (snd p)) ps"
| "nums_ok _ = True"

lemma is_digit_cases: "is_digit c \<Longrightarrow> c \<in> set ''0123456789''"
proof -
  assume d: "is_digit c"
  define n where "n = byte c - 0x30"
  have "c = char_of (0x30 + n)" "n < 10" using d by (auto simp: is_digit_def n_def)
  moreover from this(2) have "n \<in> {0, 1, 2, 3, 4, 5, 6, 7, 8, 9}" by auto
  ultimately show ?thesis by (auto simp: char_of_eq_iff)
qed

lemma lex_number:
  assumes "num_literal n" and "ends_number rest"
  shows "tokenize (n @ rest) = map_option (Cons (TNum n)) (tokenize rest)"
proof -
  obtain c cs where n: "n = c # cs" using assms(1) by (cases n) (auto simp: num_literal_def)
  have "c \<in> set ''0123456789'' \<or> c = CHR ''-''"
    using assms(1) is_digit_cases by (auto simp: num_literal_def n)
  then have "\<not> is_space c" "punctuation c = None" "c \<notin> {CHR 0x22, CHR ''t'', CHR ''f'', CHR ''n''}"
    by (auto simp: is_space_def punctuation_def)
  moreover have "scan_number (c # cs @ rest) = Some (n, rest)"
    using assms by (simp add: num_literal_def n)
  ultimately show ?thesis by (auto simp: n tokenize.simps)
qed

lemma lex_spaces: "list_all is_space ws \<Longrightarrow> tokenize (ws @ s) = tokenize s"
  by (induction ws) (simp_all add: tokenize.simps)

lemma lex_quote: "tokenize (quote k @ s) = map_option (Cons (TStr (sanitize k))) (tokenize s)"
  by (simp add: quote_def tokenize.simps is_space_def punctuation_def unquote_quote)

lemma lex_punctuation: "punctuation c = Some t \<Longrightarrow> tokenize (c # s) = map_option (Cons t) (tokenize s)"
  by (auto simp: tokenize.simps punctuation_def is_space_def split: if_splits)

lemma ends_number_punctuation:
  "list_all is_space ws \<Longrightarrow> punctuation c \<noteq> None \<Longrightarrow> ends_number (ws @ c # s)"
  by (cases ws) (auto simp: ends_number_def is_space_def punctuation_def is_digit_def split: if_splits)

text \<open>A non-empty sequence of printed members, separated by commas and closed by \<open>c\<close>.\<close>

lemma lex_join:
  assumes "\<And>x rest. x \<in> set xs \<Longrightarrow> ends_number rest \<Longrightarrow> tokenize (pr x @ rest) = map_option (append (tk x)) (tokenize rest)"
    and "xs \<noteq> []" and "list_all is_space ws" and "list_all is_space ws'" and "punctuation c = Some t"
  shows "tokenize (join ('','' @ ws) (map pr xs) @ ws' @ c # rest) =
     map_option (\<lambda>ts. join [TComma] (map tk xs) @ t # ts) (tokenize rest)"
  using assms
proof (induction xs)
  case (Cons x xs)
  have x: "tokenize (pr x @ r) = map_option (append (tk x)) (tokenize r)" if "ends_number r" for r
    using Cons.prems(1) [of x r] that by simp
  show ?case
  proof (cases xs)
    case Nil
    have "ends_number (ws' @ c # rest)" using Cons.prems by (intro ends_number_punctuation) simp_all
    with Nil Cons.prems x show ?thesis
      by (cases "tokenize rest") (simp_all add: lex_spaces lex_punctuation)
  next
    case (Cons y ys)
    let ?r = "join ('','' @ ws) (map pr xs) @ ws' @ c # rest"
    have IH: "tokenize ?r = map_option (\<lambda>ts. join [TComma] (map tk xs) @ t # ts) (tokenize rest)"
      using Cons.IH Cons.prems Cons by simp
    have "ends_number (CHR '','' # ws @ ?r)"
      using ends_number_punctuation [of "[]" "CHR '',''"] by (simp add: punctuation_def)
    with x have "tokenize (pr x @ CHR '','' # ws @ ?r) = map_option (append (tk x)) (tokenize (CHR '','' # ws @ ?r))"
      by blast
    also have "tokenize (CHR '','' # ws @ ?r) = map_option (Cons TComma) (tokenize ?r)"
      using Cons.prems(3) by (subst lex_punctuation [of _ TComma]) (simp_all add: punctuation_def lex_spaces)
    finally show ?thesis using Cons IH by (cases "tokenize rest") simp_all
  qed
qed simp

text \<open>Whatever the layout, the tokens of the printed text are those of the cleaned document.\<close>

lemma tokenize_print:
  assumes nl: "\<And>d. list_all is_space (nl d)"
    and col: "\<And>s. tokenize (col @ s) = map_option (Cons TColon) (tokenize s)"
  shows "nums_ok v \<Longrightarrow> ends_number rest \<Longrightarrow>
     tokenize (print_with nl col d v @ rest) = map_option (append (toks (clean v))) (tokenize rest)"
proof (induction v arbitrary: d rest)
  case (JArr xs)
  show ?case
  proof (cases "xs = []")
    case True
    then show ?thesis
      by (cases "tokenize rest") (simp_all add: lex_punctuation punctuation_def)
  next
    case False
    have "tokenize (print_with nl col (Suc d) x @ r) = map_option (append (toks (clean x))) (tokenize r)"
      if "x \<in> set xs" "ends_number r" for x r
      using JArr.IH [OF that(1) _ that(2)] JArr.prems(1) that(1) by (auto simp: list_all_iff)
    from lex_join [of xs "print_with nl col (Suc d)" "\<lambda>x. toks (clean x)", OF this False nl nl, of "CHR '']''" TRBrack]
    show ?thesis using False nl
      by (cases "tokenize rest") (simp_all add: lex_punctuation lex_spaces punctuation_def comp_def)
  qed
next
  case (JObj ps)
  let ?pr = "\<lambda>p. quote (fst p) @ col @ print_with nl col (Suc d) (snd p)"
  let ?tk = "\<lambda>p. TStr (sanitize (fst p)) # TColon # toks (clean (snd p))"
  show ?case
  proof (cases "ps = []")
    case True
    then show ?thesis
      by (cases "tokenize rest") (simp_all add: lex_punctuation punctuation_def)
  next
    case False
    have "tokenize (?pr p @ r) = map_option (append (?tk p)) (tokenize r)"
      if "p \<in> set ps" "ends_number r" for p r
    proof -
      have "tokenize (print_with nl col (Suc d) (snd p) @ r) = map_option (append (toks (clean (snd p)))) (tokenize r)"
        using JObj.IH [OF that(1), of "snd p" r "Suc d"] JObj.prems(1) that by (auto simp: list_all_iff snds.simps)
      then show ?thesis by (cases "tokenize r") (simp_all add: lex_quote col)
    qed
    from lex_join [of ps ?pr ?tk, OF this False nl nl, of "CHR ''}''" TRBrace]
    show ?thesis using False nl
      by (cases "tokenize rest") (simp_all add: lex_punctuation lex_spaces punctuation_def comp_def)
  qed
next
  case (JBool b)
  then show ?case
    by (cases "tokenize rest") (simp_all add: tokenize.simps is_space_def punctuation_def)
next
  case JNull
  then show ?case
    by (cases "tokenize rest") (simp_all add: tokenize.simps is_space_def punctuation_def)
next
  case (JNum n)
  then show ?case by (cases "tokenize rest") (simp_all add: lex_number)
next
  case (JStr s)
  then show ?case by (cases "tokenize rest") (simp_all add: lex_quote)
qed

lemma depth_clean [simp]: "depth (clean v) = depth v"
proof (induction v)
  case (JArr xs)
  then have "map depth (map clean xs) = map depth xs" by simp
  then show ?case by (simp only: clean.simps depth.simps)
next
  case (JObj ps)
  have "depth (clean (snd p)) = depth (snd p)" if "p \<in> set ps" for p
    using JObj [OF that, of "snd p"] by (simp add: snds.simps)
  then have "map (\<lambda>p. depth (snd p)) (map (\<lambda>p. (sanitize (fst p), clean (snd p))) ps) = map (\<lambda>p. depth (snd p)) ps"
    by simp
  then show ?case by (simp only: clean.simps depth.simps)
qed simp_all

lemma parse_print:
  assumes "\<And>d. list_all is_space (nl d)"
    and "\<And>s. tokenize (col @ s) = map_option (Cons TColon) (tokenize s)"
    and "nums_ok v" and "depth v \<le> max_depth"
  shows "parse (print_with nl col 0 v) = Some (clean v)"
proof -
  have "tokenize (print_with nl col 0 v) = Some (toks (clean v))"
    using tokenize_print [OF assms(1,2,3), of "[]"] by (simp add: ends_number_def)
  with run_toks [of "[]" "clean v" "[]"] assms(4) show ?thesis by (simp add: parse_def)
qed

lemma parse_Marshal: "nums_ok v \<Longrightarrow> depth v \<le> max_depth \<Longrightarrow> parse (Marshal v) = Some (clean v)"
  unfolding Marshal_def
  by (rule parse_print) (simp_all add: lex_punctuation punctuation_def)

lemma parse_MarshalIndent:
  "nums_ok v \<Longrightarrow> depth v \<le> max_depth \<Longrightarrow> parse (MarshalIndent v) = Some (clean v)"
  unfolding MarshalIndent_def
  by (rule parse_print)
    (simp_all add: lex_punctuation punctuation_def is_space_def list_all_iff tokenize.simps)

end
