(* ===== verification/Json_Scalars.thy ===== *)
theory Json_Scalars
  imports Json
begin

text \<open>
  How Go's \<^verbatim>\<open>encoding/json\<close> writes and reads the scalars of the Raft messages: an \<^verbatim>\<open>int\<close> as a decimal
  literal (\<^verbatim>\<open>strconv.AppendInt\<close> and \<^verbatim>\<open>strconv.ParseInt\<close> with 64 bits), a \<^verbatim>\<open>[]byte\<close> as a string in base64
  (\<^verbatim>\<open>base64.StdEncoding\<close>).
\<close>

subsection \<open>Integers\<close>

definition digit :: "nat \<Rightarrow> char" where
  "digit n = char_of (0x30 + n)"

fun dec :: "nat \<Rightarrow> string" where
  "dec n = (if n < 10 then [digit n] else dec (n div 10) @ [digit (n mod 10)])"

declare dec.simps [simp del]

definition undec :: "string \<Rightarrow> nat" where
  "undec ds = foldl (\<lambda>a c. 10 * a + (byte c - 0x30)) 0 ds"

definition AppendInt :: "int \<Rightarrow> string" where
  "AppendInt i = (if i < 0 then CHR ''-'' # dec (nat (- i)) else dec (nat i))"

definition int64 :: "int \<Rightarrow> bool" where
  "int64 i \<longleftrightarrow> - (2 ^ 63) \<le> i \<and> i < 2 ^ 63"

text \<open>\<^verbatim>\<open>ParseInt\<close> on a number literal: a fraction or an exponent is an error, and so is a value out of range.\<close>

definition ParseInt :: "string \<Rightarrow> int option" where
  "ParseInt s =
     (let (neg, ds) = (case s of c # r \<Rightarrow> if c = CHR ''-'' then (True, r) else (False, s) | [] \<Rightarrow> (False, s));
          v = (if neg then - int (undec ds) else int (undec ds))
      in if ds \<noteq> [] \<and> list_all is_digit ds \<and> int64 v then Some v else None)"

lemma byte_digit: "n < 10 \<Longrightarrow> byte (digit n) = 0x30 + n"
  by (simp add: digit_def)

lemma is_digit_digit: "n < 10 \<Longrightarrow> is_digit (digit n)"
  by (simp add: is_digit_def byte_digit)

lemma dec_digits: "list_all is_digit (dec n)"
  by (induction n rule: dec.induct) (subst dec.simps, simp add: is_digit_digit)

lemma dec_nonempty: "dec n \<noteq> []"
  by (subst dec.simps) simp

lemma undec_dec: "undec (dec n) = n"
proof (induction n rule: dec.induct)
  case (1 n)
  show ?case
  proof (cases "n < 10")
    case True
    then show ?thesis by (subst dec.simps) (simp add: undec_def byte_digit)
  next
    case False
    then have "undec (dec (n div 10)) = n div 10" using 1 by simp
    with False show ?thesis by (subst dec.simps) (simp add: undec_def byte_digit)
  qed
qed

lemma dec_hd: "0 < n \<Longrightarrow> hd (dec n) \<noteq> CHR ''0''"
proof (induction n rule: dec.induct)
  case (1 n)
  show ?case
  proof (cases "n < 10")
    case True
    then have "byte (digit n) \<noteq> byte (CHR ''0'')" using 1 by (simp add: byte_digit)
    with True show ?thesis by (subst dec.simps) auto
  next
    case False
    then have "hd (dec (n div 10)) \<noteq> CHR ''0''" using 1 by simp
    with False dec_nonempty show ?thesis by (subst dec.simps) simp
  qed
qed

lemma minus_not_digit: "\<not> is_digit (CHR ''-'')"
  by (simp add: is_digit_def)

lemma ParseInt_AppendInt:
  assumes "int64 i"
  shows "ParseInt (AppendInt i) = Some i"
proof -
  obtain c cs where d: "dec (nat \<bar>i\<bar>) = c # cs" using dec_nonempty [of "nat \<bar>i\<bar>"] by (cases "dec (nat \<bar>i\<bar>)") auto
  have "c \<noteq> CHR ''-''" using dec_digits [of "nat \<bar>i\<bar>"] minus_not_digit unfolding d by auto
  with assms dec_digits [of "nat \<bar>i\<bar>"] undec_dec [of "nat \<bar>i\<bar>"] d show ?thesis
    by (auto simp: ParseInt_def AppendInt_def)
qed

lemma takeWhile_digits:
  assumes "list_all is_digit ds" and "ends_number rest"
  shows "takeWhile is_digit (ds @ rest) = ds" and "dropWhile is_digit (ds @ rest) = rest"
  using assms by (induction ds) (auto simp: ends_number_def split: list.splits)

lemma scan_int_dec:
  assumes "ends_number rest"
  shows "scan_int (dec n @ rest) = Some (dec n, rest)"
proof (cases "n = 0")
  case True
  moreover have "digit 0 = CHR ''0''" by code_simp
  ultimately show ?thesis by (simp add: dec.simps scan_int_def)
next
  case False
  obtain c cs where d: "dec n = c # cs" using dec_nonempty [of n] by (cases "dec n") auto
  then have "c \<noteq> CHR ''0''" using dec_hd [of n] False by simp
  then show ?thesis
    using takeWhile_digits [OF dec_digits assms, of n] d by (simp add: scan_int_def scan_digits_def Let_def)
qed

lemma num_literal_AppendInt: "num_literal (AppendInt i)"
proof -
  let ?d = "dec (nat \<bar>i\<bar>)"
  obtain c cs where d: "?d = c # cs" using dec_nonempty [of "nat \<bar>i\<bar>"] by (cases ?d) auto
  then have c: "is_digit c" "c \<noteq> CHR ''-''"
    using dec_digits [of "nat \<bar>i\<bar>"] minus_not_digit by auto
  have tail: "scan_frac rest = Some ([], rest) \<and> scan_exp rest = Some ([], rest)" if "ends_number rest" for rest
    using that by (auto simp: scan_frac_def scan_exp_def ends_number_def split: list.splits)
  have "scan_number (AppendInt i @ rest) = Some (AppendInt i, rest)" if "ends_number rest" for rest
  proof (cases "i < 0")
    case True
    then have "AppendInt i = CHR ''-'' # ?d" by (simp add: AppendInt_def)
    then show ?thesis
      using tail [OF that] scan_int_dec [OF that, of "nat \<bar>i\<bar>"] by (simp add: scan_number_def Let_def)
  next
    case False
    then have a: "AppendInt i = ?d" by (simp add: AppendInt_def)
    have "scan_number (?d @ rest) = Some (?d, rest)"
      using tail [OF that] scan_int_dec [OF that, of "nat \<bar>i\<bar>"] c(2) d by (simp add: scan_number_def Let_def)
    then show ?thesis unfolding a .
  qed
  moreover have "AppendInt i \<noteq> []" "is_digit (hd (AppendInt i)) \<or> hd (AppendInt i) = CHR ''-''"
    using c d dec_nonempty [of "nat \<bar>i\<bar>"] by (auto simp: AppendInt_def)
  ultimately show ?thesis unfolding num_literal_def by blast
qed

subsection \<open>Base64\<close>

definition b64_alphabet :: string where
  "b64_alphabet = ''ABCDEFGHIJKLMNOPQRSTUVWXYZabcdefghijklmnopqrstuvwxyz0123456789+/''"

definition b64_char :: "nat \<Rightarrow> char" where
  "b64_char n = b64_alphabet ! n"

text \<open>The value of a character of the alphabet.\<close>

definition b64_value :: "char \<Rightarrow> nat option" where
  "b64_value c =
     (let n = byte c
      in if 0x41 \<le> n \<and> n \<le> 0x5A then Some (n - 0x41)
         else if 0x61 \<le> n \<and> n \<le> 0x7A then Some (n - 0x61 + 26)
         else if 0x30 \<le> n \<and> n \<le> 0x39 then Some (n - 0x30 + 52)
         else if c = CHR ''+'' then Some 62 else if c = CHR ''/'' then Some 63 else None)"

fun b64_encode :: "string \<Rightarrow> string" where
  "b64_encode [] = []"
| "b64_encode [a] =
     (let n = byte a in [b64_char (n div 4), b64_char (n mod 4 * 16), CHR ''='', CHR ''=''])"
| "b64_encode [a, b] =
     (let n = byte a; m = byte b
      in [b64_char (n div 4), b64_char (n mod 4 * 16 + m div 16), b64_char (m mod 16 * 4), CHR ''=''])"
| "b64_encode (a # b # c # rest) =
     (let n = byte a; m = byte b; k = byte c
      in [b64_char (n div 4), b64_char (n mod 4 * 16 + m div 16), b64_char (m mod 16 * 4 + k div 64),
          b64_char (k mod 64)] @ b64_encode rest)"

text \<open>
  Decoding skips line breaks; a quantum is four characters, the last of which may be padded, and bits
  left over by the padding are ignored.
\<close>

fun b64_quanta :: "string \<Rightarrow> string option" where
  "b64_quanta [] = Some []"
| "b64_quanta (a # b # c # d # rest) =
     (case (b64_value a, b64_value b) of
        (Some w, Some x) \<Rightarrow>
          if c = CHR ''='' then
            (if d = CHR ''='' \<and> rest = [] then Some [char_of (w * 4 + x div 16)] else None)
          else
            (case b64_value c of
               None \<Rightarrow> None
             | Some y \<Rightarrow>
                 if d = CHR ''='' then
                   (if rest = [] then Some [char_of (w * 4 + x div 16), char_of (x mod 16 * 16 + y div 4)] else None)
                 else
                   (case (b64_value d, b64_quanta rest) of
                      (Some z, Some s) \<Rightarrow>
                        Some ([char_of (w * 4 + x div 16), char_of (x mod 16 * 16 + y div 4),
                               char_of (y mod 4 * 64 + z)] @ s)
                    | _ \<Rightarrow> None))
      | _ \<Rightarrow> None)"
| "b64_quanta _ = None"

definition b64_decode :: "string \<Rightarrow> string option" where
  "b64_decode s = b64_quanta (filter (\<lambda>c. c \<noteq> CHR 0x0A \<and> c \<noteq> CHR 0x0D) s)"

lemma b64_value_char:
  assumes "n < 64"
  shows "b64_value (b64_char n) = Some n" and "b64_char n \<noteq> CHR ''=''" and "byte (b64_char n) < 0x80"
    and "b64_char n \<noteq> CHR 0x0A" and "b64_char n \<noteq> CHR 0x0D"
proof -
  have len: "length b64_alphabet = 64" by (simp add: b64_alphabet_def)
  have "map b64_value b64_alphabet = map Some [0..<64]" by code_simp
  then have "map b64_value b64_alphabet ! n = map Some [0..<64] ! n" by simp
  then show "b64_value (b64_char n) = Some n" using assms len by (simp add: b64_char_def)
  have "b64_char n \<in> set b64_alphabet" using assms len by (simp add: b64_char_def)
  then show "b64_char n \<noteq> CHR ''=''" "byte (b64_char n) < 0x80" "b64_char n \<noteq> CHR 0x0A" "b64_char n \<noteq> CHR 0x0D"
    by (auto simp: b64_alphabet_def)
qed

lemma byte_less: "byte c < 256"
  by simp

lemma char_of_byte: "char_of (byte c) = c"
  by simp

lemma b64_six_bits:
  fixes n m k :: nat
  assumes "n < 256" and "m < 256" and "k < 256"
  shows "n div 4 < 64" and "n mod 4 * 16 < 64" and "n mod 4 * 16 + m div 16 < 64" and "m mod 16 * 4 < 64"
    and "m mod 16 * 4 + k div 64 < 64" and "k mod 64 < 64"
    and "n div 4 * 4 + (n mod 4 * 16 + m div 16) div 16 = n" and "n div 4 * 4 + n mod 4 * 16 div 16 = n"
    and "(n mod 4 * 16 + m div 16) mod 16 * 16 + (m mod 16 * 4 + k div 64) div 4 = m"
    and "(n mod 4 * 16 + m div 16) mod 16 * 16 + m mod 16 * 4 div 4 = m"
    and "(m mod 16 * 4 + k div 64) mod 4 * 64 + k mod 64 = k"
proof -
  have d: "n div 4 < 64" "m div 16 < 16" "k div 64 < 4" using assms by (simp_all add: div_less_iff_less_mult)
  have r: "n mod 4 < 4" "m mod 16 < 16" "k mod 64 < 64" by simp_all
  have low: "(n mod 4 * 16 + m div 16) div 16 = n mod 4" "(n mod 4 * 16 + m div 16) mod 16 = m div 16"
      "(m mod 16 * 4 + k div 64) div 4 = m mod 16" "(m mod 16 * 4 + k div 64) mod 4 = k div 64"
    using d by simp_all
  show "n div 4 < 64" "n mod 4 * 16 < 64" "n mod 4 * 16 + m div 16 < 64" "m mod 16 * 4 < 64"
      "m mod 16 * 4 + k div 64 < 64" "k mod 64 < 64"
    using d r by linarith+
  show "n div 4 * 4 + (n mod 4 * 16 + m div 16) div 16 = n" "n div 4 * 4 + n mod 4 * 16 div 16 = n"
      "(n mod 4 * 16 + m div 16) mod 16 * 16 + (m mod 16 * 4 + k div 64) div 4 = m"
      "(n mod 4 * 16 + m div 16) mod 16 * 16 + m mod 16 * 4 div 4 = m"
      "(m mod 16 * 4 + k div 64) mod 4 * 64 + k mod 64 = k"
    unfolding low by simp_all
qed

lemma b64_quanta_encode: "b64_quanta (b64_encode s) = Some s"
proof (induction s rule: b64_encode.induct)
  case (2 a)
  note b = b64_six_bits [OF byte_less [of a] byte_less byte_less]
  show ?case by (simp add: Let_def b64_value_char b)
next
  case (3 a b)
  note b = b64_six_bits [OF byte_less [of a] byte_less [of b] byte_less]
  have "byte b div 16 < 16" by (simp add: div_less_iff_less_mult)
  then show ?case by (simp add: Let_def b64_value_char b)
next
  case (4 a b c rest)
  note b = b64_six_bits [OF byte_less [of a] byte_less [of b] byte_less [of c]]
  have "byte b div 16 < 16" "byte c div 64 < 4" by (simp_all add: div_less_iff_less_mult)
  then show ?case using 4 by (simp add: Let_def b64_value_char b)
qed simp

lemma b64_encode_ascii:
  "list_all (\<lambda>c. byte c < 0x80) (b64_encode s) \<and> filter (\<lambda>c. c \<noteq> CHR 0x0A \<and> c \<noteq> CHR 0x0D) (b64_encode s) = b64_encode s"
proof (induction s rule: b64_encode.induct)
  case (2 a)
  note b = b64_six_bits [OF byte_less [of a] byte_less byte_less]
  show ?case by (simp add: Let_def b64_value_char b)
next
  case (3 a b)
  note b = b64_six_bits [OF byte_less [of a] byte_less [of b] byte_less]
  show ?case by (simp add: Let_def b64_value_char b)
next
  case (4 a b c rest)
  note b = b64_six_bits [OF byte_less [of a] byte_less [of b] byte_less [of c]]
  show ?case using 4 by (simp add: Let_def b64_value_char b)
qed simp

lemma b64_decode_encode: "b64_decode (b64_encode s) = Some s"
  using b64_encode_ascii [of s] b64_quanta_encode [of s] by (simp add: b64_decode_def)

end
