(* ===== verification/Json_Structs.thy ===== *)
theory Json_Structs
  imports Json_Scalars
begin

text \<open>
  How Go's \<^verbatim>\<open>encoding/json\<close> fills a struct from a document, and \<^verbatim>\<open>json.Decoder\<close>, which reads the first
  value of a stream and leaves the rest.
\<close>

subsection \<open>The first value of a stream\<close>

text \<open>The next token, at a character that is not white space.\<close>

definition next_token :: "string \<Rightarrow> (token \<times> string) option" where
  "next_token s =
     (case s of
        [] \<Rightarrow> None
      | c # cs \<Rightarrow>
          (case punctuation c of
             Some t \<Rightarrow> Some (t, cs)
           | None \<Rightarrow>
               if c = CHR 0x22 then map_option (apfst TStr) (unquote cs)
               else if take 4 s = ''true'' then Some (TTrue, drop 4 s)
               else if take 5 s = ''false'' then Some (TFalse, drop 5 s)
               else if take 4 s = ''null'' then Some (TNull, drop 4 s)
               else map_option (apfst TNum) (scan_number s)))"

lemma next_token_shorter: "next_token s = Some (t, rest) \<Longrightarrow> length rest < length s"
  by (auto simp: next_token_def dest!: unquote_shorter scan_number_shorter split: list.splits option.splits if_splits)

lemma tokenize_next:
  "\<not> is_space c \<Longrightarrow> tokenize (c # cs) =
     (case next_token (c # cs) of None \<Rightarrow> None | Some (t, rest) \<Rightarrow> map_option (Cons t) (tokenize rest))"
  by (cases "punctuation c"; cases "unquote cs"; cases "scan_number (c # cs)")
    (simp_all add: tokenize.simps(2) next_token_def split_def)

text \<open>
  Reading stops at the bracket that closes the value; after a value without brackets a white space or the
  end must follow.
\<close>

definition ends_value :: "token \<Rightarrow> string \<Rightarrow> bool" where
  "ends_value t rest \<longleftrightarrow> t = TRBrace \<or> t = TRBrack \<or> rest = [] \<or> is_space (hd rest)"

function read_value :: "string \<Rightarrow> frame list \<Rightarrow> mode \<Rightarrow> json option" where
  "read_value [] st m = None"
| "read_value (c # cs) st m =
     (if is_space c then read_value cs st m
      else case next_token (c # cs) of
        None \<Rightarrow> None
      | Some (t, rest) \<Rightarrow>
          (case parse_step t st m of
             None \<Rightarrow> None
           | Some ([], MDone v) \<Rightarrow> if ends_value t rest then Some v else None
           | Some (st', m') \<Rightarrow> read_value rest st' m'))"
  by pat_completeness auto
termination
  by (relation "measure (\<lambda>(s, st, m). length s)") (auto dest!: next_token_shorter)

declare read_value.simps(2) [simp del]

definition decode_first :: "string \<Rightarrow> json option" where
  "decode_first s = read_value s [] MValue"

lemma tokenize_Nil_spaces: "tokenize s = Some [] \<Longrightarrow> list_all is_space s"
proof (induction s)
  case (Cons c cs)
  show ?case
  proof (cases "is_space c")
    case True
    with Cons show ?thesis by (simp add: tokenize.simps)
  next
    case False
    with Cons.prems show ?thesis by (auto simp: tokenize_next split: option.splits)
  qed
qed simp

lemma parse_run_done: "parse_run ts ([], MDone v) = Some w \<Longrightarrow> ts = [] \<and> w = v"
  by (cases ts) auto

lemma read_value_run:
  "tokenize s = Some ts \<Longrightarrow> parse_run ts (st, m) = Some v \<Longrightarrow> ts \<noteq> [] \<Longrightarrow> read_value s st m = Some v"
proof (induction s arbitrary: ts st m rule: length_induct)
  case (1 s)
  show ?case
  proof (cases s)
    case Nil
    with "1.prems" show ?thesis by simp
  next
    case (Cons c cs)
    show ?thesis
    proof (cases "is_space c")
      case True
      then have "tokenize cs = Some ts" using "1.prems"(1) Cons by (simp add: tokenize.simps)
      with "1.IH" "1.prems"(2,3) Cons True show ?thesis by (simp add: read_value.simps)
    next
      case False
      then obtain t rest us where n: "next_token (c # cs) = Some (t, rest)" and r: "tokenize rest = Some us"
        and ts: "ts = t # us"
        using "1.prems"(1) Cons by (auto simp: tokenize_next split: option.splits)
      obtain st' m' where p: "parse_step t st m = Some (st', m')" and run: "parse_run us (st', m') = Some v"
        using "1.prems"(2) by (auto simp: ts split: option.splits)
      show ?thesis
      proof (cases "us = []")
        case True
        with run have d: "st' = []" "m' = MDone v" by (auto split: list.splits mode.splits)
        have "list_all is_space rest" using tokenize_Nil_spaces r True by simp
        then have "ends_value t rest" by (cases rest) (simp_all add: ends_value_def)
        with Cons False n p d show ?thesis by (simp add: read_value.simps)
      next
        case more: False
        then have "\<not> (\<exists>w. st' = [] \<and> m' = MDone w)" using parse_run_done run by blast
        moreover have "read_value rest st' m' = Some v"
          using "1.IH" next_token_shorter [OF n] r run more Cons by blast
        ultimately show ?thesis
          using Cons False n p by (auto simp: read_value.simps split: list.splits mode.splits)
      qed
    qed
  qed
qed

text \<open>On a complete document the decoder agrees with the parser.\<close>

lemma decode_first_parse:
  assumes "parse s = Some v"
  shows "decode_first s = Some v"
proof -
  obtain ts where "tokenize s = Some ts" "parse_run ts ([], MValue) = Some v"
    using assms by (auto simp: parse_def split: option.splits)
  moreover from this(2) have "ts \<noteq> []" by auto
  ultimately show ?thesis using read_value_run by (simp add: decode_first_def)
qed

subsection \<open>Member names\<close>

text \<open>
  Unmarshalling matches a member to a field by its exact name, otherwise up to letter case, where the
  Kelvin sign (U+212A) counts as a K and the long s (U+017F) as an S.
\<close>

definition upper :: "char \<Rightarrow> char" where
  "upper c = (if 0x61 \<le> byte c \<and> byte c \<le> 0x7A then char_of (byte c - 0x20) else c)"

fun equalFold :: "string \<Rightarrow> string \<Rightarrow> bool" where
  "equalFold [] t = (t = [])"
| "equalFold (c # cs) [] = False"
| "equalFold (c # cs) (d # ds) =
     (if byte d < 0x80 then upper c = upper d \<and> equalFold cs ds
      else if upper c = CHR ''S'' \<and> take 2 (d # ds) = [CHR 0xC5, CHR 0xBF] then equalFold cs (drop 1 ds)
      else if upper c = CHR ''K'' \<and> take 3 (d # ds) = [CHR 0xE2, CHR 0x84, CHR 0xAA] then equalFold cs (drop 2 ds)
      else False)"

definition fieldFor :: "string list \<Rightarrow> string \<Rightarrow> string option" where
  "fieldFor names key =
     (if key \<in> set names then Some key else List.find (\<lambda>n. equalFold n key) names)"

lemma sanitize_ascii: "list_all (\<lambda>c. byte c < 0x80) s \<Longrightarrow> sanitize s = s"
  by (induction s) (simp_all add: sanitize.simps)

subsection \<open>Fields\<close>

text \<open>
  A field of a struct is its name and what a member of that name does to the struct; \<^term>\<open>None\<close> is an
  \<^verbatim>\<open>UnmarshalTypeError\<close>.  \<^verbatim>\<open>null\<close> leaves a scalar and a struct alone and empties a slice.  The elements of a
  slice are decoded into zero values.
\<close>

type_synonym 'a field = "string \<times> (json \<Rightarrow> 'a \<Rightarrow> 'a option)"

definition int_field :: "((int \<Rightarrow> int) \<Rightarrow> 'a \<Rightarrow> 'a) \<Rightarrow> json \<Rightarrow> 'a \<Rightarrow> 'a option" where
  "int_field upd v x =
     (case v of JNull \<Rightarrow> Some x | JNum n \<Rightarrow> map_option (\<lambda>i. upd (\<lambda>_. i) x) (ParseInt n) | _ \<Rightarrow> None)"

definition string_field :: "((string \<Rightarrow> string) \<Rightarrow> 'a \<Rightarrow> 'a) \<Rightarrow> json \<Rightarrow> 'a \<Rightarrow> 'a option" where
  "string_field upd v x = (case v of JNull \<Rightarrow> Some x | JStr s \<Rightarrow> Some (upd (\<lambda>_. s) x) | _ \<Rightarrow> None)"

definition bool_field :: "((bool \<Rightarrow> bool) \<Rightarrow> 'a \<Rightarrow> 'a) \<Rightarrow> json \<Rightarrow> 'a \<Rightarrow> 'a option" where
  "bool_field upd v x = (case v of JNull \<Rightarrow> Some x | JBool b \<Rightarrow> Some (upd (\<lambda>_. b) x) | _ \<Rightarrow> None)"

text \<open>A \<^verbatim>\<open>[]byte\<close> is read from base64 or from an array of numbers.\<close>

fun decode_byte :: "json \<Rightarrow> char option" where
  "decode_byte JNull = Some (char_of (0 :: nat))"
| "decode_byte (JNum n) =
     (case ParseInt n of
        Some i \<Rightarrow> if 0 \<le> i \<and> i < 256 then Some (char_of (nat i)) else None
      | None \<Rightarrow> None)"
| "decode_byte _ = None"

definition decode_bytes :: "json \<Rightarrow> string option" where
  "decode_bytes v =
     (case v of
        JNull \<Rightarrow> Some []
      | JStr s \<Rightarrow> b64_decode s
      | JArr xs \<Rightarrow> those (map decode_byte xs)
      | _ \<Rightarrow> None)"

definition bytes_field :: "((string \<Rightarrow> string) \<Rightarrow> 'a \<Rightarrow> 'a) \<Rightarrow> json \<Rightarrow> 'a \<Rightarrow> 'a option" where
  "bytes_field upd v x = map_option (\<lambda>b. upd (\<lambda>_. b) x) (decode_bytes v)"

definition list_field :: "(json \<Rightarrow> 'e option) \<Rightarrow> (('e list \<Rightarrow> 'e list) \<Rightarrow> 'a \<Rightarrow> 'a) \<Rightarrow> json \<Rightarrow> 'a \<Rightarrow> 'a option" where
  "list_field elem upd v x =
     (case v of
        JNull \<Rightarrow> Some (upd (\<lambda>_. []) x)
      | JArr vs \<Rightarrow> map_option (\<lambda>es. upd (\<lambda>_. es) x) (those (map elem vs))
      | _ \<Rightarrow> None)"

fun decode_members :: "'a field list \<Rightarrow> (string \<times> json) list \<Rightarrow> 'a \<Rightarrow> 'a option" where
  "decode_members fs [] x = Some x"
| "decode_members fs ((k, v) # ps) x =
     (case fieldFor (map fst fs) k of
        None \<Rightarrow> decode_members fs ps x
      | Some name \<Rightarrow>
          (case map_of fs name of
             None \<Rightarrow> None
           | Some f \<Rightarrow> (case f v x of None \<Rightarrow> None | Some y \<Rightarrow> decode_members fs ps y)))"

definition decode_struct :: "'a field list \<Rightarrow> json \<Rightarrow> 'a \<Rightarrow> 'a option" where
  "decode_struct fs v x =
     (case v of JNull \<Rightarrow> Some x | JObj ps \<Rightarrow> decode_members fs ps x | _ \<Rightarrow> None)"

definition struct_field ::
    "(json \<Rightarrow> 'b \<Rightarrow> 'b option) \<Rightarrow> ('a \<Rightarrow> 'b) \<Rightarrow> (('b \<Rightarrow> 'b) \<Rightarrow> 'a \<Rightarrow> 'a) \<Rightarrow> json \<Rightarrow> 'a \<Rightarrow> 'a option" where
  "struct_field nested get upd v x = map_option (\<lambda>y. upd (\<lambda>_. y) x) (nested v (get x))"

subsection \<open>Members as they are written\<close>

text \<open>A nil slice is written as \<^verbatim>\<open>null\<close>; every empty slice the program writes is nil.\<close>

definition json_bytes :: "string \<Rightarrow> json" where
  "json_bytes b = (if b = [] then JNull else JStr (b64_encode b))"

definition json_int :: "int \<Rightarrow> json" where
  "json_int i = JNum (AppendInt i)"

lemma json_int_simps [simp]:
  "clean (json_int i) = json_int i" "nums_ok (json_int i)" "depth (json_int i) = 0"
  by (simp_all add: json_int_def num_literal_AppendInt)

lemma json_bytes_simps [simp]:
  "clean (json_bytes b) = json_bytes b" "nums_ok (json_bytes b)" "depth (json_bytes b) = 0"
  "decode_bytes (json_bytes b) = Some b"
  using b64_encode_ascii [of b]
  by (simp_all add: json_bytes_def decode_bytes_def sanitize_ascii b64_decode_encode)

lemma int_field_json [simp]: "int64 i \<Longrightarrow> int_field upd (json_int i) x = Some (upd (\<lambda>_. i) x)"
  by (simp add: int_field_def json_int_def ParseInt_AppendInt)

lemma field_simps_json [simp]:
  "string_field supd (JStr s) x = Some (supd (\<lambda>_. s) x)"
  "bool_field bupd (JBool b) x = Some (bupd (\<lambda>_. b) x)"
  "bytes_field supd (json_bytes d) x = Some (supd (\<lambda>_. d) x)"
  by (simp_all add: string_field_def bool_field_def bytes_field_def)

lemma decode_struct_simps [simp]:
  "decode_struct fs JNull x = Some x" "decode_struct fs (JObj ps) x = decode_members fs ps x"
  by (simp_all add: decode_struct_def)

lemma those_map_Some: "(\<And>x. x \<in> set xs \<Longrightarrow> f x = Some (g x)) \<Longrightarrow> those (map f xs) = Some (map g xs)"
  by (induction xs) simp_all

text \<open>\<^verbatim>\<open>json.Encoder\<close> writes a value and a line break.\<close>

definition Encode :: "json \<Rightarrow> string" where
  "Encode v = Marshal v @ [CHR 0x0A]"

lemma decode_first_Encode:
  assumes "nums_ok v" and "depth v \<le> max_depth"
  shows "decode_first (Encode v) = Some (clean v)"
proof (rule decode_first_parse)
  have "tokenize (Encode v) = Some (toks (clean v))"
    unfolding Encode_def Marshal_def using assms(1)
    by (subst tokenize_print)
      (simp_all add: lex_punctuation punctuation_def ends_number_def is_digit_def tokenize.simps is_space_def)
  with run_toks [of "[]" "clean v" "[]"] assms(2) show "parse (Encode v) = Some (clean v)" by (simp add: parse_def)
qed

end
