(* ===== verification/Raft_Json.thy ===== *)
theory Raft_Json
  imports Raft_Types Json_Structs
begin

text \<open>
  The JSON of the structs of \<^verbatim>\<open>src/raft/types.go\<close> and \<^verbatim>\<open>src/raft/status.go\<close>, as \<^verbatim>\<open>encoding/json\<close> derives it from
  their fields: the state a node stores and the bodies of the HTTP transport.  Decoding what was encoded
  gives the struct back, except that invalid UTF-8 in a node identifier is replaced.
\<close>

lemmas struct_simps = fieldFor_def sanitize_ascii max_depth_def

subsection \<open>Log entries and snapshots\<close>

definition json_LogEntry :: "LogEntry \<Rightarrow> json" where
  "json_LogEntry e = JObj [(''Term'', json_int (le_Term e)), (''Command'', json_bytes (le_Command e))]"

definition LogEntry_fields :: "LogEntry field list" where
  "LogEntry_fields = [(''Term'', int_field le_Term_update), (''Command'', bytes_field le_Command_update)]"

definition decode_LogEntry :: "json \<Rightarrow> LogEntry option" where
  "decode_LogEntry v = decode_struct LogEntry_fields v \<lparr>le_Term = 0, le_Command = []\<rparr>"

definition json_Log :: "LogEntry list \<Rightarrow> json" where
  "json_Log es = (if es = [] then JNull else JArr (map json_LogEntry es))"

definition json_Snapshot :: "Snapshot \<Rightarrow> json" where
  "json_Snapshot s = JObj [(''LastIncludedIndex'', json_int (snap_LastIncludedIndex s)),
     (''LastIncludedTerm'', json_int (snap_LastIncludedTerm s)), (''Data'', json_bytes (snap_Data s))]"

definition Snapshot_fields :: "Snapshot field list" where
  "Snapshot_fields = [(''LastIncludedIndex'', int_field snap_LastIncludedIndex_update),
     (''LastIncludedTerm'', int_field snap_LastIncludedTerm_update), (''Data'', bytes_field snap_Data_update)]"

definition entries_ok :: "LogEntry list \<Rightarrow> bool" where
  "entries_ok es \<longleftrightarrow> (\<forall>e \<in> set es. int64 (le_Term e))"

definition snapshot_ok :: "Snapshot \<Rightarrow> bool" where
  "snapshot_ok s \<longleftrightarrow> int64 (snap_LastIncludedIndex s) \<and> int64 (snap_LastIncludedTerm s)"

lemma json_LogEntry_simps [simp]:
  "clean (json_LogEntry e) = json_LogEntry e" "nums_ok (json_LogEntry e)" "depth (json_LogEntry e) = 1"
  by (simp_all add: json_LogEntry_def sanitize_ascii)

lemma decode_LogEntry_json: "int64 (le_Term e) \<Longrightarrow> decode_LogEntry (json_LogEntry e) = Some e"
  by (simp add: decode_LogEntry_def json_LogEntry_def LogEntry_fields_def struct_simps)

lemma depth_entries: "foldr max (map depth (map json_LogEntry es)) 0 \<le> 1"
  by (induction es) simp_all

lemma json_Log_simps [simp]:
  "clean (json_Log es) = json_Log es" "nums_ok (json_Log es)" "depth (json_Log es) \<le> 2"
  using depth_entries [of es] by (simp_all add: json_Log_def list_all_iff comp_def)

lemma list_field_Log [simp]:
  assumes "entries_ok es"
  shows "list_field decode_LogEntry upd (json_Log es) x = Some (upd (\<lambda>_. es) x)"
proof -
  have "those (map decode_LogEntry (map json_LogEntry es)) = Some es"
    using assms those_map_Some [of es "\<lambda>e. decode_LogEntry (json_LogEntry e)" "\<lambda>e. e"]
    by (simp add: entries_ok_def decode_LogEntry_json comp_def)
  then show ?thesis by (simp add: list_field_def json_Log_def)
qed

lemma json_Snapshot_simps [simp]:
  "clean (json_Snapshot s) = json_Snapshot s" "nums_ok (json_Snapshot s)" "depth (json_Snapshot s) = 1"
  by (simp_all add: json_Snapshot_def sanitize_ascii)

lemma decode_Snapshot_json: "snapshot_ok s \<Longrightarrow> decode_struct Snapshot_fields (json_Snapshot s) z = Some s"
  by (simp add: json_Snapshot_def Snapshot_fields_def struct_simps snapshot_ok_def)

subsection \<open>The stored state\<close>

definition json_PersistentState :: "PersistentState \<Rightarrow> json" where
  "json_PersistentState st = JObj [(''CurrentTerm'', json_int (ps_CurrentTerm st)), (''VotedFor'', JStr (ps_VotedFor st)),
     (''Log'', json_Log (ps_Log st)), (''CommitIndex'', json_int (ps_CommitIndex st)),
     (''Snapshot'', json_Snapshot (ps_Snapshot st))]"

definition PersistentState_fields :: "PersistentState field list" where
  "PersistentState_fields = [(''CurrentTerm'', int_field ps_CurrentTerm_update),
     (''VotedFor'', string_field ps_VotedFor_update), (''Log'', list_field decode_LogEntry ps_Log_update),
     (''CommitIndex'', int_field ps_CommitIndex_update),
     (''Snapshot'', struct_field (decode_struct Snapshot_fields) ps_Snapshot ps_Snapshot_update)]"

definition MarshalState :: "PersistentState \<Rightarrow> bytes" where
  "MarshalState st = MarshalIndent (json_PersistentState st)"

definition UnmarshalState :: "bytes \<Rightarrow> PersistentState option" where
  "UnmarshalState data =
     (case parse data of None \<Rightarrow> None | Some v \<Rightarrow> decode_struct PersistentState_fields v zero_PersistentState)"

text \<open>A state a node can hold: its integers have 64 bits and its vote is for a node whose name is text.\<close>

definition state_ok :: "PersistentState \<Rightarrow> bool" where
  "state_ok st \<longleftrightarrow> int64 (ps_CurrentTerm st) \<and> int64 (ps_CommitIndex st) \<and> entries_ok (ps_Log st) \<and>
     snapshot_ok (ps_Snapshot st) \<and> valid_utf8 (ps_VotedFor st)"

lemma json_PersistentState_ok:
  "nums_ok (json_PersistentState st) \<and> depth (json_PersistentState st) \<le> max_depth"
  by (simp add: json_PersistentState_def max_depth_def order_trans [OF json_Log_simps(3)])

lemma UnmarshalState_MarshalState:
  assumes "state_ok st"
  shows "UnmarshalState (MarshalState st) = Some st"
proof -
  have "parse (MarshalState st) = Some (clean (json_PersistentState st))"
    unfolding MarshalState_def using json_PersistentState_ok by (intro parse_MarshalIndent) blast+
  moreover have "clean (json_PersistentState st) = json_PersistentState st"
    using assms by (simp add: json_PersistentState_def sanitize_ascii sanitize_valid state_ok_def)
  moreover have "decode_struct PersistentState_fields (json_PersistentState st) zero_PersistentState = Some st"
    using assms
    by (simp add: json_PersistentState_def PersistentState_fields_def struct_simps state_ok_def struct_field_def
        decode_Snapshot_json)
  ultimately show ?thesis by (simp add: UnmarshalState_def)
qed

subsection \<open>The messages\<close>

definition json_RequestVoteArgs :: "RequestVoteArgs \<Rightarrow> json" where
  "json_RequestVoteArgs a = JObj [(''Term'', json_int (rva_Term a)), (''CandidateID'', JStr (rva_CandidateID a)),
     (''LastLogIndex'', json_int (rva_LastLogIndex a)), (''LastLogTerm'', json_int (rva_LastLogTerm a))]"

definition decode_RequestVoteArgs :: "json \<Rightarrow> RequestVoteArgs option" where
  "decode_RequestVoteArgs v = decode_struct
     [(''Term'', int_field rva_Term_update), (''CandidateID'', string_field rva_CandidateID_update),
      (''LastLogIndex'', int_field rva_LastLogIndex_update), (''LastLogTerm'', int_field rva_LastLogTerm_update)]
     v \<lparr>rva_Term = 0, rva_CandidateID = [], rva_LastLogIndex = 0, rva_LastLogTerm = 0\<rparr>"

definition json_RequestVoteReply :: "RequestVoteReply \<Rightarrow> json" where
  "json_RequestVoteReply a = JObj [(''Term'', json_int (rvr_Term a)), (''VoteGranted'', JBool (rvr_VoteGranted a))]"

definition decode_RequestVoteReply :: "json \<Rightarrow> RequestVoteReply option" where
  "decode_RequestVoteReply v = decode_struct
     [(''Term'', int_field rvr_Term_update), (''VoteGranted'', bool_field rvr_VoteGranted_update)]
     v \<lparr>rvr_Term = 0, rvr_VoteGranted = False\<rparr>"

definition json_AppendEntriesArgs :: "AppendEntriesArgs \<Rightarrow> json" where
  "json_AppendEntriesArgs a = JObj [(''Term'', json_int (aea_Term a)), (''LeaderID'', JStr (aea_LeaderID a)),
     (''PrevLogIndex'', json_int (aea_PrevLogIndex a)), (''PrevLogTerm'', json_int (aea_PrevLogTerm a)),
     (''Entries'', json_Log (aea_Entries a)), (''LeaderCommit'', json_int (aea_LeaderCommit a))]"

definition decode_AppendEntriesArgs :: "json \<Rightarrow> AppendEntriesArgs option" where
  "decode_AppendEntriesArgs v = decode_struct
     [(''Term'', int_field aea_Term_update), (''LeaderID'', string_field aea_LeaderID_update),
      (''PrevLogIndex'', int_field aea_PrevLogIndex_update), (''PrevLogTerm'', int_field aea_PrevLogTerm_update),
      (''Entries'', list_field decode_LogEntry aea_Entries_update), (''LeaderCommit'', int_field aea_LeaderCommit_update)]
     v \<lparr>aea_Term = 0, aea_LeaderID = [], aea_PrevLogIndex = 0, aea_PrevLogTerm = 0, aea_Entries = [],
        aea_LeaderCommit = 0\<rparr>"

definition json_AppendEntriesReply :: "AppendEntriesReply \<Rightarrow> json" where
  "json_AppendEntriesReply a = JObj [(''Term'', json_int (aer_Term a)), (''Success'', JBool (aer_Success a)),
     (''ConflictIndex'', json_int (aer_ConflictIndex a)), (''ConflictTerm'', json_int (aer_ConflictTerm a))]"

definition decode_AppendEntriesReply :: "json \<Rightarrow> AppendEntriesReply option" where
  "decode_AppendEntriesReply v = decode_struct
     [(''Term'', int_field aer_Term_update), (''Success'', bool_field aer_Success_update),
      (''ConflictIndex'', int_field aer_ConflictIndex_update), (''ConflictTerm'', int_field aer_ConflictTerm_update)]
     v \<lparr>aer_Term = 0, aer_Success = False, aer_ConflictIndex = 0, aer_ConflictTerm = 0\<rparr>"

definition json_InstallSnapshotArgs :: "InstallSnapshotArgs \<Rightarrow> json" where
  "json_InstallSnapshotArgs a = JObj [(''Term'', json_int (isa_Term a)), (''LeaderID'', JStr (isa_LeaderID a)),
     (''LastIncludedIndex'', json_int (isa_LastIncludedIndex a)), (''LastIncludedTerm'', json_int (isa_LastIncludedTerm a)),
     (''Data'', json_bytes (isa_Data a))]"

definition decode_InstallSnapshotArgs :: "json \<Rightarrow> InstallSnapshotArgs option" where
  "decode_InstallSnapshotArgs v = decode_struct
     [(''Term'', int_field isa_Term_update), (''LeaderID'', string_field isa_LeaderID_update),
      (''LastIncludedIndex'', int_field isa_LastIncludedIndex_update),
      (''LastIncludedTerm'', int_field isa_LastIncludedTerm_update), (''Data'', bytes_field isa_Data_update)]
     v \<lparr>isa_Term = 0, isa_LeaderID = [], isa_LastIncludedIndex = 0, isa_LastIncludedTerm = 0, isa_Data = []\<rparr>"

definition json_InstallSnapshotReply :: "InstallSnapshotReply \<Rightarrow> json" where
  "json_InstallSnapshotReply a = JObj [(''Term'', json_int (isr_Term a))]"

definition decode_InstallSnapshotReply :: "json \<Rightarrow> InstallSnapshotReply option" where
  "decode_InstallSnapshotReply v = decode_struct [(''Term'', int_field isr_Term_update)] v \<lparr>isr_Term = 0\<rparr>"

definition json_Status :: "Status \<Rightarrow> json" where
  "json_Status s = JObj [(''id'', JStr (st_ID s)), (''term'', json_int (st_Term s)), (''state'', JStr (st_State s)),
     (''leader_id'', JStr (st_LeaderID s)), (''commit_index'', json_int (st_CommitIndex s)),
     (''last_applied'', json_int (st_LastApplied s)), (''last_log_index'', json_int (st_LastLogIndex s))]"

text \<open>Messages whose integers have 64 bits and whose identifiers are text.\<close>

definition vote_args_ok :: "RequestVoteArgs \<Rightarrow> bool" where
  "vote_args_ok a \<longleftrightarrow> int64 (rva_Term a) \<and> int64 (rva_LastLogIndex a) \<and> int64 (rva_LastLogTerm a) \<and>
     valid_utf8 (rva_CandidateID a)"

definition append_args_ok :: "AppendEntriesArgs \<Rightarrow> bool" where
  "append_args_ok a \<longleftrightarrow> int64 (aea_Term a) \<and> int64 (aea_PrevLogIndex a) \<and> int64 (aea_PrevLogTerm a) \<and>
     int64 (aea_LeaderCommit a) \<and> entries_ok (aea_Entries a) \<and> valid_utf8 (aea_LeaderID a)"

definition snapshot_args_ok :: "InstallSnapshotArgs \<Rightarrow> bool" where
  "snapshot_args_ok a \<longleftrightarrow> int64 (isa_Term a) \<and> int64 (isa_LastIncludedIndex a) \<and> int64 (isa_LastIncludedTerm a) \<and>
     valid_utf8 (isa_LeaderID a)"

definition append_reply_ok :: "AppendEntriesReply \<Rightarrow> bool" where
  "append_reply_ok a \<longleftrightarrow> int64 (aer_Term a) \<and> int64 (aer_ConflictIndex a) \<and> int64 (aer_ConflictTerm a)"

lemma message_json_ok:
  "nums_ok (json_RequestVoteArgs a1) \<and> depth (json_RequestVoteArgs a1) \<le> max_depth"
  "nums_ok (json_RequestVoteReply a2) \<and> depth (json_RequestVoteReply a2) \<le> max_depth"
  "nums_ok (json_AppendEntriesArgs a3) \<and> depth (json_AppendEntriesArgs a3) \<le> max_depth"
  "nums_ok (json_AppendEntriesReply a4) \<and> depth (json_AppendEntriesReply a4) \<le> max_depth"
  "nums_ok (json_InstallSnapshotArgs a5) \<and> depth (json_InstallSnapshotArgs a5) \<le> max_depth"
  "nums_ok (json_InstallSnapshotReply a6) \<and> depth (json_InstallSnapshotReply a6) \<le> max_depth"
  by (simp_all add: json_RequestVoteArgs_def json_RequestVoteReply_def json_AppendEntriesArgs_def
      json_AppendEntriesReply_def json_InstallSnapshotArgs_def json_InstallSnapshotReply_def max_depth_def
      order_trans [OF json_Log_simps(3)])

lemma decode_json_RequestVoteArgs:
  "vote_args_ok a \<Longrightarrow> decode_RequestVoteArgs (clean (json_RequestVoteArgs a)) = Some a"
  by (simp add: decode_RequestVoteArgs_def json_RequestVoteArgs_def struct_simps vote_args_ok_def sanitize_valid)

lemma decode_json_RequestVoteReply:
  "int64 (rvr_Term a) \<Longrightarrow> decode_RequestVoteReply (clean (json_RequestVoteReply a)) = Some a"
  by (simp add: decode_RequestVoteReply_def json_RequestVoteReply_def struct_simps)

lemma decode_json_AppendEntriesArgs:
  "append_args_ok a \<Longrightarrow> decode_AppendEntriesArgs (clean (json_AppendEntriesArgs a)) = Some a"
  by (simp add: decode_AppendEntriesArgs_def json_AppendEntriesArgs_def struct_simps append_args_ok_def sanitize_valid)

lemma decode_json_AppendEntriesReply:
  "append_reply_ok a \<Longrightarrow> decode_AppendEntriesReply (clean (json_AppendEntriesReply a)) = Some a"
  by (simp add: decode_AppendEntriesReply_def json_AppendEntriesReply_def struct_simps append_reply_ok_def)

lemma decode_json_InstallSnapshotArgs:
  "snapshot_args_ok a \<Longrightarrow> decode_InstallSnapshotArgs (clean (json_InstallSnapshotArgs a)) = Some a"
  by (simp add: decode_InstallSnapshotArgs_def json_InstallSnapshotArgs_def struct_simps snapshot_args_ok_def sanitize_valid)

lemma decode_json_InstallSnapshotReply:
  "int64 (isr_Term a) \<Longrightarrow> decode_InstallSnapshotReply (clean (json_InstallSnapshotReply a)) = Some a"
  by (simp add: decode_InstallSnapshotReply_def json_InstallSnapshotReply_def struct_simps)

end
