(* ===== verification/Raft_Storage.thy ===== *)
theory Raft_Storage
  imports Raft_Json
begin

text \<open>
  \<^verbatim>\<open>src/raft/storage.go\<close>: the \<^verbatim>\<open>Storage\<close> interface, its in-memory implementation and the
  file-backed one.  The interface is the record \<open>'s StorageOps\<close> of the two methods over a store
  of type \<open>'s\<close>; what the Raft node relies on (a successful save is what a later load returns) is
  the locale \<open>stable_storage\<close>, interpreted below on both implementations.
\<close>

subsection \<open>The interface\<close>

record 's StorageOps =
  Load :: "'s \<Rightarrow> raft_error + PersistentState"
  Save :: "'s \<Rightarrow> PersistentState \<Rightarrow> raft_error option \<times> 's"

text \<open>A sequence of saves, successful or not.\<close>

fun saves :: "'s StorageOps \<Rightarrow> 's \<Rightarrow> PersistentState list \<Rightarrow> 's" where
  "saves ops s [] = s"
| "saves ops s (st # sts) = saves ops (snd (Save ops s st)) sts"

text \<open>
  The contract: a save that reports success is read back by the next load, for the states \<open>good\<close> that
  the storage can represent, and a save that reports an error leaves the stored state as it was.
\<close>

locale stable_storage =
  fixes ops :: "'s StorageOps" and good :: "PersistentState \<Rightarrow> bool"
  assumes load_saved: "Save ops s st = (None, s') \<Longrightarrow> good st \<Longrightarrow> Load ops s' = Inr st"
    and save_failed: "Save ops s st = (Some e, s') \<Longrightarrow> Load ops s' = Load ops s"
begin

lemma load_after_save:
  assumes "good st"
  shows "Load ops (snd (Save ops s st)) = (if fst (Save ops s st) = None then Inr st else Load ops s)"
proof (cases "Save ops s st")
  case (Pair e s')
  then show ?thesis
    using assms load_saved [of s st s'] save_failed [of s st] by (cases e) auto
qed

lemma load_after_saves:
  assumes "\<forall>st \<in> set sts. good st"
  shows "Load ops (saves ops s sts) \<in> insert (Load ops s) (Inr ` set sts)"
  using assms
proof (induction sts arbitrary: s)
  case (Cons st sts)
  then have "Load ops (saves ops (snd (Save ops s st)) sts)
      \<in> insert (Load ops (snd (Save ops s st))) (Inr ` set sts)"
    by simp
  with Cons.prems load_after_save [of st s] show ?case
    by (auto split: if_splits)
qed simp

end

subsection \<open>MemoryStorage\<close>

record MemoryStorage =
  ms_state :: PersistentState

definition NewMemoryStorage :: MemoryStorage where
  "NewMemoryStorage = \<lparr>ms_state = zero_PersistentState\<lparr>ps_Log := [sentinel 0]\<rparr>\<rparr>"

definition MemoryStorage_Load :: "MemoryStorage \<Rightarrow> raft_error + PersistentState" where
  "MemoryStorage_Load m = Inr (ms_state m)"

definition MemoryStorage_Save :: "MemoryStorage \<Rightarrow> PersistentState \<Rightarrow> raft_error option \<times> MemoryStorage" where
  "MemoryStorage_Save m st = (None, m\<lparr>ms_state := st\<rparr>)"

definition memory_ops :: "MemoryStorage StorageOps" where
  "memory_ops = \<lparr>Load = MemoryStorage_Load, Save = MemoryStorage_Save\<rparr>"

interpretation mem: stable_storage memory_ops "\<lambda>st. True"
  by unfold_locales (auto simp: memory_ops_def MemoryStorage_Load_def MemoryStorage_Save_def)

lemma memory_ops_simps [simp]:
  "Load memory_ops m = Inr (ms_state m)"
  "Save memory_ops m st = (None, m\<lparr>ms_state := st\<rparr>)"
  by (simp_all add: memory_ops_def MemoryStorage_Load_def MemoryStorage_Save_def)

subsection \<open>FileStorage\<close>

text \<open>
  A file store is its path and the files of the disk.  Every system call may fail; the failures of
  the coming saves are the list \<open>fs_faults\<close>, one element per save, and a file that cannot be read is
  \<open>Unreadable\<close>.  A failing \<^verbatim>\<open>os.WriteFile\<close> may leave part of the data in the temporary file.
  \<^verbatim>\<open>json.MarshalIndent\<close> does not fail on a state; a file that \<^verbatim>\<open>json.Unmarshal\<close> rejects is the error
  \<open>ErrDecode\<close>.
\<close>

datatype SaveFault =
    NoFault
  | MkdirAllFails string
  | WriteFileFails string bytes
  | RenameFails string

datatype FileState = NotExist | Unreadable string | Content bytes

record FileStorage =
  fs_path :: string
  fs_files :: "string \<Rightarrow> FileState"
  fs_faults :: "SaveFault list"

definition NewFileStorage :: "string \<Rightarrow> (string \<Rightarrow> FileState) \<Rightarrow> SaveFault list \<Rightarrow> FileStorage" where
  "NewFileStorage path disk faults =
     \<lparr>fs_path = path, fs_files = disk, fs_faults = faults\<rparr>"

definition FileStorage_Load :: "FileStorage \<Rightarrow> raft_error + PersistentState" where
  "FileStorage_Load f =
     (case fs_files f (fs_path f) of
        NotExist \<Rightarrow> Inr (zero_PersistentState\<lparr>ps_Log := [sentinel 0]\<rparr>)
      | Unreadable e \<Rightarrow> Inl (ErrStorage e)
      | Content data \<Rightarrow>
          (case UnmarshalState data of
             None \<Rightarrow> Inl ErrDecode
           | Some st \<Rightarrow> Inr (if ps_Log st = [] then st\<lparr>ps_Log := [sentinel 0]\<rparr> else st)))"

definition tmp_path :: "string \<Rightarrow> string" where
  "tmp_path path = path @ ''.tmp''"

definition FileStorage_Save :: "FileStorage \<Rightarrow> PersistentState \<Rightarrow> raft_error option \<times> FileStorage" where
  "FileStorage_Save f st =
     (let fault = (case fs_faults f of [] \<Rightarrow> NoFault | x # _ \<Rightarrow> x);
          f = f\<lparr>fs_faults := tl (fs_faults f)\<rparr>
      in case fault of
           MkdirAllFails e \<Rightarrow> (Some (ErrStorage e), f)
         | _ \<Rightarrow>
           let data = MarshalState st;
               tmp = tmp_path (fs_path f)
           in (case fault of
                 WriteFileFails e part \<Rightarrow>
                   (Some (ErrStorage e), f\<lparr>fs_files := (fs_files f)(tmp := Content part)\<rparr>)
               | RenameFails e \<Rightarrow>
                   (Some (ErrStorage e), f\<lparr>fs_files := (fs_files f)(tmp := Content data)\<rparr>)
               | _ \<Rightarrow>
                   (None, f\<lparr>fs_files := (fs_files f)(tmp := NotExist, fs_path f := Content data)\<rparr>)))"

definition file_ops :: "FileStorage StorageOps" where
  "file_ops = \<lparr>Load = FileStorage_Load, Save = FileStorage_Save\<rparr>"

lemma tmp_path_neq [simp]: "tmp_path p \<noteq> p" "p \<noteq> tmp_path p"
  by (auto simp: tmp_path_def)

lemma FileStorage_Save_path:
  assumes "FileStorage_Save f st = (e, f')"
  shows "fs_path f' = fs_path f"
  using assms
  by (auto simp: FileStorage_Save_def Let_def split: SaveFault.splits list.splits)

lemma FileStorage_Save_failed:
  assumes "FileStorage_Save f st = (Some e, f')"
  shows "fs_files f' (fs_path f) = fs_files f (fs_path f)"
  using assms
  by (auto simp: FileStorage_Save_def Let_def split: SaveFault.splits list.splits)

lemma FileStorage_Save_ok:
  assumes "FileStorage_Save f st = (None, f')"
  shows "fs_files f' (fs_path f) = Content (MarshalState st)"
  using assms
  by (auto simp: FileStorage_Save_def Let_def split: SaveFault.splits list.splits)

text \<open>
  The file store meets the interface's contract for every state a node can hold: what is written is
  read back, and the write to a temporary file and the rename make a save all or nothing.
\<close>

definition file_good :: "PersistentState \<Rightarrow> bool" where
  "file_good st \<longleftrightarrow> state_ok st \<and> ps_Log st \<noteq> []"

interpretation files: stable_storage file_ops file_good
proof unfold_locales
  fix f f' :: FileStorage and st
  assume "Save file_ops f st = (None, f')" and good: "file_good st"
  then have save: "FileStorage_Save f st = (None, f')" by (simp add: file_ops_def)
  with FileStorage_Save_ok [OF save] FileStorage_Save_path [OF save] good UnmarshalState_MarshalState
  show "Load file_ops f' = Inr st" by (simp add: file_ops_def FileStorage_Load_def file_good_def)
next
  fix f f' :: FileStorage and st e
  assume "Save file_ops f st = (Some e, f')"
  then have save: "FileStorage_Save f st = (Some e, f')" by (simp add: file_ops_def)
  show "Load file_ops f' = Load file_ops f"
    using FileStorage_Save_failed [OF save] FileStorage_Save_path [OF save]
    by (simp add: file_ops_def FileStorage_Load_def)
qed

end
