(* ===== verification/Raft_State.thy ===== *)
theory Raft_State
  imports Raft_Storage
begin

text \<open>
  The state of one Raft node (the struct \<^verbatim>\<open>Raft\<close> of \<^verbatim>\<open>src/raft/raft.go\<close>) and the helper
  methods that run under its mutex: quorum size, log indexing, the up-to-date test, role changes and
  persistence.

  A handler of the code is a sequence of critical sections.  Each section is one function from state
  to state here; a channel send is an append to the channel's queue.  The apply channel
  \<open>applyCh\<close> is the list of messages sent and not yet received, \<open>resetElectionCh\<close> (capacity one) is
  whether its buffer is full, \<open>stopCh\<close> is whether it is closed.  A notification channel is a number;
  \<open>closedChs\<close> lists the closed ones and \<open>chanCount\<close> is the next fresh number.  The mutex, the random
  source and the log output have no state here; \<open>hasTransport\<close> says whether \<^verbatim>\<open>transport\<close> is not
  nil, and what is sent on it is a result of the sending functions.
\<close>

record 's Raft =
  raft_id :: node_id
  peers :: "(node_id, string) gomap"
  hasTransport :: bool
  storage :: 's
  state :: State
  currentTerm :: int
  votedFor :: node_id
  raft_log :: "LogEntry list"
  commitIndex :: int
  lastApplied :: int
  logOffset :: int
  snapshot :: Snapshot
  nextIndex :: "(node_id, int) gomap"
  matchIndex :: "(node_id, int) gomap"
  applyCh :: "ApplyMsg list"
  notifyCh :: "(int, nat) gomap"
  chanCount :: nat
  closedChs :: "nat list"
  electionTimeout :: int
  heartbeatInterval :: int
  resetElectionCh :: bool
  stopCh :: bool
  leaderID :: node_id
  debug :: bool
  verbose :: bool

subsection \<open>Log arithmetic\<close>

definition quorumSize :: "'s Raft \<Rightarrow> int" where
  "quorumSize r = (int (length (peers r)) + 1) div 2 + 1"

definition lastLogIndex :: "'s Raft \<Rightarrow> int" where
  "lastLogIndex r = logOffset r + int (length (raft_log r)) - 1"

definition lastLogTerm :: "'s Raft \<Rightarrow> int" where
  "lastLogTerm r = (if raft_log r = [] then 0 else le_Term (raft_log r ! (length (raft_log r) - 1)))"

definition logIndexToSlice :: "'s Raft \<Rightarrow> int \<Rightarrow> int" where
  "logIndexToSlice r index = index - logOffset r"

definition termAt :: "'s Raft \<Rightarrow> int \<Rightarrow> int" where
  "termAt r index =
     (if index < logOffset r \<or> index > lastLogIndex r then -1
      else le_Term (raft_log r ! nat (logIndexToSlice r index)))"

definition isUpToDate :: "'s Raft \<Rightarrow> int \<Rightarrow> int \<Rightarrow> bool" where
  "isUpToDate r lastIndex lastTerm =
     (let myTerm = lastLogTerm r
      in if lastTerm \<noteq> myTerm then lastTerm > myTerm else lastIndex \<ge> lastLogIndex r)"

function lastIndexOfTerm_loop :: "'s Raft \<Rightarrow> int \<Rightarrow> int \<Rightarrow> int" where
  "lastIndexOfTerm_loop r trm i =
     (if i \<ge> logOffset r
      then (if termAt r i = trm then i else lastIndexOfTerm_loop r trm (i - 1))
      else -1)"
  by pat_completeness auto
termination
  by (relation "measure (\<lambda>(r, trm, i). nat (i - logOffset r + 1))") auto

declare lastIndexOfTerm_loop.simps [simp del]

definition lastIndexOfTerm :: "'s Raft \<Rightarrow> int \<Rightarrow> int" where
  "lastIndexOfTerm r trm = lastIndexOfTerm_loop r trm (lastLogIndex r)"

lemmas log_defs = lastLogIndex_def lastLogTerm_def logIndexToSlice_def termAt_def

subsection \<open>Persistence\<close>

definition persistentState :: "'s Raft \<Rightarrow> PersistentState" where
  "persistentState r = \<lparr>ps_CurrentTerm = currentTerm r, ps_VotedFor = votedFor r,
     ps_Log = raft_log r, ps_CommitIndex = commitIndex r, ps_Snapshot = snapshot r\<rparr>"

definition persistLocked :: "'s StorageOps \<Rightarrow> 's Raft \<Rightarrow> raft_error option \<times> 's Raft" where
  "persistLocked ops r =
     (let (err, s') = Save ops (storage r) (persistentState r) in (err, r\<lparr>storage := s'\<rparr>))"

text \<open>Most callers ignore the error (\<^verbatim>\<open>_ = r.persistLocked()\<close>).\<close>

definition persist :: "'s StorageOps \<Rightarrow> 's Raft \<Rightarrow> 's Raft" where
  "persist ops r = snd (persistLocked ops r)"

subsection \<open>Role changes and the election timer\<close>

definition becomeLeaderLocked :: "'s Raft \<Rightarrow> 's Raft" where
  "becomeLeaderLocked r =
     (let lastIdx = lastLogIndex r
      in r\<lparr>state := Leader, leaderID := raft_id r,
           nextIndex := AList.update (raft_id r) (lastIdx + 1) (map (\<lambda>p. (fst p, lastIdx + 1)) (peers r)),
           matchIndex := AList.update (raft_id r) lastIdx (map (\<lambda>p. (fst p, 0)) (peers r))\<rparr>)"

definition becomeFollowerLocked :: "'s StorageOps \<Rightarrow> int \<Rightarrow> 's Raft \<Rightarrow> 's Raft" where
  "becomeFollowerLocked ops trm r =
     (let r = r\<lparr>state := Follower\<rparr>;
          r = (if trm > currentTerm r then r\<lparr>currentTerm := trm, votedFor := []\<rparr> else r)
      in persist ops r)"

definition resetElectionTimerLocked :: "'s Raft \<Rightarrow> 's Raft" where
  "resetElectionTimerLocked r = r\<lparr>resetElectionCh := True\<rparr>"

subsection \<open>Read-only methods\<close>

definition RaftState :: "'s Raft \<Rightarrow> int \<times> bool" where
  "RaftState r = (currentTerm r, state r = Leader)"

definition LeaderID :: "'s Raft \<Rightarrow> node_id" where
  "LeaderID r = leaderID r"

definition SnapshotState :: "'s Raft \<Rightarrow> Snapshot" where
  "SnapshotState r = snapshot r"

definition LogOffset :: "'s Raft \<Rightarrow> int" where
  "LogOffset r = logOffset r"

definition RaftStatus :: "'s Raft \<Rightarrow> Status" where
  "RaftStatus r = \<lparr>st_ID = raft_id r, st_Term = currentTerm r, st_State = State_String (state r),
     st_LeaderID = leaderID r, st_CommitIndex = commitIndex r, st_LastApplied = lastApplied r,
     st_LastLogIndex = lastLogIndex r\<rparr>"

text \<open>\<^verbatim>\<open>Stop\<close> closes \<^verbatim>\<open>stopCh\<close>; closing it a second time panics.\<close>

definition Stop :: "'s Raft \<Rightarrow> 's Raft option" where
  "Stop r = (if stopCh r then None else Some (r\<lparr>stopCh := True\<rparr>))"

subsection \<open>Frame lemmas\<close>

lemma persist_eq: "persist ops r = r\<lparr>storage := snd (Save ops (storage r) (persistentState r))\<rparr>"
  by (simp add: persist_def persistLocked_def split: prod.split)

lemma persist_simps [simp]:
  "raft_id (persist ops r) = raft_id r" "peers (persist ops r) = peers r"
  "hasTransport (persist ops r) = hasTransport r" "state (persist ops r) = state r"
  "currentTerm (persist ops r) = currentTerm r" "votedFor (persist ops r) = votedFor r"
  "raft_log (persist ops r) = raft_log r" "commitIndex (persist ops r) = commitIndex r"
  "lastApplied (persist ops r) = lastApplied r" "logOffset (persist ops r) = logOffset r"
  "snapshot (persist ops r) = snapshot r" "nextIndex (persist ops r) = nextIndex r"
  "matchIndex (persist ops r) = matchIndex r" "applyCh (persist ops r) = applyCh r"
  "notifyCh (persist ops r) = notifyCh r" "chanCount (persist ops r) = chanCount r"
  "closedChs (persist ops r) = closedChs r" "leaderID (persist ops r) = leaderID r"
  "stopCh (persist ops r) = stopCh r" "resetElectionCh (persist ops r) = resetElectionCh r"
  "electionTimeout (persist ops r) = electionTimeout r"
  "heartbeatInterval (persist ops r) = heartbeatInterval r"
  by (simp_all add: persist_eq)

lemma becomeFollower_simps [simp]:
  "raft_id (becomeFollowerLocked ops t r) = raft_id r"
  "peers (becomeFollowerLocked ops t r) = peers r"
  "hasTransport (becomeFollowerLocked ops t r) = hasTransport r"
  "state (becomeFollowerLocked ops t r) = Follower"
  "currentTerm (becomeFollowerLocked ops t r) = max t (currentTerm r)"
  "votedFor (becomeFollowerLocked ops t r) = (if t > currentTerm r then [] else votedFor r)"
  "raft_log (becomeFollowerLocked ops t r) = raft_log r"
  "commitIndex (becomeFollowerLocked ops t r) = commitIndex r"
  "lastApplied (becomeFollowerLocked ops t r) = lastApplied r"
  "logOffset (becomeFollowerLocked ops t r) = logOffset r"
  "snapshot (becomeFollowerLocked ops t r) = snapshot r"
  "nextIndex (becomeFollowerLocked ops t r) = nextIndex r"
  "matchIndex (becomeFollowerLocked ops t r) = matchIndex r"
  "applyCh (becomeFollowerLocked ops t r) = applyCh r"
  "notifyCh (becomeFollowerLocked ops t r) = notifyCh r"
  "chanCount (becomeFollowerLocked ops t r) = chanCount r"
  "closedChs (becomeFollowerLocked ops t r) = closedChs r"
  "leaderID (becomeFollowerLocked ops t r) = leaderID r"
  by (simp_all add: becomeFollowerLocked_def Let_def)

lemma becomeLeader_simps [simp]:
  "raft_id (becomeLeaderLocked r) = raft_id r" "peers (becomeLeaderLocked r) = peers r"
  "hasTransport (becomeLeaderLocked r) = hasTransport r" "storage (becomeLeaderLocked r) = storage r"
  "state (becomeLeaderLocked r) = Leader" "currentTerm (becomeLeaderLocked r) = currentTerm r"
  "votedFor (becomeLeaderLocked r) = votedFor r" "raft_log (becomeLeaderLocked r) = raft_log r"
  "commitIndex (becomeLeaderLocked r) = commitIndex r"
  "lastApplied (becomeLeaderLocked r) = lastApplied r"
  "logOffset (becomeLeaderLocked r) = logOffset r" "snapshot (becomeLeaderLocked r) = snapshot r"
  "applyCh (becomeLeaderLocked r) = applyCh r" "notifyCh (becomeLeaderLocked r) = notifyCh r"
  "chanCount (becomeLeaderLocked r) = chanCount r" "closedChs (becomeLeaderLocked r) = closedChs r"
  by (simp_all add: becomeLeaderLocked_def Let_def)

lemma resetElectionTimer_simps [simp]:
  "raft_id (resetElectionTimerLocked r) = raft_id r" "peers (resetElectionTimerLocked r) = peers r"
  "hasTransport (resetElectionTimerLocked r) = hasTransport r"
  "storage (resetElectionTimerLocked r) = storage r"
  "state (resetElectionTimerLocked r) = state r"
  "currentTerm (resetElectionTimerLocked r) = currentTerm r"
  "votedFor (resetElectionTimerLocked r) = votedFor r"
  "raft_log (resetElectionTimerLocked r) = raft_log r"
  "commitIndex (resetElectionTimerLocked r) = commitIndex r"
  "lastApplied (resetElectionTimerLocked r) = lastApplied r"
  "logOffset (resetElectionTimerLocked r) = logOffset r"
  "snapshot (resetElectionTimerLocked r) = snapshot r"
  "nextIndex (resetElectionTimerLocked r) = nextIndex r"
  "matchIndex (resetElectionTimerLocked r) = matchIndex r"
  "applyCh (resetElectionTimerLocked r) = applyCh r"
  "notifyCh (resetElectionTimerLocked r) = notifyCh r"
  "chanCount (resetElectionTimerLocked r) = chanCount r"
  "closedChs (resetElectionTimerLocked r) = closedChs r"
  "leaderID (resetElectionTimerLocked r) = leaderID r"
  by (simp_all add: resetElectionTimerLocked_def)

subsection \<open>What the log functions depend on\<close>

lemma log_functions_cong:
  assumes "raft_log r' = raft_log r" and "logOffset r' = logOffset r"
  shows "lastLogIndex r' = lastLogIndex r" and "lastLogTerm r' = lastLogTerm r"
    and "termAt r' i = termAt r i" and "logIndexToSlice r' i = logIndexToSlice r i"
    and "isUpToDate r' i t = isUpToDate r i t"
  using assms by (simp_all add: log_defs isUpToDate_def)

lemma lastLogIndex_upd [simp]:
  "lastLogIndex (r\<lparr>storage := storage'\<rparr>) = lastLogIndex r"
  "lastLogIndex (r\<lparr>state := state'\<rparr>) = lastLogIndex r"
  "lastLogIndex (r\<lparr>currentTerm := currentTerm'\<rparr>) = lastLogIndex r"
  "lastLogIndex (r\<lparr>votedFor := votedFor'\<rparr>) = lastLogIndex r"
  "lastLogIndex (r\<lparr>commitIndex := commitIndex'\<rparr>) = lastLogIndex r"
  "lastLogIndex (r\<lparr>lastApplied := lastApplied'\<rparr>) = lastLogIndex r"
  "lastLogIndex (r\<lparr>snapshot := snapshot'\<rparr>) = lastLogIndex r"
  "lastLogIndex (r\<lparr>nextIndex := nextIndex'\<rparr>) = lastLogIndex r"
  "lastLogIndex (r\<lparr>matchIndex := matchIndex'\<rparr>) = lastLogIndex r"
  "lastLogIndex (r\<lparr>applyCh := applyCh'\<rparr>) = lastLogIndex r"
  "lastLogIndex (r\<lparr>notifyCh := notifyCh'\<rparr>) = lastLogIndex r"
  "lastLogIndex (r\<lparr>chanCount := chanCount'\<rparr>) = lastLogIndex r"
  "lastLogIndex (r\<lparr>closedChs := closedChs'\<rparr>) = lastLogIndex r"
  "lastLogIndex (r\<lparr>leaderID := leaderID'\<rparr>) = lastLogIndex r"
  "lastLogIndex (r\<lparr>resetElectionCh := resetElectionCh'\<rparr>) = lastLogIndex r"
  "lastLogIndex (r\<lparr>stopCh := stopCh'\<rparr>) = lastLogIndex r"
  by (simp_all add: log_defs quorumSize_def)

lemma termAt_upd [simp]:
  "termAt (r\<lparr>storage := storage'\<rparr>) i = termAt r i"
  "termAt (r\<lparr>state := state'\<rparr>) i = termAt r i"
  "termAt (r\<lparr>currentTerm := currentTerm'\<rparr>) i = termAt r i"
  "termAt (r\<lparr>votedFor := votedFor'\<rparr>) i = termAt r i"
  "termAt (r\<lparr>commitIndex := commitIndex'\<rparr>) i = termAt r i"
  "termAt (r\<lparr>lastApplied := lastApplied'\<rparr>) i = termAt r i"
  "termAt (r\<lparr>snapshot := snapshot'\<rparr>) i = termAt r i"
  "termAt (r\<lparr>nextIndex := nextIndex'\<rparr>) i = termAt r i"
  "termAt (r\<lparr>matchIndex := matchIndex'\<rparr>) i = termAt r i"
  "termAt (r\<lparr>applyCh := applyCh'\<rparr>) i = termAt r i"
  "termAt (r\<lparr>notifyCh := notifyCh'\<rparr>) i = termAt r i"
  "termAt (r\<lparr>chanCount := chanCount'\<rparr>) i = termAt r i"
  "termAt (r\<lparr>closedChs := closedChs'\<rparr>) i = termAt r i"
  "termAt (r\<lparr>leaderID := leaderID'\<rparr>) i = termAt r i"
  "termAt (r\<lparr>resetElectionCh := resetElectionCh'\<rparr>) i = termAt r i"
  "termAt (r\<lparr>stopCh := stopCh'\<rparr>) i = termAt r i"
  by (simp_all add: log_defs quorumSize_def)

lemma lastLogTerm_upd [simp]:
  "lastLogTerm (r\<lparr>storage := storage'\<rparr>) = lastLogTerm r"
  "lastLogTerm (r\<lparr>state := state'\<rparr>) = lastLogTerm r"
  "lastLogTerm (r\<lparr>currentTerm := currentTerm'\<rparr>) = lastLogTerm r"
  "lastLogTerm (r\<lparr>votedFor := votedFor'\<rparr>) = lastLogTerm r"
  "lastLogTerm (r\<lparr>commitIndex := commitIndex'\<rparr>) = lastLogTerm r"
  "lastLogTerm (r\<lparr>lastApplied := lastApplied'\<rparr>) = lastLogTerm r"
  "lastLogTerm (r\<lparr>snapshot := snapshot'\<rparr>) = lastLogTerm r"
  "lastLogTerm (r\<lparr>nextIndex := nextIndex'\<rparr>) = lastLogTerm r"
  "lastLogTerm (r\<lparr>matchIndex := matchIndex'\<rparr>) = lastLogTerm r"
  "lastLogTerm (r\<lparr>applyCh := applyCh'\<rparr>) = lastLogTerm r"
  "lastLogTerm (r\<lparr>notifyCh := notifyCh'\<rparr>) = lastLogTerm r"
  "lastLogTerm (r\<lparr>chanCount := chanCount'\<rparr>) = lastLogTerm r"
  "lastLogTerm (r\<lparr>closedChs := closedChs'\<rparr>) = lastLogTerm r"
  "lastLogTerm (r\<lparr>leaderID := leaderID'\<rparr>) = lastLogTerm r"
  "lastLogTerm (r\<lparr>resetElectionCh := resetElectionCh'\<rparr>) = lastLogTerm r"
  "lastLogTerm (r\<lparr>stopCh := stopCh'\<rparr>) = lastLogTerm r"
  by (simp_all add: log_defs quorumSize_def)

lemma quorumSize_upd [simp]:
  "quorumSize (r\<lparr>storage := storage'\<rparr>) = quorumSize r"
  "quorumSize (r\<lparr>state := state'\<rparr>) = quorumSize r"
  "quorumSize (r\<lparr>currentTerm := currentTerm'\<rparr>) = quorumSize r"
  "quorumSize (r\<lparr>votedFor := votedFor'\<rparr>) = quorumSize r"
  "quorumSize (r\<lparr>commitIndex := commitIndex'\<rparr>) = quorumSize r"
  "quorumSize (r\<lparr>lastApplied := lastApplied'\<rparr>) = quorumSize r"
  "quorumSize (r\<lparr>snapshot := snapshot'\<rparr>) = quorumSize r"
  "quorumSize (r\<lparr>nextIndex := nextIndex'\<rparr>) = quorumSize r"
  "quorumSize (r\<lparr>matchIndex := matchIndex'\<rparr>) = quorumSize r"
  "quorumSize (r\<lparr>applyCh := applyCh'\<rparr>) = quorumSize r"
  "quorumSize (r\<lparr>notifyCh := notifyCh'\<rparr>) = quorumSize r"
  "quorumSize (r\<lparr>chanCount := chanCount'\<rparr>) = quorumSize r"
  "quorumSize (r\<lparr>closedChs := closedChs'\<rparr>) = quorumSize r"
  "quorumSize (r\<lparr>leaderID := leaderID'\<rparr>) = quorumSize r"
  "quorumSize (r\<lparr>resetElectionCh := resetElectionCh'\<rparr>) = quorumSize r"
  "quorumSize (r\<lparr>stopCh := stopCh'\<rparr>) = quorumSize r"
  by (simp_all add: log_defs quorumSize_def)

lemma logIndexToSlice_upd [simp]:
  "logIndexToSlice (r\<lparr>storage := storage'\<rparr>) i = logIndexToSlice r i"
  "logIndexToSlice (r\<lparr>state := state'\<rparr>) i = logIndexToSlice r i"
  "logIndexToSlice (r\<lparr>currentTerm := currentTerm'\<rparr>) i = logIndexToSlice r i"
  "logIndexToSlice (r\<lparr>votedFor := votedFor'\<rparr>) i = logIndexToSlice r i"
  "logIndexToSlice (r\<lparr>commitIndex := commitIndex'\<rparr>) i = logIndexToSlice r i"
  "logIndexToSlice (r\<lparr>lastApplied := lastApplied'\<rparr>) i = logIndexToSlice r i"
  "logIndexToSlice (r\<lparr>snapshot := snapshot'\<rparr>) i = logIndexToSlice r i"
  "logIndexToSlice (r\<lparr>nextIndex := nextIndex'\<rparr>) i = logIndexToSlice r i"
  "logIndexToSlice (r\<lparr>matchIndex := matchIndex'\<rparr>) i = logIndexToSlice r i"
  "logIndexToSlice (r\<lparr>applyCh := applyCh'\<rparr>) i = logIndexToSlice r i"
  "logIndexToSlice (r\<lparr>notifyCh := notifyCh'\<rparr>) i = logIndexToSlice r i"
  "logIndexToSlice (r\<lparr>chanCount := chanCount'\<rparr>) i = logIndexToSlice r i"
  "logIndexToSlice (r\<lparr>closedChs := closedChs'\<rparr>) i = logIndexToSlice r i"
  "logIndexToSlice (r\<lparr>leaderID := leaderID'\<rparr>) i = logIndexToSlice r i"
  "logIndexToSlice (r\<lparr>resetElectionCh := resetElectionCh'\<rparr>) i = logIndexToSlice r i"
  "logIndexToSlice (r\<lparr>stopCh := stopCh'\<rparr>) i = logIndexToSlice r i"
  by (simp_all add: log_defs quorumSize_def)

lemma persist_log [simp]:
  "lastLogIndex (persist ops r) = lastLogIndex r" "lastLogTerm (persist ops r) = lastLogTerm r"
  "termAt (persist ops r) i = termAt r i" "logIndexToSlice (persist ops r) i = logIndexToSlice r i"
  "isUpToDate (persist ops r) j u = isUpToDate r j u" "quorumSize (persist ops r) = quorumSize r"
  by (simp_all add: log_defs isUpToDate_def quorumSize_def)

lemma becomeFollower_log [simp]:
  "lastLogIndex (becomeFollowerLocked ops t r) = lastLogIndex r" "lastLogTerm (becomeFollowerLocked ops t r) = lastLogTerm r"
  "termAt (becomeFollowerLocked ops t r) i = termAt r i" "logIndexToSlice (becomeFollowerLocked ops t r) i = logIndexToSlice r i"
  "isUpToDate (becomeFollowerLocked ops t r) j u = isUpToDate r j u" "quorumSize (becomeFollowerLocked ops t r) = quorumSize r"
  by (simp_all add: log_defs isUpToDate_def quorumSize_def)

lemma becomeLeader_log [simp]:
  "lastLogIndex (becomeLeaderLocked r) = lastLogIndex r" "lastLogTerm (becomeLeaderLocked r) = lastLogTerm r"
  "termAt (becomeLeaderLocked r) i = termAt r i" "logIndexToSlice (becomeLeaderLocked r) i = logIndexToSlice r i"
  "isUpToDate (becomeLeaderLocked r) j u = isUpToDate r j u" "quorumSize (becomeLeaderLocked r) = quorumSize r"
  by (simp_all add: log_defs isUpToDate_def quorumSize_def)

lemma resetElectionTimer_log [simp]:
  "lastLogIndex (resetElectionTimerLocked r) = lastLogIndex r" "lastLogTerm (resetElectionTimerLocked r) = lastLogTerm r"
  "termAt (resetElectionTimerLocked r) i = termAt r i" "logIndexToSlice (resetElectionTimerLocked r) i = logIndexToSlice r i"
  "isUpToDate (resetElectionTimerLocked r) j u = isUpToDate r j u" "quorumSize (resetElectionTimerLocked r) = quorumSize r"
  by (simp_all add: log_defs isUpToDate_def quorumSize_def)

subsection \<open>Indexing\<close>

lemma termAt_in_range:
  "logOffset r \<le> i \<Longrightarrow> i \<le> lastLogIndex r \<Longrightarrow>
     termAt r i = le_Term (raft_log r ! nat (i - logOffset r))"
  by (simp add: termAt_def logIndexToSlice_def)

lemma slice_in_range:
  "logOffset r \<le> i \<Longrightarrow> i \<le> lastLogIndex r \<Longrightarrow> nat (i - logOffset r) < length (raft_log r)"
  by (simp add: lastLogIndex_def)

lemma lastLogTerm_termAt: "raft_log r \<noteq> [] \<Longrightarrow> lastLogTerm r = termAt r (lastLogIndex r)"
  by (cases "raft_log r") (simp_all add: log_defs nat_add_distrib)

lemma lastIndexOfTerm_loop_result:
  "lastIndexOfTerm_loop r trm i = -1 \<or>
   logOffset r \<le> lastIndexOfTerm_loop r trm i \<and> lastIndexOfTerm_loop r trm i \<le> i \<and>
   termAt r (lastIndexOfTerm_loop r trm i) = trm"
proof (induction r trm i rule: lastIndexOfTerm_loop.induct)
  case (1 r trm i)
  then show ?case
    by (subst (1 2 3 4) lastIndexOfTerm_loop.simps) auto
qed

lemma lastIndexOfTerm_loop_greatest:
  "logOffset r \<le> j \<Longrightarrow> j \<le> i \<Longrightarrow> termAt r j = trm \<Longrightarrow> j \<le> lastIndexOfTerm_loop r trm i"
proof (induction r trm i rule: lastIndexOfTerm_loop.induct)
  case (1 r trm i)
  then show ?case
    by (subst lastIndexOfTerm_loop.simps) (cases "j = i"; simp)
qed

lemma lastIndexOfTerm_found:
  assumes "0 \<le> logOffset r" and "logOffset r \<le> j" and "j \<le> lastLogIndex r" and "termAt r j = trm"
  shows "j \<le> lastIndexOfTerm r trm" and "lastIndexOfTerm r trm \<le> lastLogIndex r"
    and "termAt r (lastIndexOfTerm r trm) = trm"
  using lastIndexOfTerm_loop_greatest [OF assms(2-4)] lastIndexOfTerm_loop_result [of r trm "lastLogIndex r"] assms
  by (auto simp: lastIndexOfTerm_def)

lemma lastIndexOfTerm_cases:
  obtains "lastIndexOfTerm r trm = -1"
  | "logOffset r \<le> lastIndexOfTerm r trm" "lastIndexOfTerm r trm \<le> lastLogIndex r"
    "termAt r (lastIndexOfTerm r trm) = trm"
  using lastIndexOfTerm_loop_result [of r trm "lastLogIndex r"] unfolding lastIndexOfTerm_def by blast

subsection \<open>Quorums\<close>

lemma quorumSize_majority: "int (length (peers r)) + 1 < 2 * quorumSize r"
  by (simp add: quorumSize_def)

lemma quorumSize_pos: "1 \<le> quorumSize r"
  by (simp add: quorumSize_def)

lemma quorumSize_one_iff: "quorumSize r = 1 \<longleftrightarrow> peers r = []"
  by (cases "peers r") (simp_all add: quorumSize_def)

subsection \<open>The order of log positions\<close>

text \<open>
  Raft compares logs by the term of the last entry, then by its index.  The comparison is a linear
  order on positions, and the code's test is that order.
\<close>

datatype LogPos = LogPos (pos_term: int) (pos_index: int)

instantiation LogPos :: linorder
begin

definition less_eq_LogPos :: "LogPos \<Rightarrow> LogPos \<Rightarrow> bool" where
  "p \<le> q \<longleftrightarrow> pos_term p < pos_term q \<or> pos_term p = pos_term q \<and> pos_index p \<le> pos_index q"

definition less_LogPos :: "LogPos \<Rightarrow> LogPos \<Rightarrow> bool" where
  "p < q \<longleftrightarrow> pos_term p < pos_term q \<or> pos_term p = pos_term q \<and> pos_index p < pos_index q"

instance
  by standard (auto simp: less_eq_LogPos_def less_LogPos_def LogPos.expand)

end

definition lastPos :: "'s Raft \<Rightarrow> LogPos" where
  "lastPos r = LogPos (lastLogTerm r) (lastLogIndex r)"

lemma isUpToDate_order: "isUpToDate r idx trm \<longleftrightarrow> lastPos r \<le> LogPos trm idx"
  by (auto simp: isUpToDate_def lastPos_def less_eq_LogPos_def Let_def)

end
