(* ===== verification/Raft_Election.thy ===== *)
theory Raft_Election
  imports Raft_State
begin

text \<open>
  Leader election of \<^verbatim>\<open>src/raft/raft.go\<close>: \<^verbatim>\<open>HandleRequestVote\<close>, \<^verbatim>\<open>startElection\<close> and the
  goroutine that processes a vote reply.  What a method starts in other goroutines (an RPC to a peer)
  is its list of effects.
\<close>

datatype Effect =
    SendRequestVote node_id RequestVoteArgs
  | SpawnAppendEntries node_id

definition broadcastAppendEntries :: "'s Raft \<Rightarrow> Effect list" where
  "broadcastAppendEntries r =
     (if state r \<noteq> Leader then [] else map (\<lambda>p. SpawnAppendEntries (fst p)) (peers r))"

subsection \<open>Granting a vote\<close>

definition HandleRequestVote ::
    "'s StorageOps \<Rightarrow> 's Raft \<Rightarrow> RequestVoteArgs \<Rightarrow> RequestVoteReply \<times> 's Raft" where
  "HandleRequestVote ops r args =
     (if rva_Term args < currentTerm r
      then (\<lparr>rvr_Term = currentTerm r, rvr_VoteGranted = False\<rparr>, r)
      else
        let r = (if rva_Term args > currentTerm r
                 then becomeFollowerLocked ops (rva_Term args) r else r)
        in if (votedFor r = [] \<or> votedFor r = rva_CandidateID args) \<and>
              isUpToDate r (rva_LastLogIndex args) (rva_LastLogTerm args)
           then
             let r = persist ops (r\<lparr>votedFor := rva_CandidateID args\<rparr>)
             in (\<lparr>rvr_Term = currentTerm r, rvr_VoteGranted = True\<rparr>, resetElectionTimerLocked r)
           else (\<lparr>rvr_Term = currentTerm r, rvr_VoteGranted = False\<rparr>, r))"

subsection \<open>Standing for election\<close>

text \<open>The first critical section: nothing for a leader, otherwise a candidate of the next term.\<close>

definition startElection_begin ::
    "'s StorageOps \<Rightarrow> 's Raft \<Rightarrow> ('s Raft \<times> RequestVoteArgs) option" where
  "startElection_begin ops r =
     (if state r = Leader then None
      else
        let r = r\<lparr>state := Candidate, currentTerm := currentTerm r + 1, votedFor := raft_id r\<rparr>;
            args = \<lparr>rva_Term = currentTerm r, rva_CandidateID = raft_id r,
                    rva_LastLogIndex = lastLogIndex r, rva_LastLogTerm = lastLogTerm r\<rparr>
        in Some (persist ops r, args))"

text \<open>The second section, taken when the node is alone.\<close>

definition startElection_alone :: "int \<Rightarrow> 's Raft \<Rightarrow> 's Raft" where
  "startElection_alone trm r = (if currentTerm r = trm then becomeLeaderLocked r else r)"

definition startElection :: "'s StorageOps \<Rightarrow> 's Raft \<Rightarrow> 's Raft \<times> Effect list" where
  "startElection ops r =
     (case startElection_begin ops r of
        None \<Rightarrow> (r, [])
      | Some (r, args) \<Rightarrow>
          if quorumSize r = 1
          then let r = startElection_alone (rva_Term args) r in (r, broadcastAppendEntries r)
          else (r, if hasTransport r
                   then map (\<lambda>p. SendRequestVote (fst p) args) (peers r) else []))"

text \<open>
  A vote goroutine after its RPC returned without error: \<open>trm\<close> is the term of the election and
  \<open>votes\<close> its shared counter.
\<close>

definition handleVoteReply ::
    "'s StorageOps \<Rightarrow> int \<Rightarrow> RequestVoteReply \<Rightarrow> int \<Rightarrow> 's Raft \<Rightarrow> int \<times> 's Raft \<times> Effect list" where
  "handleVoteReply ops trm reply votes r =
     (if state r \<noteq> Candidate \<or> currentTerm r \<noteq> trm then (votes, r, [])
      else if rvr_Term reply > currentTerm r
      then (votes, becomeFollowerLocked ops (rvr_Term reply) r, [])
      else if rvr_VoteGranted reply
      then
        let votes = votes + 1
        in if votes \<ge> quorumSize r
           then let r = becomeLeaderLocked r in (votes, r, broadcastAppendEntries r)
           else (votes, r, [])
      else (votes, r, []))"

text \<open>\<^verbatim>\<open>src/raft/test_helpers.go\<close>: the entry points for tests and simulations.\<close>

definition TriggerElection :: "'s StorageOps \<Rightarrow> 's Raft \<Rightarrow> 's Raft \<times> Effect list" where
  "TriggerElection ops r = startElection ops r"

definition ReplicateOnce :: "'s Raft \<Rightarrow> Effect list" where
  "ReplicateOnce r = broadcastAppendEntries r"

subsection \<open>Ballots\<close>

text \<open>
  The ballot of a node is its term and its vote.  It only moves to a later term, or from no vote to a
  vote within the term.
\<close>

definition ballot_le :: "'s Raft \<Rightarrow> 's Raft \<Rightarrow> bool" where
  "ballot_le r r' \<longleftrightarrow> currentTerm r < currentTerm r' \<or>
     currentTerm r = currentTerm r' \<and> (votedFor r = [] \<or> votedFor r' = votedFor r)"

lemma ballot_le_refl [simp]: "ballot_le r r"
  by (simp add: ballot_le_def)

lemma ballot_le_trans: "ballot_le r s \<Longrightarrow> ballot_le s t \<Longrightarrow> ballot_le r t"
  by (auto simp: ballot_le_def)

lemma ballot_le_same:
  "currentTerm r' = currentTerm r \<Longrightarrow> votedFor r' = votedFor r \<Longrightarrow> ballot_le r r'"
  by (simp add: ballot_le_def)

lemma becomeFollower_ballot: "ballot_le r (becomeFollowerLocked ops t r)"
  by (auto simp: ballot_le_def)

lemma HandleRequestVote_ballot: "ballot_le r (snd (HandleRequestVote ops r args))"
  by (auto simp: HandleRequestVote_def Let_def ballot_le_def)

lemma startElection_begin_ballot:
  "startElection_begin ops r = Some (r', args) \<Longrightarrow> ballot_le r r'"
  by (auto simp: startElection_begin_def Let_def ballot_le_def split: if_splits)

lemma handleVoteReply_ballot: "ballot_le r (fst (snd (handleVoteReply ops trm reply votes r)))"
  by (auto simp: handleVoteReply_def Let_def ballot_le_def)

lemma startElection_ballot: "ballot_le r (fst (startElection ops r))"
  by (auto simp: startElection_def startElection_begin_def startElection_alone_def Let_def
      ballot_le_def split: option.splits)

subsection \<open>What a granted vote means\<close>

lemma HandleRequestVote_granted:
  assumes "HandleRequestVote ops r args = (reply, r')" and "rvr_VoteGranted reply"
  shows "currentTerm r \<le> rva_Term args" and "currentTerm r' = rva_Term args"
    and "votedFor r' = rva_CandidateID args" and "rvr_Term reply = rva_Term args"
    and "lastPos r \<le> LogPos (rva_LastLogTerm args) (rva_LastLogIndex args)"
  using assms
  by (auto simp: HandleRequestVote_def Let_def isUpToDate_order lastPos_def split: if_splits)

lemma HandleRequestVote_frame [frame_simps]:
  "raft_log (snd (HandleRequestVote ops r args)) = raft_log r"
  "logOffset (snd (HandleRequestVote ops r args)) = logOffset r"
  "commitIndex (snd (HandleRequestVote ops r args)) = commitIndex r"
  "lastApplied (snd (HandleRequestVote ops r args)) = lastApplied r"
  "snapshot (snd (HandleRequestVote ops r args)) = snapshot r"
  "peers (snd (HandleRequestVote ops r args)) = peers r"
  "raft_id (snd (HandleRequestVote ops r args)) = raft_id r"
  "applyCh (snd (HandleRequestVote ops r args)) = applyCh r"
  by (simp_all add: HandleRequestVote_def Let_def)

end
