(* ===== verification/Raft_Commit.thy ===== *)
theory Raft_Commit
  imports Raft_Election
begin

text \<open>
  Commit and apply of \<^verbatim>\<open>src/raft/raft.go\<close>: \<^verbatim>\<open>applyCommitted\<close>, \<^verbatim>\<open>advanceCommitIndex\<close>,
  \<^verbatim>\<open>Start\<close> and \<^verbatim>\<open>WaitForCommit\<close>.  An index out of range is a Go panic: a function that may
  panic returns an option, and \<^term>\<open>None\<close> is the panic.
\<close>

subsection \<open>Applying committed entries\<close>

text \<open>
  One critical section of the loop: the entry to deliver and the notification channel to close.  The
  section ends the loop (\<open>ApplyDone\<close>), panics, or takes the next entry.
\<close>

datatype 's ApplyTake =
    ApplyDone
  | ApplyPanic
  | ApplyNext "'s Raft" LogEntry "nat option"

definition applyCommitted_take :: "'s Raft \<Rightarrow> 's ApplyTake" where
  "applyCommitted_take r =
     (if lastApplied r \<ge> commitIndex r then ApplyDone
      else
        let r = r\<lparr>lastApplied := lastApplied r + 1\<rparr>;
            slot = logIndexToSlice r (lastApplied r)
        in if slot < 0 \<or> int (length (raft_log r)) \<le> slot then ApplyPanic
           else
             let entry = raft_log r ! nat slot;
                 ch = map_of (notifyCh r) (lastApplied r);
                 r = (case ch of None \<Rightarrow> r
                      | Some _ \<Rightarrow> r\<lparr>notifyCh := AList.delete (lastApplied r) (notifyCh r)\<rparr>)
             in ApplyNext r entry ch)"

text \<open>
  After the section, outside the lock: the channel is closed and the message is sent.  Its index is
  \<^verbatim>\<open>r.lastApplied\<close> as it is then.
\<close>

definition applyCommitted_deliver :: "LogEntry \<Rightarrow> nat option \<Rightarrow> 's Raft \<Rightarrow> 's Raft" where
  "applyCommitted_deliver entry ch r =
     (let r = (case ch of None \<Rightarrow> r | Some c \<Rightarrow> r\<lparr>closedChs := c # closedChs r\<rparr>)
      in r\<lparr>applyCh := applyCh r @ [command_msg (lastApplied r) (le_Command entry)]\<rparr>)"

lemma applyCommitted_take_next:
  assumes "applyCommitted_take r = ApplyNext r' entry ch"
  shows "lastApplied r < commitIndex r" and "lastApplied r' = lastApplied r + 1"
    and "commitIndex r' = commitIndex r" and "raft_log r' = raft_log r"
    and "logOffset r' = logOffset r" and "applyCh r' = applyCh r"
    and "logOffset r \<le> lastApplied r + 1" and "lastApplied r + 1 \<le> lastLogIndex r"
    and "entry = raft_log r ! nat (lastApplied r + 1 - logOffset r)"
    and "ch = map_of (notifyCh r) (lastApplied r + 1)"
  using assms
  by (auto simp: applyCommitted_take_def Let_def logIndexToSlice_def lastLogIndex_def
      split: if_splits option.splits)

lemma applyCommitted_deliver_simps [simp]:
  "lastApplied (applyCommitted_deliver e c r) = lastApplied r"
  "commitIndex (applyCommitted_deliver e c r) = commitIndex r"
  "raft_log (applyCommitted_deliver e c r) = raft_log r"
  "logOffset (applyCommitted_deliver e c r) = logOffset r"
  "applyCh (applyCommitted_deliver e c r) = applyCh r @ [command_msg (lastApplied r) (le_Command e)]"
  "notifyCh (applyCommitted_deliver e c r) = notifyCh r"
  by (simp_all add: applyCommitted_deliver_def Let_def split: option.split)

lemma applyCommitted_take_decreases:
  "applyCommitted_take r = ApplyNext r' entry ch \<Longrightarrow>
     lastApplied r < commitIndex r \<and>
     commitIndex r' - lastApplied r' < commitIndex r - lastApplied r"
  using applyCommitted_take_next(1-3) [of r r' entry ch] by simp

text \<open>The loop of one goroutine, undisturbed by others.\<close>

function applyCommitted :: "'s Raft \<Rightarrow> 's Raft option" where
  "applyCommitted r =
     (case applyCommitted_take r of
        ApplyDone \<Rightarrow> Some r
      | ApplyPanic \<Rightarrow> None
      | ApplyNext r' entry ch \<Rightarrow> applyCommitted (applyCommitted_deliver entry ch r'))"
  by pat_completeness auto
termination
  by (relation "measure (\<lambda>r. nat (commitIndex r - lastApplied r))")
    (simp_all add: applyCommitted_take_decreases)

declare applyCommitted.simps [simp del]

subsection \<open>Advancing the commit index\<close>

definition matchCount :: "'s Raft \<Rightarrow> int \<Rightarrow> int" where
  "matchCount r idx =
     1 + int (length (filter (\<lambda>p. int_at (matchIndex r) (fst p) \<ge> idx) (peers r)))"

function advanceLoop :: "int \<Rightarrow> int \<Rightarrow> 's Raft \<times> bool \<Rightarrow> 's Raft \<times> bool" where
  "advanceLoop lastIdx idx (r, advanced) =
     (if idx \<le> lastIdx
      then
        advanceLoop lastIdx (idx + 1)
          (if termAt r idx \<noteq> currentTerm r then (r, advanced)
           else if matchCount r idx \<ge> quorumSize r then (r\<lparr>commitIndex := idx\<rparr>, True)
           else (r, advanced))
      else (r, advanced))"
  by pat_completeness auto
termination
  by (relation "measure (\<lambda>(lastIdx, idx, x). nat (lastIdx - idx + 1))") auto

declare advanceLoop.simps [simp del]

text \<open>The critical section: the new state and whether the index advanced.\<close>

definition advanceCommitIndex_locked :: "'s StorageOps \<Rightarrow> 's Raft \<Rightarrow> 's Raft \<times> bool" where
  "advanceCommitIndex_locked ops r =
     (if state r \<noteq> Leader then (r, False)
      else
        let (r, advanced) = advanceLoop (lastLogIndex r) (commitIndex r + 1) (r, False)
        in (if advanced then persist ops r else r, advanced))"

definition advanceCommitIndex :: "'s StorageOps \<Rightarrow> 's Raft \<Rightarrow> 's Raft option" where
  "advanceCommitIndex ops r =
     (let (r, advanced) = advanceCommitIndex_locked ops r
      in if advanced then applyCommitted r else Some r)"

subsection \<open>Accepting a command\<close>

definition Start_locked :: "'s StorageOps \<Rightarrow> 's Raft \<Rightarrow> bytes \<Rightarrow> (int \<times> int \<times> bool) \<times> 's Raft" where
  "Start_locked ops r command =
     (if state r \<noteq> Leader then ((-1, currentTerm r, False), r)
      else
        let r = r\<lparr>raft_log := raft_log r @ [\<lparr>le_Term = currentTerm r, le_Command = command\<rparr>]\<rparr>;
            index = lastLogIndex r;
            r = r\<lparr>matchIndex := AList.update (raft_id r) index (matchIndex r),
                  nextIndex := AList.update (raft_id r) (index + 1) (nextIndex r),
                  notifyCh := AList.update index (chanCount r) (notifyCh r),
                  chanCount := Suc (chanCount r)\<rparr>
        in ((index, currentTerm r, True), persist ops r))"

definition Start ::
    "'s StorageOps \<Rightarrow> 's Raft \<Rightarrow> bytes \<Rightarrow> ((int \<times> int \<times> bool) \<times> 's Raft \<times> Effect list) option" where
  "Start ops r command =
     (let (res, r) = Start_locked ops r command
      in if \<not> snd (snd res) then Some (res, r, [])
         else case advanceCommitIndex ops r of
                None \<Rightarrow> None
              | Some r \<Rightarrow> Some (res, r, broadcastAppendEntries r))"

subsection \<open>Waiting for a commit\<close>

datatype WaitResult = WaitErr raft_error | WaitOK | WaitOn nat

text \<open>
  \<^verbatim>\<open>WaitForCommit\<close> up to its \<^verbatim>\<open>select\<close>; \<open>WaitOn ch\<close> means it blocks on the channel \<open>ch\<close>.
\<close>

definition WaitForCommit_begin :: "'s Raft \<Rightarrow> int \<Rightarrow> int \<Rightarrow> WaitResult \<times> 's Raft" where
  "WaitForCommit_begin r index trm =
     (if currentTerm r \<noteq> trm \<or> state r \<noteq> Leader then (WaitErr ErrNotLeader, r)
      else if commitIndex r \<ge> index then (WaitOK, r)
      else case map_of (notifyCh r) index of
             Some ch \<Rightarrow> (WaitOn ch, r)
           | None \<Rightarrow> (WaitOn (chanCount r),
               r\<lparr>notifyCh := AList.update index (chanCount r) (notifyCh r),
                 chanCount := Suc (chanCount r)\<rparr>))"

text \<open>
  The \<^verbatim>\<open>select\<close>: a receive from a closed channel succeeds; once the context is done, the channel
  is unregistered and the context's error returned.  Where both are ready, Go takes either, which
  \<open>pickDone\<close> decides.  \<^term>\<open>None\<close> is still blocked.
\<close>

definition WaitForCommit_select ::
    "raft_error option \<Rightarrow> bool \<Rightarrow> nat \<Rightarrow> int \<Rightarrow> 's Raft \<Rightarrow> (WaitResult \<times> 's Raft) option" where
  "WaitForCommit_select ctxErr pickDone ch index r =
     (case ctxErr of
        None \<Rightarrow> (if ch \<in> set (closedChs r) then Some (WaitOK, r) else None)
      | Some e \<Rightarrow>
          if ch \<in> set (closedChs r) \<and> \<not> pickDone then Some (WaitOK, r)
          else
            Some (WaitErr e,
              if map_of (notifyCh r) index = Some ch
              then r\<lparr>notifyCh := AList.delete index (notifyCh r)\<rparr> else r))"

subsection \<open>The commit rule\<close>

text \<open>
  Reference definition: an index may be committed when its entry is of the current term and a quorum
  stores it; the new commit index is the last such index above the old one.
\<close>

definition committable :: "'s Raft \<Rightarrow> int \<Rightarrow> bool" where
  "committable r idx \<longleftrightarrow> termAt r idx = currentTerm r \<and> quorumSize r \<le> matchCount r idx"

definition newCommitIndex :: "'s Raft \<Rightarrow> int" where
  "newCommitIndex r =
     last (commitIndex r # filter (committable r) [commitIndex r + 1..lastLogIndex r])"

lemma matchCount_upd [simp]:
  "matchCount (r\<lparr>commitIndex := c\<rparr>) idx = matchCount r idx"
  "matchCount (persist ops r) idx = matchCount r idx"
  by (simp_all add: matchCount_def)

lemma committable_upd [simp]: "committable (r\<lparr>commitIndex := c\<rparr>) idx = committable r idx"
  by (simp add: committable_def)

lemma advanceLoop_eq:
  "advanceLoop l i (r, a) =
     (let js = filter (committable r) [i..l]
      in if js = [] then (r, a) else (r\<lparr>commitIndex := last js\<rparr>, True))"
proof (induction l i "(r, a)" arbitrary: r a rule: advanceLoop.induct)
  case (1 l i r a)
  show ?case
  proof (cases "i \<le> l")
    case True
    define r1 where "r1 = (if committable r i then (r\<lparr>commitIndex := i\<rparr>) else r)"
    define a1 where "a1 = (a \<or> committable r i)"
    have step: "advanceLoop l i (r, a) = advanceLoop l (i + 1) (r1, a1)"
      using True by (subst advanceLoop.simps) (auto simp: r1_def a1_def committable_def)
    have same: "committable r1 j = committable r j" for j
      by (simp add: r1_def)
    have "advanceLoop l (i + 1) (r1, a1) =
       (let js = filter (committable r1) [i + 1..l]
        in if js = [] then (r1, a1) else (r1\<lparr>commitIndex := last js\<rparr>, True))"
      using True 1(1) [of r1 a1] by (auto simp: r1_def a1_def committable_def)
    with step show ?thesis
      using True same by (simp add: r1_def a1_def Let_def upto_rec1 [of i l] cong: filter_cong)
  next
    case False
    then show ?thesis by (subst advanceLoop.simps) simp
  qed
qed

lemma advanceCommitIndex_locked_eq:
  assumes "state r = Leader"
  shows "advanceCommitIndex_locked ops r =
    (if newCommitIndex r = commitIndex r then (r, False)
     else (persist ops (r\<lparr>commitIndex := newCommitIndex r\<rparr>), True))"
proof -
  let ?js = "filter (committable r) [commitIndex r + 1..lastLogIndex r]"
  have "?js \<noteq> [] \<Longrightarrow> commitIndex r < last ?js"
    using last_in_set [of ?js] by auto
  then show ?thesis
    using assms
    by (auto simp: advanceCommitIndex_locked_def advanceLoop_eq newCommitIndex_def Let_def)
qed

lemma newCommitIndex_cases:
  obtains "newCommitIndex r = commitIndex r"
  | "commitIndex r < newCommitIndex r" "newCommitIndex r \<le> lastLogIndex r"
    "committable r (newCommitIndex r)"
proof -
  let ?js = "filter (committable r) [commitIndex r + 1..lastLogIndex r]"
  have "?js \<noteq> [] \<Longrightarrow> last ?js \<in> set ?js" by (rule last_in_set)
  then show thesis
    using that by (cases "?js = []") (auto simp: newCommitIndex_def)
qed

lemma newCommitIndex_ge: "commitIndex r \<le> newCommitIndex r"
  by (cases r rule: newCommitIndex_cases) auto

lemma newCommitIndex_greatest:
  assumes "commitIndex r < idx" and "idx \<le> lastLogIndex r" and "committable r idx"
  shows "idx \<le> newCommitIndex r"
proof -
  let ?js = "filter (committable r) [commitIndex r + 1..lastLogIndex r]"
  have "idx \<in> set ?js" using assms by simp
  moreover have "sorted ?js" by (simp add: sorted_wrt_filter)
  ultimately have "idx \<le> last ?js" by (rule sorted_le_last)
  moreover have "?js \<noteq> []" using \<open>idx \<in> set ?js\<close> by (rule set_nonempty)
  ultimately show ?thesis by (simp add: newCommitIndex_def)
qed

subsection \<open>What the apply loop delivers\<close>

definition entryAt :: "'s Raft \<Rightarrow> int \<Rightarrow> LogEntry" where
  "entryAt r i = raft_log r ! nat (i - logOffset r)"

definition applied_msgs :: "'s Raft \<Rightarrow> int \<Rightarrow> int \<Rightarrow> ApplyMsg list" where
  "applied_msgs r lo hi = map (\<lambda>i. command_msg i (le_Command (entryAt r i))) [lo..hi]"

lemma applyCommitted_take_shape:
  assumes "applyCommitted_take r = ApplyNext r' entry ch"
  shows "r' = r\<lparr>lastApplied := lastApplied r + 1,
                notifyCh := AList.delete (lastApplied r + 1) (notifyCh r)\<rparr>"
proof -
  have "map_of (notifyCh r) i = None \<Longrightarrow> AList.delete i (notifyCh r) = notifyCh r" for i
    by (simp add: delete_idem map_of_eq_None_iff)
  then show ?thesis
    using assms by (auto simp: applyCommitted_take_def Let_def split: if_splits option.splits)
qed

lemma applyCommitted_shape:
  "applyCommitted r = Some r' \<Longrightarrow>
     \<exists>a b c d. r' = r\<lparr>lastApplied := a, applyCh := b, notifyCh := c, closedChs := d\<rparr>"
proof (induction r rule: applyCommitted.induct)
  case (1 r)
  show ?case
  proof (cases "applyCommitted_take r")
    case ApplyDone
    with "1.prems" have "r' = r\<lparr>lastApplied := lastApplied r, applyCh := applyCh r,
        notifyCh := notifyCh r, closedChs := closedChs r\<rparr>"
      by (simp add: applyCommitted.simps [of r])
    then show ?thesis by blast
  next
    case ApplyPanic
    with "1.prems" show ?thesis by (simp add: applyCommitted.simps [of r])
  next
    case (ApplyNext r1 entry ch)
    with "1.prems" have "applyCommitted (applyCommitted_deliver entry ch r1) = Some r'"
      by (simp add: applyCommitted.simps [of r])
    from "1.IH" [OF ApplyNext this] applyCommitted_take_shape [OF ApplyNext]
    show ?thesis
      by (auto simp: applyCommitted_deliver_def Let_def split: option.splits)
  qed
qed

lemma applyCommitted_frame [frame_simps]:
  assumes "applyCommitted r = Some r'"
  shows "currentTerm r' = currentTerm r" and "votedFor r' = votedFor r" and "state r' = state r"
    and "raft_log r' = raft_log r" and "logOffset r' = logOffset r" and "snapshot r' = snapshot r"
    and "commitIndex r' = commitIndex r" and "storage r' = storage r" and "peers r' = peers r"
    and "raft_id r' = raft_id r" and "matchIndex r' = matchIndex r" and "nextIndex r' = nextIndex r"
    and "leaderID r' = leaderID r" and "hasTransport r' = hasTransport r"
    and "chanCount r' = chanCount r"
  using applyCommitted_shape [OF assms] by auto

text \<open>
  While the committed entries are in the log, the loop returns; it delivers exactly the entries above
  the last applied one, in order and with their own indices, and closes their channels.
\<close>

lemma applyCommitted_total:
  assumes "logOffset r \<le> lastApplied r + 1" and "commitIndex r \<le> lastLogIndex r"
  shows "\<exists>r'. applyCommitted r = Some r' \<and>
     lastApplied r' = max (lastApplied r) (commitIndex r) \<and>
     applyCh r' = applyCh r @ applied_msgs r (lastApplied r + 1) (commitIndex r) \<and>
     (\<forall>i. map_of (notifyCh r') i =
        (if lastApplied r < i \<and> i \<le> commitIndex r then None else map_of (notifyCh r) i)) \<and>
     set (closedChs r') = set (closedChs r) \<union>
        {c. \<exists>i. lastApplied r < i \<and> i \<le> commitIndex r \<and> map_of (notifyCh r) i = Some c}"
  using assms
proof (induction r rule: applyCommitted.induct)
  case (1 r)
  show ?case
  proof (cases "lastApplied r \<ge> commitIndex r")
    case True
    then have "applyCommitted r = Some r"
      by (simp add: applyCommitted.simps [of r] applyCommitted_take_def)
    with True show ?thesis by (auto simp: applied_msgs_def)
  next
    case False
    then obtain r1 e ch where nxt: "applyCommitted_take r = ApplyNext r1 e ch"
      using "1.prems" by (auto simp: applyCommitted_take_def Let_def log_defs split: option.splits)
    note facts = applyCommitted_take_next [OF nxt]
    let ?r2 = "applyCommitted_deliver e ch r1"
    have "lastLogIndex ?r2 = lastLogIndex r"
      using facts by (simp add: lastLogIndex_def)
    with "1.IH" [OF nxt] "1.prems" facts obtain r' where
      r': "applyCommitted ?r2 = Some r'"
        "lastApplied r' = max (lastApplied r + 1) (commitIndex r)"
        "applyCh r' = applyCh ?r2 @ applied_msgs ?r2 (lastApplied r + 1 + 1) (commitIndex r)"
        "\<forall>i. map_of (notifyCh r') i =
          (if lastApplied r + 1 < i \<and> i \<le> commitIndex r then None else map_of (notifyCh ?r2) i)"
        "set (closedChs r') = set (closedChs ?r2) \<union>
          {c. \<exists>i. lastApplied r + 1 < i \<and> i \<le> commitIndex r \<and> map_of (notifyCh ?r2) i = Some c}"
      by auto
    have "applyCommitted r = Some r'"
      using nxt r'(1) by (simp add: applyCommitted.simps [of r])
    moreover have "lastApplied r' = max (lastApplied r) (commitIndex r)"
      using False r'(2) by simp
    moreover have "applyCh r' = applyCh r @ applied_msgs r (lastApplied r + 1) (commitIndex r)"
      using False facts r'(3) upto_rec1 [of "lastApplied r + 1" "commitIndex r"]
      by (simp add: applied_msgs_def entryAt_def)
    moreover have "map_of (notifyCh r') i =
        (if lastApplied r < i \<and> i \<le> commitIndex r then None else map_of (notifyCh r) i)" for i
      using False r'(4) applyCommitted_take_shape [OF nxt] by auto
    moreover have rest: "{c. \<exists>i. lastApplied r + 1 < i \<and> i \<le> commitIndex r \<and> map_of (notifyCh ?r2) i = Some c} =
        {c. \<exists>i. lastApplied r + 1 < i \<and> i \<le> commitIndex r \<and> map_of (notifyCh r) i = Some c}"
      using applyCommitted_take_shape [OF nxt] by (intro Collect_cong ex_cong1) auto
    moreover have "set (closedChs ?r2) = set (closedChs r) \<union>
        {c. map_of (notifyCh r) (lastApplied r + 1) = Some c}"
      using facts applyCommitted_take_shape [OF nxt]
      by (auto simp: applyCommitted_deliver_def Let_def split: option.splits)
    then have "set (closedChs r') = set (closedChs r) \<union>
        {c. \<exists>i. lastApplied r < i \<and> i \<le> commitIndex r \<and> map_of (notifyCh r) i = Some c}"
      unfolding r'(5) rest using False by (subst ex_int_step) auto
    ultimately show ?thesis by blast
  qed
qed

text \<open>Where the commit index points beyond the log, the loop runs off its end and panics.\<close>

lemma applyCommitted_panics:
  assumes "logOffset r \<le> lastApplied r + 1" and "lastLogIndex r < commitIndex r"
    and "lastApplied r < commitIndex r"
  shows "applyCommitted r = None"
  using assms
proof (induction r rule: applyCommitted.induct)
  case (1 r)
  show ?case
  proof (cases "applyCommitted_take r")
    case ApplyDone
    with "1.prems" show ?thesis
      by (auto simp: applyCommitted_take_def Let_def split: if_splits option.splits)
  next
    case ApplyPanic
    then show ?thesis by (simp add: applyCommitted.simps [of r])
  next
    case (ApplyNext r1 e ch)
    note facts = applyCommitted_take_next [OF this]
    have "lastLogIndex (applyCommitted_deliver e ch r1) = lastLogIndex r"
      using facts by (simp add: lastLogIndex_def)
    with "1.IH" [OF ApplyNext] "1.prems" facts show ?thesis
      by (simp add: applyCommitted.simps [of r] ApplyNext)
  qed
qed

end
