(* ===== verification/Raft_Append.thy ===== *)
theory Raft_Append
  imports Raft_Commit
begin

text \<open>
  Log replication of \<^verbatim>\<open>src/raft/raft.go\<close>: \<^verbatim>\<open>HandleAppendEntries\<close> on the follower,
  \<^verbatim>\<open>sendAppendEntries\<close> and \<^verbatim>\<open>handleAppendEntriesReply\<close> on the leader.
\<close>

subsection \<open>The follower\<close>

function conflictLoop :: "'s Raft \<Rightarrow> int \<Rightarrow> int \<Rightarrow> int" where
  "conflictLoop r conflictTerm idx =
     (if idx > logOffset r \<and> termAt r (idx - 1) = conflictTerm
      then conflictLoop r conflictTerm (idx - 1) else idx)"
  by pat_completeness auto
termination
  by (relation "measure (\<lambda>(r, ct, idx). nat (idx - logOffset r))") auto

declare conflictLoop.simps [simp del]

text \<open>The loop over \<^verbatim>\<open>args.Entries\<close>; the list argument is \<^verbatim>\<open>args.Entries[i:]\<close>.\<close>

fun appendLoop :: "'s StorageOps \<Rightarrow> int \<Rightarrow> int \<Rightarrow> LogEntry list \<Rightarrow> 's Raft \<Rightarrow> 's Raft" where
  "appendLoop ops prev i [] r = r"
| "appendLoop ops prev i (entry # rest) r =
     (let idx = prev + 1 + i
      in if idx \<le> lastLogIndex r
         then if termAt r idx \<noteq> le_Term entry
              then let cut = logIndexToSlice r idx
                   in persist ops (r\<lparr>raft_log := take (nat cut) (raft_log r) @ entry # rest\<rparr>)
              else appendLoop ops prev (i + 1) rest r
         else persist ops (r\<lparr>raft_log := raft_log r @ entry # rest\<rparr>))"

text \<open>
  The term check that \<^verbatim>\<open>HandleAppendEntries\<close> and \<^verbatim>\<open>HandleInstallSnapshot\<close> share once the term is
  not stale: adopt the sender's term, or step down from candidate or leader within the term, then note
  the leader and rearm the election timer.
\<close>

definition followLeader :: "'s StorageOps \<Rightarrow> int \<Rightarrow> node_id \<Rightarrow> 's Raft \<Rightarrow> 's Raft" where
  "followLeader ops trm leader r =
     (let r = (if trm > currentTerm r then becomeFollowerLocked ops trm r
               else if state r \<noteq> Follower then persist ops (r\<lparr>state := Follower\<rparr>) else r)
      in resetElectionTimerLocked (r\<lparr>leaderID := leader\<rparr>))"

text \<open>
  The critical section of \<^verbatim>\<open>HandleAppendEntries\<close>: the reply, the state and \<^verbatim>\<open>applyNeeded\<close>.  The
  term of an early reply is the one the node had when the request arrived.
\<close>

definition HandleAppendEntries_locked ::
    "'s StorageOps \<Rightarrow> 's Raft \<Rightarrow> AppendEntriesArgs \<Rightarrow> AppendEntriesReply \<times> 's Raft \<times> bool" where
  "HandleAppendEntries_locked ops r args =
     (let reply = \<lparr>aer_Term = currentTerm r, aer_Success = False, aer_ConflictIndex = 0, aer_ConflictTerm = 0\<rparr>
      in if aea_Term args < currentTerm r then (reply, r, False)
         else
           let r = followLeader ops (aea_Term args) (aea_LeaderID args) r;
               prev = aea_PrevLogIndex args
           in if prev > lastLogIndex r
              then (reply\<lparr>aer_ConflictIndex := lastLogIndex r + 1\<rparr>, r, False)
              else if prev < logOffset r
              then (reply\<lparr>aer_ConflictIndex := logOffset r + 1\<rparr>, r, False)
              else if prev \<ge> 0 \<and> termAt r prev \<noteq> aea_PrevLogTerm args
              then let conflictTerm = termAt r prev
                   in (reply\<lparr>aer_ConflictTerm := conflictTerm,
                             aer_ConflictIndex := conflictLoop r conflictTerm prev\<rparr>, r, False)
              else
                let r = appendLoop ops prev 0 (aea_Entries args) r;
                    (r, applyNeeded) =
                      (if aea_LeaderCommit args > commitIndex r
                       then (persist ops (r\<lparr>commitIndex := min (aea_LeaderCommit args) (lastLogIndex r)\<rparr>), True)
                       else (r, False))
                in (reply\<lparr>aer_Success := True, aer_Term := currentTerm r\<rparr>, r, applyNeeded))"

definition HandleAppendEntries ::
    "'s StorageOps \<Rightarrow> 's Raft \<Rightarrow> AppendEntriesArgs \<Rightarrow> (AppendEntriesReply \<times> 's Raft) option" where
  "HandleAppendEntries ops r args =
     (let (reply, r, applyNeeded) = HandleAppendEntries_locked ops r args
      in if applyNeeded
         then (case applyCommitted r of None \<Rightarrow> None | Some r \<Rightarrow> Some (reply, r))
         else Some (reply, r))"

subsection \<open>The leader\<close>

datatype SendStep =
    NoSend
  | SendPanic
  | CallAppendEntries AppendEntriesArgs
  | GoInstallSnapshot

definition sendAppendEntries_locked :: "'s Raft \<Rightarrow> node_id \<Rightarrow> SendStep \<times> 's Raft" where
  "sendAppendEntries_locked r peerID =
     (if \<not> hasTransport r then (NoSend, r)
      else if state r \<noteq> Leader then (NoSend, r)
      else
        let r = (if int_at (nextIndex r) peerID = 0
                 then r\<lparr>nextIndex := AList.update peerID (lastLogIndex r + 1) (nextIndex r)\<rparr> else r);
            nextIdx = int_at (nextIndex r) peerID
        in if nextIdx \<le> logOffset r then (GoInstallSnapshot, r)
           else
             let prevIdx = nextIdx - 1;
                 from = logIndexToSlice r nextIdx
             in if from > int (length (raft_log r)) then (SendPanic, r)
                else
                  (CallAppendEntries \<lparr>aea_Term = currentTerm r, aea_LeaderID = raft_id r,
                     aea_PrevLogIndex = prevIdx, aea_PrevLogTerm = termAt r prevIdx,
                     aea_Entries = drop (nat from) (raft_log r), aea_LeaderCommit = commitIndex r\<rparr>, r))"

definition handleAppendEntriesReply_locked ::
    "'s StorageOps \<Rightarrow> node_id \<Rightarrow> AppendEntriesArgs \<Rightarrow> AppendEntriesReply \<Rightarrow> 's Raft \<Rightarrow> 's Raft \<times> bool" where
  "handleAppendEntriesReply_locked ops peerID args reply r =
     (if state r \<noteq> Leader \<or> aea_Term args \<noteq> currentTerm r then (r, False)
      else if aer_Term reply > currentTerm r then (becomeFollowerLocked ops (aer_Term reply) r, False)
      else if aer_Success reply
      then let matchIdx = aea_PrevLogIndex args + int (length (aea_Entries args))
           in (r\<lparr>matchIndex := AList.update peerID matchIdx (matchIndex r),
                 nextIndex := AList.update peerID (matchIdx + 1) (nextIndex r)\<rparr>, True)
      else
        let next =
          (if aer_ConflictTerm reply \<noteq> 0
           then let lastIdx = lastIndexOfTerm r (aer_ConflictTerm reply)
                in if lastIdx > 0 then lastIdx + 1 else aer_ConflictIndex reply
           else if aer_ConflictIndex reply > 0 then aer_ConflictIndex reply
           else max 1 (int_at (nextIndex r) peerID - 1))
        in (r\<lparr>nextIndex := AList.update peerID next (nextIndex r)\<rparr>, False))"

definition handleAppendEntriesReply ::
    "'s StorageOps \<Rightarrow> node_id \<Rightarrow> AppendEntriesArgs \<Rightarrow> AppendEntriesReply \<Rightarrow> 's Raft \<Rightarrow> 's Raft option" where
  "handleAppendEntriesReply ops peerID args reply r =
     (let (r, matched) = handleAppendEntriesReply_locked ops peerID args reply r
      in if matched then advanceCommitIndex ops r else Some r)"

subsection \<open>The loop over the entries as a merge\<close>

text \<open>
  Reference definition: what follows position \<open>prev\<close> in the log is kept as long as its terms agree
  with the entries of the message; the first disagreement, or the end of the log, is replaced by the
  rest of the message.
\<close>

fun mergeTail :: "LogEntry list \<Rightarrow> LogEntry list \<Rightarrow> LogEntry list" where
  "mergeTail ls [] = ls"
| "mergeTail [] (e # es) = e # es"
| "mergeTail (l # ls) (e # es) = (if le_Term l \<noteq> le_Term e then e # es else l # mergeTail ls es)"

lemma mergeTail_Nil [simp]: "mergeTail [] es = es"
  by (cases es) simp_all

lemma appendLoop_eq:
  assumes "logOffset r \<le> prev + i" and "prev + i \<le> lastLogIndex r"
  shows "appendLoop ops prev i es r =
    (let k = nat (prev + 1 + i - logOffset r);
         new = take k (raft_log r) @ mergeTail (drop k (raft_log r)) es
     in if new = raft_log r then r else persist ops (r\<lparr>raft_log := new\<rparr>))"
  using assms
proof (induction es arbitrary: i)
  case Nil
  then show ?case by simp
next
  case (Cons e es)
  let ?k = "nat (prev + 1 + i - logOffset r)"
  have k: "?k \<le> length (raft_log r)"
    using Cons.prems by (simp add: lastLogIndex_def)
  show ?case
  proof (cases "prev + 1 + i \<le> lastLogIndex r")
    case False
    then have "?k = length (raft_log r)"
      using Cons.prems by (simp add: lastLogIndex_def)
    with False show ?thesis by (simp add: Let_def)
  next
    case True
    have lt: "?k < length (raft_log r)"
      using True Cons.prems by (simp add: lastLogIndex_def)
    have trm: "termAt r (prev + 1 + i) = le_Term (raft_log r ! ?k)"
      using True Cons.prems by (simp add: termAt_in_range)
    have suc: "nat (prev + 1 + (i + 1) - logOffset r) = Suc ?k"
      using Cons.prems by linarith
    have drop: "drop ?k (raft_log r) = raft_log r ! ?k # drop (Suc ?k) (raft_log r)"
      using lt by (rule hd_drop_tail)
    show ?thesis
    proof (cases "le_Term (raft_log r ! ?k) = le_Term e")
      case False
      then have "take ?k (raft_log r) @ e # es \<noteq> raft_log r"
        using lt by (metis drop id_take_nth_drop list.inject same_append_eq)
      with True False trm drop show ?thesis
        by (simp add: Let_def logIndexToSlice_def)
    next
      case same: True
      have "appendLoop ops prev i (e # es) r = appendLoop ops prev (i + 1) es r"
        using True same trm by simp
      also have "\<dots> = (let k = nat (prev + 1 + (i + 1) - logOffset r);
          new = take k (raft_log r) @ mergeTail (drop k (raft_log r)) es
          in if new = raft_log r then r else persist ops (r\<lparr>raft_log := new\<rparr>))"
        by (rule Cons.IH) (use Cons.prems True in simp_all)
      also have "\<dots> = (let new = take (Suc ?k) (raft_log r) @ mergeTail (drop (Suc ?k) (raft_log r)) es
          in if new = raft_log r then r else persist ops (r\<lparr>raft_log := new\<rparr>))"
        by (simp only: suc Let_def)
      also have "take (Suc ?k) (raft_log r) @ mergeTail (drop (Suc ?k) (raft_log r)) es =
          take ?k (raft_log r) @ mergeTail (drop ?k (raft_log r)) (e # es)"
        using same lt by (simp add: drop take_Suc_conv_app_nth)
      finally show ?thesis by (simp add: Let_def)
    qed
  qed
qed

lemma mergeTail_length: "length es \<le> length (mergeTail ls es)"
  by (induction ls es rule: mergeTail.induct) auto

lemma mergeTail_terms: "map le_Term (take (length es) (mergeTail ls es)) = map le_Term es"
  by (induction ls es rule: mergeTail.induct) auto

text \<open>Merging again, or merging an older and shorter copy of the message, changes nothing.\<close>

lemma mergeTail_self [simp]: "mergeTail es (take n es) = es"
proof (induction es arbitrary: n)
  case (Cons e es)
  then show ?case by (cases n) simp_all
qed simp

lemma mergeTail_stale: "mergeTail (mergeTail ls es) (take n es) = mergeTail ls es"
proof (induction ls es arbitrary: n rule: mergeTail.induct)
  case (1 ls)
  then show ?case by simp
next
  case (2 e es)
  then show ?case using mergeTail_self [of "e # es" n] by simp
next
  case (3 l ls e es)
  then show ?case
    using mergeTail_self [of "e # es" n] by (cases n) simp_all
qed

lemma mergeTail_idem: "mergeTail (mergeTail ls es) es = mergeTail ls es"
  using mergeTail_stale [of ls es "length es"] by simp

text \<open>Nothing is cut where the terms agree: a stale message never shortens the log.\<close>

lemma mergeTail_no_conflict:
  assumes "\<forall>i < min (length ls) (length es). le_Term (ls ! i) = le_Term (es ! i)"
  shows "mergeTail ls es = ls @ drop (length ls) es"
  using assms
proof (induction ls es rule: mergeTail.induct)
  case (3 l ls e es)
  then have "\<forall>i < min (length ls) (length es). le_Term (ls ! i) = le_Term (es ! i)"
    by fastforce
  with 3 show ?case by fastforce
qed simp_all

lemma mergeTail_cut:
  assumes "i < length ls" and "i < length es"
    and "\<forall>j < i. le_Term (ls ! j) = le_Term (es ! j)" and "le_Term (ls ! i) \<noteq> le_Term (es ! i)"
  shows "mergeTail ls es = take i ls @ drop i es"
  using assms
proof (induction ls es arbitrary: i rule: mergeTail.induct)
  case (3 l ls e es)
  show ?case
  proof (cases i)
    case 0
    with 3 show ?thesis by simp
  next
    case (Suc j)
    with "3.prems" have "le_Term l = le_Term e" by fastforce
    moreover have "mergeTail ls es = take j ls @ drop j es"
      using "3.IH" [of j] "3.prems" Suc calculation by fastforce
    ultimately show ?thesis using Suc by simp
  qed
qed simp_all

subsection \<open>What a follower's reply means\<close>

lemma followLeader_simps [simp]:
  "currentTerm r \<le> t \<Longrightarrow> currentTerm (followLeader ops t l r) = t"
  "votedFor (followLeader ops t l r) = (if t > currentTerm r then [] else votedFor r)"
  "state (followLeader ops t l r) = Follower"
  "raft_log (followLeader ops t l r) = raft_log r"
  "logOffset (followLeader ops t l r) = logOffset r"
  "commitIndex (followLeader ops t l r) = commitIndex r"
  "lastApplied (followLeader ops t l r) = lastApplied r"
  "snapshot (followLeader ops t l r) = snapshot r"
  "leaderID (followLeader ops t l r) = l"
  "peers (followLeader ops t l r) = peers r"
  "raft_id (followLeader ops t l r) = raft_id r"
  "hasTransport (followLeader ops t l r) = hasTransport r"
  "applyCh (followLeader ops t l r) = applyCh r"
  "notifyCh (followLeader ops t l r) = notifyCh r"
  "chanCount (followLeader ops t l r) = chanCount r"
  "closedChs (followLeader ops t l r) = closedChs r"
  "matchIndex (followLeader ops t l r) = matchIndex r"
  "nextIndex (followLeader ops t l r) = nextIndex r"
  "lastLogIndex (followLeader ops t l r) = lastLogIndex r"
  "termAt (followLeader ops t l r) i = termAt r i"
  by (auto simp: followLeader_def Let_def log_defs)

definition mergedLog :: "'s Raft \<Rightarrow> int \<Rightarrow> LogEntry list \<Rightarrow> LogEntry list" where
  "mergedLog r prev es =
     (let k = nat (prev + 1 - logOffset r)
      in take k (raft_log r) @ mergeTail (drop k (raft_log r)) es)"

text \<open>The conditions under which a request is accepted.\<close>

definition acceptsAppend :: "'s Raft \<Rightarrow> AppendEntriesArgs \<Rightarrow> bool" where
  "acceptsAppend r args \<longleftrightarrow> currentTerm r \<le> aea_Term args \<and>
     logOffset r \<le> aea_PrevLogIndex args \<and> aea_PrevLogIndex args \<le> lastLogIndex r \<and>
     (aea_PrevLogIndex args \<ge> 0 \<longrightarrow> termAt r (aea_PrevLogIndex args) = aea_PrevLogTerm args)"

lemma HandleAppendEntries_rejected:
  assumes "HandleAppendEntries_locked ops r args = (reply, r', ap)" and "\<not> acceptsAppend r args"
  shows "\<not> aer_Success reply" and "\<not> ap" and "raft_log r' = raft_log r"
    and "commitIndex r' = commitIndex r" and "aer_Term reply = currentTerm r"
    and "logOffset r' = logOffset r"
  using assms by (auto simp: HandleAppendEntries_locked_def acceptsAppend_def Let_def split: if_splits)

lemma HandleAppendEntries_accepted:
  assumes "HandleAppendEntries_locked ops r args = (reply, r', ap)" and "acceptsAppend r args"
  shows "aer_Success reply" and "aer_Term reply = aea_Term args" and "currentTerm r' = aea_Term args"
    and "state r' = Follower" and "leaderID r' = aea_LeaderID args"
    and "raft_log r' = mergedLog r (aea_PrevLogIndex args) (aea_Entries args)"
    and "logOffset r' = logOffset r" and "ap \<longleftrightarrow> aea_LeaderCommit args > commitIndex r"
    and "commitIndex r' = (if aea_LeaderCommit args > commitIndex r
           then min (aea_LeaderCommit args) (lastLogIndex r') else commitIndex r)"
    and "lastApplied r' = lastApplied r" and "snapshot r' = snapshot r"
    and "votedFor r' = (if aea_Term args > currentTerm r then [] else votedFor r)"
    and "applyCh r' = applyCh r" and "notifyCh r' = notifyCh r"
proof -
  let ?r1 = "followLeader ops (aea_Term args) (aea_LeaderID args) r"
  let ?r2 = "appendLoop ops (aea_PrevLogIndex args) 0 (aea_Entries args) ?r1"
  have r2: "?r2 = (let new = mergedLog r (aea_PrevLogIndex args) (aea_Entries args)
      in if new = raft_log r then ?r1 else persist ops (?r1\<lparr>raft_log := new\<rparr>))"
    using appendLoop_eq [of ?r1 "aea_PrevLogIndex args" 0] assms(2)
    by (simp add: mergedLog_def acceptsAppend_def Let_def)
  then have fields: "currentTerm ?r2 = aea_Term args" "state ?r2 = Follower"
    "leaderID ?r2 = aea_LeaderID args"
    "raft_log ?r2 = mergedLog r (aea_PrevLogIndex args) (aea_Entries args)"
    "logOffset ?r2 = logOffset r" "commitIndex ?r2 = commitIndex r"
    "lastApplied ?r2 = lastApplied r" "snapshot ?r2 = snapshot r"
    "votedFor ?r2 = (if aea_Term args > currentTerm r then [] else votedFor r)"
    "applyCh ?r2 = applyCh r" "notifyCh ?r2 = notifyCh r"
    using assms(2) by (auto simp: acceptsAppend_def Let_def)
  have reply: "aer_Success reply" "aer_Term reply = currentTerm ?r2"
    and r': "ap \<longleftrightarrow> aea_LeaderCommit args > commitIndex ?r2"
      "r' = (if aea_LeaderCommit args > commitIndex ?r2
             then persist ops (?r2\<lparr>commitIndex := min (aea_LeaderCommit args) (lastLogIndex ?r2)\<rparr>)
             else ?r2)"
    using assms by (auto simp: HandleAppendEntries_locked_def acceptsAppend_def Let_def split: if_splits)
  show "aer_Success reply" "aer_Term reply = aea_Term args" "currentTerm r' = aea_Term args"
    "state r' = Follower" "leaderID r' = aea_LeaderID args"
    "raft_log r' = mergedLog r (aea_PrevLogIndex args) (aea_Entries args)"
    "logOffset r' = logOffset r" "ap \<longleftrightarrow> aea_LeaderCommit args > commitIndex r"
    "commitIndex r' = (if aea_LeaderCommit args > commitIndex r
           then min (aea_LeaderCommit args) (lastLogIndex r') else commitIndex r)"
    "lastApplied r' = lastApplied r" "snapshot r' = snapshot r"
    "votedFor r' = (if aea_Term args > currentTerm r then [] else votedFor r)"
    "applyCh r' = applyCh r" "notifyCh r' = notifyCh r"
    using reply fields r'(1) unfolding r'(2) by simp_all
qed

subsection \<open>The conflict hint\<close>

lemma conflictLoop_spec:
  assumes "logOffset r \<le> idx"
  shows "logOffset r \<le> conflictLoop r ct idx \<and> conflictLoop r ct idx \<le> idx \<and>
    (\<forall>j. conflictLoop r ct idx \<le> j \<and> j < idx \<longrightarrow> termAt r j = ct) \<and>
    (logOffset r < conflictLoop r ct idx \<longrightarrow> termAt r (conflictLoop r ct idx - 1) \<noteq> ct)"
  using assms
proof (induction r ct idx rule: conflictLoop.induct)
  case (1 r ct idx)
  show ?case
  proof (cases "idx > logOffset r \<and> termAt r (idx - 1) = ct")
    case True
    then have eq: "conflictLoop r ct idx = conflictLoop r ct (idx - 1)"
      by (subst conflictLoop.simps) simp
    note IH = "1.IH" [OF True]
    have "termAt r j = ct" if "conflictLoop r ct (idx - 1) \<le> j" "j < idx" for j
      using that True IH by (cases "j = idx - 1") auto
    with True IH show ?thesis unfolding eq by auto
  next
    case False
    then have "conflictLoop r ct idx = idx" by (subst conflictLoop.simps) auto
    with False "1.prems" show ?thesis by auto
  qed
qed

text \<open>A log whose terms never decrease, as every Raft log is.\<close>

definition sorted_terms :: "'s Raft \<Rightarrow> bool" where
  "sorted_terms r \<longleftrightarrow> sorted (map le_Term (raft_log r))"

lemma sorted_terms_termAt:
  assumes "sorted_terms r" and "logOffset r \<le> i" and "i \<le> j" and "j \<le> lastLogIndex r"
  shows "termAt r i \<le> termAt r j"
proof -
  have "nat (i - logOffset r) \<le> nat (j - logOffset r)" using assms by simp
  moreover have "nat (j - logOffset r) < length (raft_log r)"
    using assms by (intro slice_in_range) simp_all
  ultimately have "map le_Term (raft_log r) ! nat (i - logOffset r)
      \<le> map le_Term (raft_log r) ! nat (j - logOffset r)"
    using assms(1) unfolding sorted_terms_def by (intro sorted_nth_mono) simp_all
  with assms \<open>nat (j - logOffset r) < length (raft_log r)\<close> show ?thesis
    by (simp add: termAt_in_range)
qed

end
