(* ===== verification/Raft_Snapshot.thy ===== *)
theory Raft_Snapshot
  imports Raft_Append
begin

text \<open>
  Log compaction of \<^verbatim>\<open>src/raft/raft.go\<close>: \<^verbatim>\<open>Snapshot\<close>, and the InstallSnapshot RPC on both sides.
\<close>

subsection \<open>Taking a snapshot\<close>

text \<open>\<^verbatim>\<open>Snapshot\<close> returns nil, \<^verbatim>\<open>ErrSnapshotNotCommitted\<close> or the error of the save.\<close>

definition takeSnapshot :: "'s StorageOps \<Rightarrow> 's Raft \<Rightarrow> int \<Rightarrow> bytes \<Rightarrow> raft_error option \<times> 's Raft" where
  "takeSnapshot ops r index data =
     (if index \<le> logOffset r then (None, r)
      else if index > commitIndex r \<or> index > lastLogIndex r then (Some ErrSnapshotNotCommitted, r)
      else
        let trm = termAt r index
        in if trm < 0 then (Some ErrSnapshotNotCommitted, r)
           else
             let sliceStart = index + 1 - logOffset r;
                 newLog = sentinel trm #
                   (if sliceStart < int (length (raft_log r)) then drop (nat sliceStart) (raft_log r) else []);
                 closing = map snd (filter (\<lambda>p. fst p \<le> index) (notifyCh r))
             in persistLocked ops
                  (r\<lparr>raft_log := newLog, logOffset := index,
                     snapshot := \<lparr>snap_LastIncludedIndex = index, snap_LastIncludedTerm = trm, snap_Data = data\<rparr>,
                     commitIndex := max (commitIndex r) index,
                     lastApplied := max (lastApplied r) index,
                     notifyCh := filter (\<lambda>p. \<not> fst p \<le> index) (notifyCh r),
                     closedChs := closing @ closedChs r\<rparr>))"

subsection \<open>Installing the leader's snapshot\<close>

text \<open>
  The critical section of \<^verbatim>\<open>HandleInstallSnapshot\<close>: the reply, the state and the message that is
  sent on \<^verbatim>\<open>applyCh\<close> after the lock is released.
\<close>

definition HandleInstallSnapshot_locked ::
    "'s StorageOps \<Rightarrow> 's Raft \<Rightarrow> InstallSnapshotArgs \<Rightarrow> InstallSnapshotReply \<times> 's Raft \<times> ApplyMsg option" where
  "HandleInstallSnapshot_locked ops r args =
     (if isa_Term args < currentTerm r then (\<lparr>isr_Term = currentTerm r\<rparr>, r, None)
      else
        let r = followLeader ops (isa_Term args) (isa_LeaderID args) r
        in if isa_LastIncludedIndex args \<le> snap_LastIncludedIndex (snapshot r)
           then (\<lparr>isr_Term = currentTerm r\<rparr>, r, None)
           else
             let idx = isa_LastIncludedIndex args;
                 r = r\<lparr>snapshot := \<lparr>snap_LastIncludedIndex = idx,
                         snap_LastIncludedTerm = isa_LastIncludedTerm args, snap_Data = isa_Data args\<rparr>,
                       logOffset := idx, raft_log := [sentinel (isa_LastIncludedTerm args)],
                       commitIndex := (if commitIndex r < idx then idx else commitIndex r),
                       lastApplied := (if lastApplied r < idx then idx else lastApplied r)\<rparr>;
                 r = persist ops r
             in (\<lparr>isr_Term = currentTerm r\<rparr>, r,
                 Some (snapshot_msg (isa_Data args) idx (isa_LastIncludedTerm args))))"

definition HandleInstallSnapshot ::
    "'s StorageOps \<Rightarrow> 's Raft \<Rightarrow> InstallSnapshotArgs \<Rightarrow> InstallSnapshotReply \<times> 's Raft" where
  "HandleInstallSnapshot ops r args =
     (let (reply, r, msg) = HandleInstallSnapshot_locked ops r args
      in (reply, case msg of None \<Rightarrow> r | Some m \<Rightarrow> r\<lparr>applyCh := applyCh r @ [m]\<rparr>))"

subsection \<open>Sending a snapshot\<close>

definition sendInstallSnapshot_locked :: "'s Raft \<Rightarrow> InstallSnapshotArgs option" where
  "sendInstallSnapshot_locked r =
     (if \<not> hasTransport r then None
      else if state r \<noteq> Leader then None
      else Some \<lparr>isa_Term = currentTerm r, isa_LeaderID = raft_id r,
             isa_LastIncludedIndex = snap_LastIncludedIndex (snapshot r),
             isa_LastIncludedTerm = snap_LastIncludedTerm (snapshot r),
             isa_Data = snap_Data (snapshot r)\<rparr>)"

definition handleInstallSnapshotReply ::
    "'s StorageOps \<Rightarrow> node_id \<Rightarrow> InstallSnapshotArgs \<Rightarrow> InstallSnapshotReply \<Rightarrow> 's Raft \<Rightarrow> 's Raft" where
  "handleInstallSnapshotReply ops peerID args reply r =
     (if state r \<noteq> Leader \<or> isa_Term args \<noteq> currentTerm r then r
      else if isr_Term reply > currentTerm r then becomeFollowerLocked ops (isr_Term reply) r
      else r\<lparr>matchIndex := AList.update peerID (isa_LastIncludedIndex args) (matchIndex r),
             nextIndex := AList.update peerID (isa_LastIncludedIndex args + 1) (nextIndex r)\<rparr>)"

subsection \<open>Compaction keeps the log\<close>

lemma takeSnapshot_cases:
  obtains (skip) "index \<le> logOffset r" "takeSnapshot ops r index data = (None, r)"
  | (refused) "logOffset r < index" "takeSnapshot ops r index data = (Some ErrSnapshotNotCommitted, r)"
      "commitIndex r < index \<or> lastLogIndex r < index \<or> termAt r index < 0"
  | (taken) "logOffset r < index" "index \<le> commitIndex r" "index \<le> lastLogIndex r" "0 \<le> termAt r index"
      "takeSnapshot ops r index data = persistLocked ops
         (r\<lparr>raft_log := sentinel (termAt r index) # drop (nat (index + 1 - logOffset r)) (raft_log r),
            logOffset := index,
            snapshot := \<lparr>snap_LastIncludedIndex = index, snap_LastIncludedTerm = termAt r index, snap_Data = data\<rparr>,
            lastApplied := max (lastApplied r) index,
            notifyCh := filter (\<lambda>p. \<not> fst p \<le> index) (notifyCh r),
            closedChs := map snd (filter (\<lambda>p. fst p \<le> index) (notifyCh r)) @ closedChs r\<rparr>)"
proof (cases "logOffset r < index \<and> index \<le> commitIndex r \<and> index \<le> lastLogIndex r \<and> 0 \<le> termAt r index")
  case True
  have "(if index + 1 - logOffset r < int (length (raft_log r))
      then drop (nat (index + 1 - logOffset r)) (raft_log r) else []) =
      drop (nat (index + 1 - logOffset r)) (raft_log r)"
    by auto
  moreover have "max (commitIndex r) index = commitIndex r" using True by simp
  ultimately show ?thesis
    using True by (intro taken) (simp_all add: takeSnapshot_def Let_def)
next
  case False
  then show ?thesis
    by (cases "index \<le> logOffset r") (auto simp: takeSnapshot_def Let_def intro: skip refused)
qed

lemma persistLocked_shape: "snd (persistLocked ops r) = persist ops r"
  by (simp add: persist_def)

lemma compacted_log:
  assumes "logOffset r < index" and "index \<le> lastLogIndex r"
    and "raft_log r' = sentinel (termAt r index) # drop (nat (index + 1 - logOffset r)) (raft_log r)"
    and "logOffset r' = index"
  shows "lastLogIndex r' = lastLogIndex r"
    and "index \<le> i \<Longrightarrow> termAt r' i = termAt r i"
    and "index < i \<Longrightarrow> i \<le> lastLogIndex r \<Longrightarrow> entryAt r' i = entryAt r i"
proof -
  show last: "lastLogIndex r' = lastLogIndex r"
    using assms by (simp add: lastLogIndex_def)
  show entry: "entryAt r' i = entryAt r i" if "index < i" "i \<le> lastLogIndex r" for i
  proof -
    have "nat (i - index) = Suc (nat (i - index - 1))" using that by simp
    moreover have "nat (index + 1 - logOffset r) + nat (i - index - 1) = nat (i - logOffset r)"
      using that assms by simp
    ultimately show ?thesis
      using assms that by (simp add: entryAt_def lastLogIndex_def nth_drop)
  qed
  show "termAt r' i = termAt r i" if "index \<le> i"
  proof (cases "i = index \<or> lastLogIndex r < i")
    case True
    with assms last that show ?thesis
      by (auto simp: termAt_def logIndexToSlice_def)
  next
    case False
    with that assms last entry [of i] show ?thesis
      by (simp add: termAt_in_range entryAt_def)
  qed
qed

end
