(* ===== verification/Raft_Init.thy ===== *)
theory Raft_Init
  imports Raft_Snapshot
begin

text \<open>
  \<^verbatim>\<open>NewRaft\<close> of \<^verbatim>\<open>src/raft/raft.go\<close>: a node built from its configuration and the state its
  storage holds, and the randomized election timeout.
\<close>

record 's RaftConfig =
  cfg_ID :: node_id
  cfg_Peers :: "(node_id, string) gomap"
  cfg_hasTransport :: bool
  cfg_Storage :: "'s option"
  cfg_ElectionTimeout :: int
  cfg_HeartbeatInterval :: int
  cfg_Debug :: bool
  cfg_Verbose :: bool

definition millisecond :: int where
  "millisecond = 1000000"

text \<open>The log a node starts with: at least the sentinel, whose term is the snapshot's.\<close>

definition initialLog :: "PersistentState \<Rightarrow> LogEntry list" where
  "initialLog ps =
     (let snap = ps_Snapshot ps;
          lg = (if ps_Log ps = [] then [sentinel (snap_LastIncludedTerm snap)] else ps_Log ps)
      in if snap_LastIncludedIndex snap > 0 \<and> le_Term (lg ! 0) \<noteq> snap_LastIncludedTerm snap
         then lg[0 := (lg ! 0)\<lparr>le_Term := snap_LastIncludedTerm snap\<rparr>] else lg)"

text \<open>The last assignments of \<^verbatim>\<open>NewRaft\<close>, which put the indices in order.\<close>

definition clampIndexes :: "'s Raft \<Rightarrow> 's Raft" where
  "clampIndexes r =
     (let r = (if commitIndex r < logOffset r then r\<lparr>commitIndex := logOffset r\<rparr> else r);
          r = (if commitIndex r > lastLogIndex r then r\<lparr>commitIndex := lastLogIndex r\<rparr> else r);
          r = (if lastApplied r < logOffset r then r\<lparr>lastApplied := logOffset r\<rparr> else r)
      in if lastApplied r > commitIndex r then r\<lparr>lastApplied := commitIndex r\<rparr> else r)"

text \<open>
  \<open>newMem\<close> is the store that \<^verbatim>\<open>NewMemoryStorage()\<close> gives when the configuration has none.
\<close>

definition NewRaft :: "'s StorageOps \<Rightarrow> 's \<Rightarrow> 's RaftConfig \<Rightarrow> raft_error + 's Raft" where
  "NewRaft ops newMem cfg =
     (if cfg_ID cfg = [] then Inl ErrIDRequired
      else
        let st = (case cfg_Storage cfg of None \<Rightarrow> newMem | Some s \<Rightarrow> s)
        in case Load ops st of
             Inl e \<Rightarrow> Inl e
           | Inr ps \<Rightarrow>
             let eTimeout = (if cfg_ElectionTimeout cfg = 0 then 350 else cfg_ElectionTimeout cfg);
                 hInterval = (if cfg_HeartbeatInterval cfg = 0 then 100 else cfg_HeartbeatInterval cfg)
             in Inr (clampIndexes
                  \<lparr>raft_id = cfg_ID cfg, peers = cfg_Peers cfg, hasTransport = cfg_hasTransport cfg,
                   storage = st, state = Follower, currentTerm = ps_CurrentTerm ps,
                   votedFor = ps_VotedFor ps, raft_log = initialLog ps, commitIndex = ps_CommitIndex ps,
                   lastApplied = 0, logOffset = snap_LastIncludedIndex (ps_Snapshot ps),
                   snapshot = ps_Snapshot ps,
                   nextIndex = [], matchIndex = [], applyCh = [], notifyCh = [], chanCount = 0,
                   closedChs = [], electionTimeout = wrap64 (eTimeout * millisecond),
                   heartbeatInterval = wrap64 (hInterval * millisecond), resetElectionCh = False,
                   stopCh = False, leaderID = [], debug = cfg_Debug cfg \<or> cfg_Verbose cfg,
                   verbose = cfg_Verbose cfg\<rparr>))"

text \<open>
  \<open>rnd\<close> is the value \<^verbatim>\<open>rand.Int63n(base)\<close> returned, a number from 0 up to \<open>base\<close>.
\<close>

definition randomizedElectionTimeout :: "int \<Rightarrow> 's Raft \<Rightarrow> int" where
  "randomizedElectionTimeout rnd r =
     (let base = electionTimeout r
      in if base \<le> 0 then 300 * millisecond else wrap64 (base + rnd))"

subsection \<open>A node starts well formed\<close>

text \<open>
  The invariant of one node: the log starts with the sentinel of the snapshot, and the offset, the
  applied index, the commit index and the end of the log are in order.
\<close>

definition raft_inv :: "'s Raft \<Rightarrow> bool" where
  "raft_inv r \<longleftrightarrow> raft_log r \<noteq> [] \<and> 0 \<le> logOffset r \<and>
     logOffset r = snap_LastIncludedIndex (snapshot r) \<and>
     logOffset r \<le> lastApplied r \<and> lastApplied r \<le> commitIndex r \<and> commitIndex r \<le> lastLogIndex r"

lemma raft_invD:
  assumes "raft_inv r"
  shows "raft_log r \<noteq> []" and "0 \<le> logOffset r" and "logOffset r = snap_LastIncludedIndex (snapshot r)"
    and "logOffset r \<le> lastApplied r" and "lastApplied r \<le> commitIndex r"
    and "commitIndex r \<le> lastLogIndex r" and "logOffset r \<le> commitIndex r"
    and "logOffset r \<le> lastLogIndex r"
  using assms by (simp_all add: raft_inv_def)

lemma raft_inv_cong:
  assumes "raft_log r' = raft_log r" "logOffset r' = logOffset r" "snapshot r' = snapshot r"
    "lastApplied r' = lastApplied r" "commitIndex r' = commitIndex r"
  shows "raft_inv r' = raft_inv r"
  using assms by (simp add: raft_inv_def lastLogIndex_def)

lemma clampIndexes_eq:
  "clampIndexes r =
     r\<lparr>commitIndex := min (max (commitIndex r) (logOffset r)) (lastLogIndex r),
       lastApplied := min (max (lastApplied r) (logOffset r))
         (min (max (commitIndex r) (logOffset r)) (lastLogIndex r))\<rparr>"
proof -
  let ?c = "min (max (commitIndex r) (logOffset r)) (lastLogIndex r)"
  define r1 where "r1 = (if commitIndex r < logOffset r then r\<lparr>commitIndex := logOffset r\<rparr> else r)"
  have r1: "r1 = r\<lparr>commitIndex := max (commitIndex r) (logOffset r)\<rparr>"
    by (simp add: r1_def max_def)
  define r2 where "r2 = (if commitIndex r1 > lastLogIndex r1 then r1\<lparr>commitIndex := lastLogIndex r1\<rparr> else r1)"
  have r2: "r2 = r\<lparr>commitIndex := ?c\<rparr>"
    by (auto simp: r2_def r1)
  define r3 where "r3 = (if lastApplied r2 < logOffset r2 then r2\<lparr>lastApplied := logOffset r2\<rparr> else r2)"
  have r3: "r3 = r\<lparr>commitIndex := ?c, lastApplied := max (lastApplied r) (logOffset r)\<rparr>"
    by (auto simp: r3_def r2)
  have "clampIndexes r = (if lastApplied r3 > commitIndex r3 then r3\<lparr>lastApplied := commitIndex r3\<rparr> else r3)"
    by (simp only: clampIndexes_def Let_def r3_def r2_def r1_def)
  also have "\<dots> = r\<lparr>commitIndex := ?c, lastApplied := min (max (lastApplied r) (logOffset r)) ?c\<rparr>"
    by (auto simp: r3)
  finally show ?thesis .
qed

lemma initialLog_shape:
  "length (initialLog ps) = max 1 (length (ps_Log ps))" "tl (initialLog ps) = tl (ps_Log ps)"
  by (cases "ps_Log ps"; simp add: initialLog_def Let_def)+

lemma initialLog_nonempty [simp]: "initialLog ps \<noteq> []"
  using initialLog_shape(1) [of ps] by auto

lemma NewRaft_fields:
  assumes "NewRaft ops newMem cfg = Inr r"
  obtains ps where "Load ops (case cfg_Storage cfg of None \<Rightarrow> newMem | Some s \<Rightarrow> s) = Inr ps"
    and "storage r = (case cfg_Storage cfg of None \<Rightarrow> newMem | Some s \<Rightarrow> s)"
    and "raft_log r = initialLog ps" and "logOffset r = snap_LastIncludedIndex (ps_Snapshot ps)"
    and "commitIndex r = min (max (ps_CommitIndex ps) (logOffset r)) (lastLogIndex r)"
    and "lastApplied r = min (max 0 (logOffset r)) (commitIndex r)"
    and "currentTerm r = ps_CurrentTerm ps" and "votedFor r = ps_VotedFor ps"
    and "snapshot r = ps_Snapshot ps" and "state r = Follower" and "raft_id r = cfg_ID cfg"
    and "peers r = cfg_Peers cfg" and "applyCh r = []"
    and "nextIndex r = []" and "matchIndex r = []" and "notifyCh r = []"
proof -
  let ?st = "case cfg_Storage cfg of None \<Rightarrow> newMem | Some s \<Rightarrow> s"
  have id: "cfg_ID cfg \<noteq> []"
    using assms by (auto simp: NewRaft_def)
  obtain ps where ps: "Load ops ?st = Inr ps"
    using assms id by (cases "Load ops ?st") (simp_all add: NewRaft_def Let_def)
  note r = assms [unfolded NewRaft_def Let_def ps sum.case if_not_P [OF id] sum.inject, symmetric]
  show thesis
    by (rule that [of ps, OF ps]) (simp_all add: r clampIndexes_eq lastLogIndex_def)
qed

lemma NewRaft_inv:
  assumes "NewRaft ops newMem cfg = Inr r" and "0 \<le> logOffset r"
  shows "raft_inv r"
  using assms(1)
proof (rule NewRaft_fields)
  fix ps
  assume "raft_log r = initialLog ps" "logOffset r = snap_LastIncludedIndex (ps_Snapshot ps)"
    "commitIndex r = min (max (ps_CommitIndex ps) (logOffset r)) (lastLogIndex r)"
    "lastApplied r = min (max 0 (logOffset r)) (commitIndex r)" "snapshot r = ps_Snapshot ps"
  moreover from this(1) have "logOffset r \<le> lastLogIndex r"
    using initialLog_shape(1) [of ps] by (simp add: lastLogIndex_def)
  ultimately show ?thesis
    using assms(2) by (simp add: raft_inv_def)
qed

end
