(* ===== verification/Raft_Node.thy ===== *)
theory Raft_Node
  imports Raft_Init
begin

text \<open>
  One node as a state machine.  An event is one critical section of the node's mutex, or one send that
  follows it outside the lock; \<open>node_exec\<close> runs an event and \<open>node_run\<close> a sequence of them, in any
  order and with any message contents, so that a fact about all runs holds under every interleaving of
  the node's goroutines.
\<close>

datatype NodeEvent =
    EvRequestVote RequestVoteArgs
  | EvStartElection
  | EvStartElectionAlone int
  | EvVoteReply int RequestVoteReply int
  | EvStart bytes
  | EvAdvanceCommit
  | EvApplyTake
  | EvApplyDeliver LogEntry "nat option"
  | EvAppendEntries AppendEntriesArgs
  | EvSendAppendEntries node_id
  | EvAppendReply node_id AppendEntriesArgs AppendEntriesReply
  | EvSnapshot int bytes
  | EvInstallSnapshot InstallSnapshotArgs
  | EvSnapshotDeliver ApplyMsg
  | EvInstallReply node_id InstallSnapshotArgs InstallSnapshotReply
  | EvWaitBegin int int
  | EvWaitSelect "raft_error option" bool nat int
  | EvStop

fun node_exec :: "'s StorageOps \<Rightarrow> NodeEvent \<Rightarrow> 's Raft \<Rightarrow> 's Raft option" where
  "node_exec ops (EvRequestVote args) r = Some (snd (HandleRequestVote ops r args))"
| "node_exec ops EvStartElection r =
     Some (case startElection_begin ops r of None \<Rightarrow> r | Some (r', _) \<Rightarrow> r')"
| "node_exec ops (EvStartElectionAlone trm) r = Some (startElection_alone trm r)"
| "node_exec ops (EvVoteReply trm reply votes) r = Some (fst (snd (handleVoteReply ops trm reply votes r)))"
| "node_exec ops (EvStart cmd) r = Some (snd (Start_locked ops r cmd))"
| "node_exec ops EvAdvanceCommit r = Some (fst (advanceCommitIndex_locked ops r))"
| "node_exec ops EvApplyTake r =
     (case applyCommitted_take r of ApplyDone \<Rightarrow> Some r | ApplyPanic \<Rightarrow> None | ApplyNext r' _ _ \<Rightarrow> Some r')"
| "node_exec ops (EvApplyDeliver entry ch) r = Some (applyCommitted_deliver entry ch r)"
| "node_exec ops (EvAppendEntries args) r = Some (fst (snd (HandleAppendEntries_locked ops r args)))"
| "node_exec ops (EvSendAppendEntries peer) r =
     (case sendAppendEntries_locked r peer of (SendPanic, _) \<Rightarrow> None | (_, r') \<Rightarrow> Some r')"
| "node_exec ops (EvAppendReply peer args reply) r =
     Some (fst (handleAppendEntriesReply_locked ops peer args reply r))"
| "node_exec ops (EvSnapshot index data) r = Some (snd (takeSnapshot ops r index data))"
| "node_exec ops (EvInstallSnapshot args) r = Some (fst (snd (HandleInstallSnapshot_locked ops r args)))"
| "node_exec ops (EvSnapshotDeliver msg) r = Some (r\<lparr>applyCh := applyCh r @ [msg]\<rparr>)"
| "node_exec ops (EvInstallReply peer args reply) r = Some (handleInstallSnapshotReply ops peer args reply r)"
| "node_exec ops (EvWaitBegin index trm) r = Some (snd (WaitForCommit_begin r index trm))"
| "node_exec ops (EvWaitSelect err pick ch index) r =
     Some (case WaitForCommit_select err pick ch index r of None \<Rightarrow> r | Some (_, r') \<Rightarrow> r')"
| "node_exec ops EvStop r = Stop r"

fun node_run :: "'s StorageOps \<Rightarrow> NodeEvent list \<Rightarrow> 's Raft \<Rightarrow> 's Raft option" where
  "node_run ops [] r = Some r"
| "node_run ops (ev # evs) r =
     (case node_exec ops ev r of None \<Rightarrow> None | Some r' \<Rightarrow> node_run ops evs r')"

subsection \<open>Frame facts of the remaining sections\<close>

definition appended :: "'s Raft \<Rightarrow> bytes \<Rightarrow> 's Raft" where
  "appended r cmd =
     r\<lparr>raft_log := raft_log r @ [\<lparr>le_Term = currentTerm r, le_Command = cmd\<rparr>],
       matchIndex := AList.update (raft_id r) (lastLogIndex r + 1) (matchIndex r),
       nextIndex := AList.update (raft_id r) (lastLogIndex r + 1 + 1) (nextIndex r),
       notifyCh := AList.update (lastLogIndex r + 1) (chanCount r) (notifyCh r),
       chanCount := Suc (chanCount r)\<rparr>"

lemma Start_locked_eq:
  "Start_locked ops r cmd =
     (if state r = Leader then ((lastLogIndex r + 1, currentTerm r, True), persist ops (appended r cmd))
      else ((-1, currentTerm r, False), r))"
  by (simp add: Start_locked_def appended_def Let_def lastLogIndex_def algebra_simps)

lemma advanceCommitIndex_locked_cases:
  obtains "advanceCommitIndex_locked ops r = (r, False)"
  | "state r = Leader" "commitIndex r < newCommitIndex r" "newCommitIndex r \<le> lastLogIndex r"
    "committable r (newCommitIndex r)"
    "advanceCommitIndex_locked ops r = (persist ops (r\<lparr>commitIndex := newCommitIndex r\<rparr>), True)"
proof (cases "state r = Leader")
  case True
  note eq = advanceCommitIndex_locked_eq [OF True, of ops]
  show ?thesis
    by (cases r rule: newCommitIndex_cases) (use True eq that in auto)
qed (auto simp: advanceCommitIndex_locked_def intro: that(1))

lemma sendAppendEntries_locked_shape:
  "\<exists>n. snd (sendAppendEntries_locked r peer) = r\<lparr>nextIndex := n\<rparr>"
  by (rule exI [of _ "nextIndex (snd (sendAppendEntries_locked r peer))"])
    (simp add: sendAppendEntries_locked_def Let_def)

lemma WaitForCommit_begin_shape:
  "\<exists>n c. snd (WaitForCommit_begin r index trm) = r\<lparr>notifyCh := n, chanCount := c\<rparr>"
  by (rule exI [of _ "notifyCh (snd (WaitForCommit_begin r index trm))"],
      rule exI [of _ "chanCount (snd (WaitForCommit_begin r index trm))"])
    (simp add: WaitForCommit_begin_def split: option.split)

lemma WaitForCommit_select_shape:
  assumes "WaitForCommit_select err pick ch index r = Some (res, r')"
  shows "\<exists>n. r' = r\<lparr>notifyCh := n\<rparr>"
  using assms
  by (intro exI [of _ "notifyCh r'"]) (auto simp: WaitForCommit_select_def split: if_splits option.splits)

lemma appendLoop_shape:
  "\<exists>l s. appendLoop ops prev i es r = r\<lparr>raft_log := l, storage := s\<rparr>"
proof (induction es arbitrary: i)
  case Nil
  show ?case by (rule exI [of _ "raft_log r"], rule exI [of _ "storage r"]) simp
next
  case (Cons e es)
  then show ?case by (auto simp: Let_def persist_eq)
qed

lemma appendLoop_simps [simp]:
  "raft_id (appendLoop ops prev i es r) = raft_id r"
  "peers (appendLoop ops prev i es r) = peers r"
  "hasTransport (appendLoop ops prev i es r) = hasTransport r"
  "state (appendLoop ops prev i es r) = state r"
  "currentTerm (appendLoop ops prev i es r) = currentTerm r"
  "votedFor (appendLoop ops prev i es r) = votedFor r"
  "commitIndex (appendLoop ops prev i es r) = commitIndex r"
  "lastApplied (appendLoop ops prev i es r) = lastApplied r"
  "logOffset (appendLoop ops prev i es r) = logOffset r"
  "snapshot (appendLoop ops prev i es r) = snapshot r"
  "nextIndex (appendLoop ops prev i es r) = nextIndex r"
  "matchIndex (appendLoop ops prev i es r) = matchIndex r"
  "applyCh (appendLoop ops prev i es r) = applyCh r"
  "notifyCh (appendLoop ops prev i es r) = notifyCh r"
  "chanCount (appendLoop ops prev i es r) = chanCount r"
  "closedChs (appendLoop ops prev i es r) = closedChs r"
  "leaderID (appendLoop ops prev i es r) = leaderID r"
  using appendLoop_shape [of ops prev i es r] by auto

end
