(* ===== verification/Raft_Invariants.thy ===== *)
theory Raft_Invariants
  imports Raft_Node
begin

text \<open>
  Invariants of one node over all its critical sections: the ballot only moves forward, the saved state
  is always the current one, and the indices stay in order as long as the incoming messages respect the
  committed prefix.
\<close>

subsection \<open>Ballots\<close>

lemma followLeader_ballot: "currentTerm r \<le> t \<Longrightarrow> ballot_le r (followLeader ops t l r)"
  by (auto simp: ballot_le_def)

lemma HandleAppendEntries_ballot: "ballot_le r (fst (snd (HandleAppendEntries_locked ops r args)))"
proof (cases "acceptsAppend r args")
  case True
  obtain reply r' ap where eq: "HandleAppendEntries_locked ops r args = (reply, r', ap)"
    by (cases "HandleAppendEntries_locked ops r args") auto
  with True HandleAppendEntries_accepted(3,12) [OF eq True] show ?thesis
    by (auto simp: ballot_le_def acceptsAppend_def)
next
  case False
  then show ?thesis
    by (auto simp: HandleAppendEntries_locked_def acceptsAppend_def Let_def intro: followLeader_ballot)
qed

lemma HandleInstallSnapshot_ballot: "ballot_le r (fst (snd (HandleInstallSnapshot_locked ops r args)))"
  by (auto simp: HandleInstallSnapshot_locked_def Let_def ballot_le_def)

lemma takeSnapshot_ballot: "ballot_le r (snd (takeSnapshot ops r index data))"
  by (rule takeSnapshot_cases [of index r ops data])
    (simp_all add: persistLocked_shape ballot_le_same)

lemma node_exec_ballot: "node_exec ops ev r = Some r' \<Longrightarrow> ballot_le r r'"
proof (cases ev)
  case EvAdvanceCommit
  assume "node_exec ops ev r = Some r'"
  with EvAdvanceCommit show ?thesis
    by (cases ops r rule: advanceCommitIndex_locked_cases) (auto simp: ballot_le_same)
next
  case EvApplyTake
  assume "node_exec ops ev r = Some r'"
  with EvApplyTake show ?thesis
    by (auto split: ApplyTake.splits dest!: applyCommitted_take_shape simp: ballot_le_same)
next
  case (EvSendAppendEntries peer)
  assume "node_exec ops ev r = Some r'"
  with EvSendAppendEntries sendAppendEntries_locked_shape [of r peer] show ?thesis
    by (auto split: prod.splits SendStep.splits simp: ballot_le_same)
next
  case (EvWaitSelect err pick ch index)
  assume "node_exec ops ev r = Some r'"
  with EvWaitSelect show ?thesis
    by (auto split: option.splits dest!: WaitForCommit_select_shape simp: ballot_le_same)
next
  case (EvWaitBegin index trm)
  assume "node_exec ops ev r = Some r'"
  with EvWaitBegin WaitForCommit_begin_shape [of r index trm] show ?thesis
    by (auto simp: ballot_le_same)
next
  case EvStartElection
  assume "node_exec ops ev r = Some r'"
  with EvStartElection show ?thesis
    by (auto split: option.splits dest!: startElection_begin_ballot)
qed (auto simp: HandleRequestVote_ballot handleVoteReply_ballot HandleAppendEntries_ballot
    HandleInstallSnapshot_ballot takeSnapshot_ballot Start_locked_eq appended_def
    startElection_alone_def applyCommitted_deliver_def handleAppendEntriesReply_locked_def
    handleInstallSnapshotReply_def Stop_def Let_def becomeFollower_ballot
    intro: ballot_le_same split: if_splits option.splits)

lemma node_run_ballot: "node_run ops evs r = Some r' \<Longrightarrow> ballot_le r r'"
proof (induction evs arbitrary: r)
  case (Cons ev evs)
  then show ?case
    by (auto split: option.splits dest: node_exec_ballot intro: ballot_le_trans)
qed simp

subsection \<open>What no section changes\<close>

lemma node_exec_identity:
  assumes "node_exec ops ev r = Some r'"
  shows "raft_id r' = raft_id r \<and> peers r' = peers r \<and> hasTransport r' = hasTransport r"
proof (cases ev)
  case EvAdvanceCommit
  with assms show ?thesis by (cases ops r rule: advanceCommitIndex_locked_cases) auto
next
  case EvApplyTake
  with assms show ?thesis by (auto split: ApplyTake.splits dest!: applyCommitted_take_shape)
next
  case (EvSendAppendEntries peer)
  with assms sendAppendEntries_locked_shape [of r peer] show ?thesis
    by (auto split: prod.splits SendStep.splits)
next
  case (EvWaitSelect err pick ch index)
  with assms show ?thesis by (auto split: option.splits dest!: WaitForCommit_select_shape)
next
  case (EvWaitBegin index trm)
  with assms WaitForCommit_begin_shape [of r index trm] show ?thesis by auto
next
  case (EvSnapshot index data)
  with assms show ?thesis
    by (cases rule: takeSnapshot_cases [of index r ops data]) (auto simp: persistLocked_shape)
next
  case (EvAppendEntries args)
  with assms show ?thesis
    by (auto simp: HandleAppendEntries_locked_def Let_def split: if_splits)
qed (use assms in \<open>auto simp: HandleRequestVote_def handleVoteReply_def Start_locked_eq appended_def
    startElection_begin_def startElection_alone_def applyCommitted_deliver_def
    handleAppendEntriesReply_locked_def HandleInstallSnapshot_locked_def followLeader_def
    handleInstallSnapshotReply_def Stop_def Let_def split: if_splits option.splits\<close>)

text \<open>A node becomes leader in two sections only; all others keep a leader in its term or depose it.\<close>

fun leading_event :: "NodeEvent \<Rightarrow> bool" where
  "leading_event (EvVoteReply _ _ _) = True"
| "leading_event (EvStartElectionAlone _) = True"
| "leading_event _ = False"

lemma node_exec_leader:
  assumes "node_exec ops ev r = Some r'" and "\<not> leading_event ev" and "state r' = Leader"
  shows "state r = Leader \<and> currentTerm r' = currentTerm r"
proof (cases ev)
  case EvAdvanceCommit
  with assms show ?thesis by (cases ops r rule: advanceCommitIndex_locked_cases) auto
next
  case EvApplyTake
  with assms show ?thesis by (auto split: ApplyTake.splits dest!: applyCommitted_take_shape)
next
  case (EvSendAppendEntries peer)
  with assms sendAppendEntries_locked_shape [of r peer] show ?thesis
    by (auto split: prod.splits SendStep.splits)
next
  case (EvWaitSelect err pick ch index)
  with assms show ?thesis by (auto split: option.splits dest!: WaitForCommit_select_shape)
next
  case (EvWaitBegin index trm)
  with assms WaitForCommit_begin_shape [of r index trm] show ?thesis by auto
next
  case (EvSnapshot index data)
  with assms show ?thesis
    by (cases rule: takeSnapshot_cases [of index r ops data]) (auto simp: persistLocked_shape)
next
  case (EvAppendEntries args)
  with assms show ?thesis
    by (auto simp: HandleAppendEntries_locked_def Let_def split: if_splits)
qed (use assms in \<open>auto simp: HandleRequestVote_def Start_locked_eq appended_def
    startElection_begin_def applyCommitted_deliver_def
    handleAppendEntriesReply_locked_def HandleInstallSnapshot_locked_def
    handleInstallSnapshotReply_def Stop_def Let_def split: if_splits option.splits\<close>)

subsection \<open>The saved state is the current state\<close>

text \<open>
  \<open>synced_on f stored r\<close>: the store holds a state whose part \<open>f\<close> is that of the node, where \<open>stored\<close> says
  which state a store holds.  With the identity for \<open>f\<close> the whole persistent state is saved; with the
  ballot, its term and vote.
\<close>

definition synced_on ::
    "(PersistentState \<Rightarrow> 'p) \<Rightarrow> ('s \<Rightarrow> PersistentState \<Rightarrow> bool) \<Rightarrow> 's Raft \<Rightarrow> bool" where
  "synced_on f stored r \<longleftrightarrow> raft_log r \<noteq> [] \<and>
     (\<exists>ps. stored (storage r) ps \<and> f ps = f (persistentState r))"

abbreviation loads :: "'s StorageOps \<Rightarrow> 's \<Rightarrow> PersistentState \<Rightarrow> bool" where
  "loads ops \<equiv> (\<lambda>s ps. Load ops s = Inr ps)"

abbreviation synced :: "'s StorageOps \<Rightarrow> 's Raft \<Rightarrow> bool" where
  "synced ops \<equiv> synced_on (\<lambda>ps. ps) (loads ops)"

lemma synced_cong:
  assumes "synced_on f stored r" and "storage r' = storage r" and "persistentState r' = persistentState r"
  shows "synced_on f stored r'"
  using assms by (auto simp: synced_on_def persistentState_def)

definition holds_some :: "('s \<Rightarrow> PersistentState \<Rightarrow> bool) \<Rightarrow> 's \<Rightarrow> bool" where
  "holds_some stored s \<longleftrightarrow> (\<exists>ps. stored s ps)"

lemma syncedD:
  assumes "synced_on f stored r"
  shows "raft_log r \<noteq> []" and "holds_some stored (storage r)"
  using assms by (auto simp: synced_on_def holds_some_def)

text \<open>
  A storage whose saves do not fail: once it holds a state, it holds every state that is saved.  The
  node ignores the errors of most saves, so durability is promised for such a storage only.
\<close>

locale reliable_storage =
  fixes ops :: "'s StorageOps" and stored :: "'s \<Rightarrow> PersistentState \<Rightarrow> bool"
  assumes save_stores: "stored s ps \<Longrightarrow> ps_Log st \<noteq> [] \<Longrightarrow> stored (snd (Save ops s st)) st"
begin

lemma persist_synced:
  "raft_log r \<noteq> [] \<Longrightarrow> holds_some stored (storage r) \<Longrightarrow> synced_on f stored (persist ops r)"
  using save_stores [of "storage r" _ "persistentState r"]
  by (auto simp: synced_on_def holds_some_def persist_eq persistentState_def)

lemma becomeFollower_synced:
  "raft_log r \<noteq> [] \<Longrightarrow> holds_some stored (storage r) \<Longrightarrow> synced_on f stored (becomeFollowerLocked ops t r)"
  by (simp add: becomeFollowerLocked_def Let_def persist_synced)

lemma followLeader_synced: "synced_on f stored r \<Longrightarrow> synced_on f stored (followLeader ops t l r)"
proof -
  assume sync: "synced_on f stored r"
  note live = syncedD [OF sync]
  from sync live have "synced_on f stored (if t > currentTerm r then becomeFollowerLocked ops t r
      else if state r \<noteq> Follower then persist ops (r\<lparr>state := Follower\<rparr>) else r)"
    by (simp add: becomeFollower_synced persist_synced)
  then show ?thesis
    unfolding followLeader_def Let_def
    by (rule synced_cong) (simp_all add: persistentState_def)
qed

lemma appendLoop_synced: "synced_on f stored r \<Longrightarrow> synced_on f stored (appendLoop ops prev i es r)"
  using syncedD [of f stored r]
  by (induction es arbitrary: i) (auto simp: Let_def intro: persist_synced)

lemma HandleAppendEntries_synced:
  assumes "synced_on f stored r"
  shows "synced_on f stored (fst (snd (HandleAppendEntries_locked ops r args)))"
proof -
  let ?r1 = "followLeader ops (aea_Term args) (aea_LeaderID args) r"
  let ?r2 = "appendLoop ops (aea_PrevLogIndex args) 0 (aea_Entries args) ?r1"
  have s1: "synced_on f stored ?r1" using assms by (rule followLeader_synced)
  then have s2: "synced_on f stored ?r2" by (rule appendLoop_synced)
  from syncedD [OF s2] have "synced_on f stored (persist ops (?r2\<lparr>commitIndex := c\<rparr>))" for c
    by (simp add: persist_synced)
  with assms s1 s2 show ?thesis
    by (auto simp: HandleAppendEntries_locked_def Let_def)
qed

lemma HandleInstallSnapshot_synced:
  assumes "synced_on f stored r"
  shows "synced_on f stored (fst (snd (HandleInstallSnapshot_locked ops r args)))"
proof -
  note follow = followLeader_synced [OF assms, of "isa_Term args" "isa_LeaderID args"]
  from assms follow syncedD [OF follow] show ?thesis
    by (auto simp: HandleInstallSnapshot_locked_def Let_def persist_synced)
qed

lemma takeSnapshot_synced: "synced_on f stored r \<Longrightarrow> synced_on f stored (snd (takeSnapshot ops r index data))"
  using syncedD [of f stored r]
  by (cases rule: takeSnapshot_cases [of index r ops data]) (simp_all add: persistLocked_shape persist_synced)

lemma HandleRequestVote_synced:
  assumes "synced_on f stored r"
  shows "synced_on f stored (snd (HandleRequestVote ops r args))"
proof -
  note log = syncedD [OF assms]
  have "synced_on f stored (resetElectionTimerLocked (persist ops (r'\<lparr>votedFor := c\<rparr>)))"
    if "raft_log r' \<noteq> []" "holds_some stored (storage r')" for r' c
    using that by (intro synced_cong [OF persist_synced [of "r'\<lparr>votedFor := c\<rparr>"]])
      (simp_all add: persistentState_def)
  with assms log show ?thesis
    using syncedD [OF becomeFollower_synced [OF log]]
    by (simp add: HandleRequestVote_def Let_def becomeFollower_synced)
qed

lemma node_exec_synced:
  assumes exec: "node_exec ops ev r = Some r'" and sync: "synced_on f stored r"
  shows "synced_on f stored r'"
proof -
  note log = syncedD [OF sync]
  note cong = synced_cong [OF sync, unfolded persistentState_def]
  note here = persist_synced becomeFollower_synced
  show ?thesis
  proof (cases ev)
    case EvAdvanceCommit
    with exec sync log show ?thesis
      by (cases ops r rule: advanceCommitIndex_locked_cases) (auto simp: here)
  next
    case EvApplyTake
    with exec sync log show ?thesis
      by (auto split: ApplyTake.splits dest!: applyCommitted_take_shape intro: cong)
  next
    case (EvSendAppendEntries peer)
    with exec sync log sendAppendEntries_locked_shape [of r peer] show ?thesis
      by (auto split: prod.splits SendStep.splits intro: cong)
  next
    case (EvWaitSelect err pick ch index)
    with exec sync log show ?thesis
      by (auto split: option.splits dest!: WaitForCommit_select_shape intro: cong)
  next
    case (EvWaitBegin index trm)
    with exec sync log WaitForCommit_begin_shape [of r index trm] show ?thesis
      by (auto intro: cong)
  next
    case EvStartElection
    with exec sync log show ?thesis
      by (auto simp: startElection_begin_def Let_def here split: option.splits if_splits)
  next
    case (EvStart cmd)
    with exec sync log show ?thesis by (auto simp: Start_locked_eq here appended_def split: if_splits)
  next
    case (EvVoteReply trm reply votes)
    with exec sync log show ?thesis
      by (auto simp: handleVoteReply_def Let_def here intro: cong split: if_splits)
  next
    case (EvAppendReply peer args reply)
    with exec sync log show ?thesis
      by (auto simp: handleAppendEntriesReply_locked_def Let_def here intro: cong split: if_splits)
  qed (use exec sync log in \<open>auto simp: HandleRequestVote_synced HandleAppendEntries_synced
      HandleInstallSnapshot_synced takeSnapshot_synced startElection_alone_def
      applyCommitted_deliver_def handleInstallSnapshotReply_def Stop_def Let_def here
      intro: cong split: if_splits option.splits\<close>)
qed

lemma node_run_synced: "node_run ops evs r = Some r' \<Longrightarrow> synced_on f stored r \<Longrightarrow> synced_on f stored r'"
  by (induction evs arbitrary: r) (auto split: option.splits dest: node_exec_synced)

end

interpretation mems: reliable_storage memory_ops "loads memory_ops"
  by unfold_locales auto

text \<open>
  A file store none of whose coming system calls fails: its file is the encoding of the state, or there
  is no save yet and it is what the next load returns.
\<close>

definition file_holds :: "FileStorage \<Rightarrow> PersistentState \<Rightarrow> bool" where
  "file_holds f ps \<longleftrightarrow> fs_faults f = [] \<and>
     (fs_files f (fs_path f) = Content (MarshalState ps) \<or> Load file_ops f = Inr ps)"

lemma file_save_holds: "fs_faults f = [] \<Longrightarrow> file_holds (snd (Save file_ops f st)) st"
  by (simp add: file_holds_def file_ops_def FileStorage_Save_def Let_def)

interpretation faultless: reliable_storage file_ops file_holds
proof unfold_locales
  fix f :: FileStorage and ps st
  assume "file_holds f ps"
  then have "fs_faults f = []" by (simp add: file_holds_def)
  then show "file_holds (snd (Save file_ops f st)) st" by (rule file_save_holds)
qed

lemma file_holds_load:
  assumes "file_holds f ps" and "state_ok ps" and "ps_Log ps \<noteq> []"
  shows "Load file_ops f = Inr ps"
  using assms by (auto simp: file_holds_def file_ops_def FileStorage_Load_def UnmarshalState_MarshalState)

subsection \<open>Restarting from the saved state\<close>

text \<open>The sentinel carries the term of the snapshot.\<close>

definition sentinel_ok :: "'s Raft \<Rightarrow> bool" where
  "sentinel_ok r \<longleftrightarrow> snap_LastIncludedIndex (snapshot r) > 0 \<longrightarrow>
     le_Term (raft_log r ! 0) = snap_LastIncludedTerm (snapshot r)"

lemma NewRaft_restart:
  assumes "synced ops r" and "raft_inv r" and "sentinel_ok r"
    and "cfg_ID cfg = raft_id r" and "raft_id r \<noteq> []" and "cfg_Storage cfg = Some (storage r)"
  obtains r' where "NewRaft ops newMem cfg = Inr r'"
    and "persistentState r' = persistentState r" and "logOffset r' = logOffset r"
    and "lastApplied r' = logOffset r" and "state r' = Follower" and "raft_id r' = raft_id r"
    and "applyCh r' = []"
proof -
  have load: "Load ops (case cfg_Storage cfg of None \<Rightarrow> newMem | Some s \<Rightarrow> s) = Inr (persistentState r)"
    using assms by (simp add: synced_on_def)
  have "NewRaft ops newMem cfg \<noteq> Inl e" for e
    using assms load by (simp add: NewRaft_def Let_def)
  then obtain r' where new: "NewRaft ops newMem cfg = Inr r'"
    by (cases "NewRaft ops newMem cfg") auto
  from NewRaft_fields [OF new] obtain ps where
    ps: "Load ops (case cfg_Storage cfg of None \<Rightarrow> newMem | Some s \<Rightarrow> s) = Inr ps"
    and f: "raft_log r' = initialLog ps" "logOffset r' = snap_LastIncludedIndex (ps_Snapshot ps)"
      "commitIndex r' = min (max (ps_CommitIndex ps) (logOffset r')) (lastLogIndex r')"
      "lastApplied r' = min (max 0 (logOffset r')) (commitIndex r')"
      "currentTerm r' = ps_CurrentTerm ps" "votedFor r' = ps_VotedFor ps"
      "snapshot r' = ps_Snapshot ps" "state r' = Follower" "raft_id r' = cfg_ID cfg" "applyCh r' = []"
    by metis
  have ps_eq: "ps = persistentState r" using load ps by simp
  note inv = raft_invD [OF assms(2)]
  have log: "raft_log r' = raft_log r"
    using inv(1) assms(3) by (auto simp: f(1) ps_eq initialLog_def persistentState_def sentinel_ok_def Let_def)
  have off: "logOffset r' = logOffset r" using f(2) inv(3) by (simp add: ps_eq persistentState_def)
  have "lastLogIndex r' = lastLogIndex r" using log off by (simp add: lastLogIndex_def)
  with f(3) off inv have commit: "commitIndex r' = commitIndex r"
    by (simp add: ps_eq persistentState_def)
  show thesis
  proof (rule that [OF new])
    show "persistentState r' = persistentState r"
      using f log commit by (simp add: ps_eq persistentState_def)
    show "lastApplied r' = logOffset r" using f(4) off commit inv by simp
  qed (use f off assms(4) in simp_all)
qed

subsection \<open>The order of the indices\<close>

text \<open>
  A message respects the committed prefix when it does not contradict it: the entries it carries for
  committed indices have the terms the node has there, and a snapshot covers everything committed.
\<close>

definition respectsCommitted :: "'s Raft \<Rightarrow> AppendEntriesArgs \<Rightarrow> bool" where
  "respectsCommitted r args \<longleftrightarrow>
     (\<forall>i < length (aea_Entries args). aea_PrevLogIndex args + 1 + int i \<le> commitIndex r \<longrightarrow>
        termAt r (aea_PrevLogIndex args + 1 + int i) = le_Term (aea_Entries args ! i))"

fun safe_event :: "'s Raft \<Rightarrow> NodeEvent \<Rightarrow> bool" where
  "safe_event r (EvAppendEntries args) = respectsCommitted r args"
| "safe_event r (EvInstallSnapshot args) =
     (isa_LastIncludedIndex args \<le> snap_LastIncludedIndex (snapshot r) \<or>
      commitIndex r \<le> isa_LastIncludedIndex args)"
| "safe_event r ev = True"

lemma mergeTail_keeps_prefix:
  assumes "\<forall>i < n. i < length es \<longrightarrow> le_Term (ls ! i) = le_Term (es ! i)" and "n \<le> length ls"
  shows "take n (mergeTail ls es) = take n ls \<and> n \<le> length (mergeTail ls es)"
  using assms
proof (induction ls es arbitrary: n rule: mergeTail.induct)
  case (3 l ls e es)
  show ?case
  proof (cases n)
    case (Suc m)
    with "3.prems" have eq: "le_Term l = le_Term e" by fastforce
    have "\<forall>i < m. i < length es \<longrightarrow> le_Term (ls ! i) = le_Term (es ! i)"
      using "3.prems"(1) Suc by fastforce
    with "3.IH" [of m] eq "3.prems" Suc show ?thesis by simp
  qed simp
qed simp_all

lemma mergedLog_keeps_committed:
  assumes inv: "raft_inv r" and acc: "acceptsAppend r args" and safe: "respectsCommitted r args"
  shows "take (nat (commitIndex r - logOffset r) + 1) (mergedLog r (aea_PrevLogIndex args) (aea_Entries args))
       = take (nat (commitIndex r - logOffset r) + 1) (raft_log r)"
    and "nat (commitIndex r - logOffset r) + 1 \<le> length (mergedLog r (aea_PrevLogIndex args) (aea_Entries args))"
proof -
  let ?prev = "aea_PrevLogIndex args" and ?es = "aea_Entries args" and ?L = "raft_log r"
  let ?k = "nat (?prev + 1 - logOffset r)" and ?c = "nat (commitIndex r - logOffset r) + 1"
  note i = raft_invD [OF inv]
  have k: "?k \<le> length ?L" and off: "logOffset r \<le> ?prev"
    using acc by (auto simp: acceptsAppend_def lastLogIndex_def)
  have c: "?c \<le> length ?L" using i by (simp add: lastLogIndex_def)
  have tail: "take (?c - ?k) (mergeTail (drop ?k ?L) ?es) = take (?c - ?k) (drop ?k ?L) \<and>
      ?c - ?k \<le> length (mergeTail (drop ?k ?L) ?es)"
  proof (rule mergeTail_keeps_prefix)
    show "\<forall>j < ?c - ?k. j < length ?es \<longrightarrow> le_Term (drop ?k ?L ! j) = le_Term (?es ! j)"
    proof (intro allI impI)
      fix j assume j: "j < ?c - ?k" "j < length ?es"
      then have le: "?prev + 1 + int j \<le> commitIndex r" using i off by simp
      then have "termAt r (?prev + 1 + int j) = le_Term (?es ! j)"
        using safe j by (simp add: respectsCommitted_def)
      moreover have "nat (?prev + 1 + int j - logOffset r) = ?k + j" using off by simp
      ultimately show "le_Term (drop ?k ?L ! j) = le_Term (?es ! j)"
        using off le i k by (simp add: termAt_in_range)
    qed
  qed (use c in simp)
  show "take ?c (mergedLog r ?prev ?es) = take ?c ?L" and "?c \<le> length (mergedLog r ?prev ?es)"
  proof -
    have "take ?c (mergedLog r ?prev ?es) = take ?c (take ?k ?L) @ take (?c - ?k) (drop ?k ?L)"
      using tail k by (simp add: mergedLog_def Let_def)
    also have "\<dots> = take ?c (take ?k ?L @ drop ?k ?L)" using k by (simp only: take_append) simp
    finally show "take ?c (mergedLog r ?prev ?es) = take ?c ?L" by simp
    show "?c \<le> length (mergedLog r ?prev ?es)"
      using tail k by (simp add: mergedLog_def Let_def) linarith
  qed
qed

lemma HandleAppendEntries_inv:
  assumes inv: "raft_inv r" and safe: "respectsCommitted r args"
  shows "raft_inv (fst (snd (HandleAppendEntries_locked ops r args)))"
proof -
  obtain reply r' ap where eq: "HandleAppendEntries_locked ops r args = (reply, r', ap)"
    by (cases "HandleAppendEntries_locked ops r args") auto
  show ?thesis
  proof (cases "acceptsAppend r args")
    case True
    note f = HandleAppendEntries_accepted [OF eq True]
    note i = raft_invD [OF inv]
    have "commitIndex r \<le> lastLogIndex r'" "raft_log r' \<noteq> []"
      using mergedLog_keeps_committed(2) [OF inv True safe] i f(6,7) by (auto simp: lastLogIndex_def)
    with f i eq show ?thesis by (auto simp: raft_inv_def)
  next
    case False
    then show ?thesis
      using inv by (auto simp: HandleAppendEntries_locked_def acceptsAppend_def Let_def raft_inv_def)
  qed
qed

lemma takeSnapshot_inv: "raft_inv r \<Longrightarrow> raft_inv (snd (takeSnapshot ops r index data))"
proof (rule takeSnapshot_cases [of index r ops data])
  assume inv: "raft_inv r" and idx: "logOffset r < index" "index \<le> commitIndex r" "index \<le> lastLogIndex r"
    and eq: "takeSnapshot ops r index data = persistLocked ops
         (r\<lparr>raft_log := sentinel (termAt r index) # drop (nat (index + 1 - logOffset r)) (raft_log r),
            logOffset := index,
            snapshot := \<lparr>snap_LastIncludedIndex = index, snap_LastIncludedTerm = termAt r index, snap_Data = data\<rparr>,
            lastApplied := max (lastApplied r) index,
            notifyCh := filter (\<lambda>p. \<not> fst p \<le> index) (notifyCh r),
            closedChs := map snd (filter (\<lambda>p. fst p \<le> index) (notifyCh r)) @ closedChs r\<rparr>)"
  let ?r' = "snd (takeSnapshot ops r index data)"
  have "lastLogIndex ?r' = lastLogIndex r"
    using idx by (intro compacted_log(1) [of r index]) (simp_all add: eq persistLocked_shape)
  with inv idx raft_invD(2) [OF inv] show ?thesis
    by (simp add: raft_inv_def eq persistLocked_shape)
qed simp_all

lemma HandleInstallSnapshot_inv:
  assumes "raft_inv r" and "safe_event r (EvInstallSnapshot args)"
  shows "raft_inv (fst (snd (HandleInstallSnapshot_locked ops r args)))"
  using assms
  by (auto simp: HandleInstallSnapshot_locked_def Let_def raft_inv_def lastLogIndex_def)

lemma node_exec_inv:
  assumes exec: "node_exec ops ev r = Some r'" and inv: "raft_inv r" and safe: "safe_event r ev"
  shows "raft_inv r'"
proof -
  note cong = raft_inv_cong [THEN iffD2, OF _ _ _ _ _ inv]
  note i = raft_invD [OF inv]
  show ?thesis
  proof (cases ev)
    case EvAdvanceCommit
    with exec inv i show ?thesis
      by (cases ops r rule: advanceCommitIndex_locked_cases) (auto simp: raft_inv_def)
  next
    case EvApplyTake
    show ?thesis
    proof (cases "applyCommitted_take r")
      case (ApplyNext r1 e ch)
      with EvApplyTake exec i applyCommitted_take_shape [OF ApplyNext] applyCommitted_take_next(1) [OF ApplyNext]
      show ?thesis by (auto simp: raft_inv_def)
    qed (use EvApplyTake exec inv in simp_all)
  next
    case (EvSendAppendEntries peer)
    with exec inv sendAppendEntries_locked_shape [of r peer] show ?thesis
      by (auto split: prod.splits SendStep.splits intro: cong)
  next
    case (EvWaitSelect err pick ch index)
    with exec inv show ?thesis
      by (auto split: option.splits dest!: WaitForCommit_select_shape intro: cong)
  next
    case (EvWaitBegin index trm)
    with exec WaitForCommit_begin_shape [of r index trm] show ?thesis
      by (auto intro: cong)
  next
    case EvStartElection
    with exec inv show ?thesis
      by (auto simp: startElection_begin_def Let_def intro: cong split: option.splits if_splits)
  next
    case (EvStart cmd)
    with exec inv show ?thesis
      by (auto simp: Start_locked_eq appended_def raft_inv_def lastLogIndex_def split: if_splits)
  qed (use exec inv safe in \<open>auto simp: HandleAppendEntries_inv HandleInstallSnapshot_inv
      takeSnapshot_inv startElection_alone_def frame_simps
      applyCommitted_deliver_def handleInstallSnapshotReply_def Stop_def Let_def
      handleVoteReply_def handleAppendEntriesReply_locked_def
      intro: cong split: if_splits option.splits\<close>)
qed

text \<open>In order, the indices keep the apply loop inside the log.\<close>

lemma raft_inv_apply_total:
  assumes "raft_inv r"
  shows "\<exists>r'. applyCommitted r = Some r' \<and> raft_inv r' \<and> lastApplied r' = commitIndex r"
proof -
  note i = raft_invD [OF assms]
  from applyCommitted_total [of r] i obtain r' where r': "applyCommitted r = Some r'"
      "lastApplied r' = max (lastApplied r) (commitIndex r)" by auto
  with applyCommitted_frame [OF r'(1)] i have "raft_inv r'"
    by (simp add: raft_inv_def lastLogIndex_def)
  with r' i show ?thesis by auto
qed

end
