(* ===== verification/Raft_Cluster.thy ===== *)
theory Raft_Cluster
  imports Raft_Invariants
begin

text \<open>
  A cluster of Raft nodes over an unreliable network.  Every RPC request and reply ever sent stays in
  \<open>msgs\<close>, so that a message may be delivered late, several times, out of order or never.  The vote
  goroutines of an election share a counter and process one reply each: \<open>pending\<close> holds the goroutines
  still waiting, as triples of candidate, term and peer, and \<open>votes\<close> the counters.  \<open>started\<close> is a
  history variable that remembers which elections were begun.

  An event is one critical section of one node, or the crash of a node followed by its restart from
  its storage.  \<open>cluster_exec\<close> says whether the event can happen and what it does; its argument
  \<open>compact\<close> says whether the nodes take and install snapshots.
\<close>

type_synonym mraft = "MemoryStorage Raft"

datatype Msg =
    VoteReq node_id RequestVoteArgs
  | VoteRep node_id int node_id RequestVoteReply
  | AppendReq node_id AppendEntriesArgs
  | AppendRep node_id AppendEntriesArgs AppendEntriesReply
  | SnapReq node_id InstallSnapshotArgs
  | SnapRep node_id InstallSnapshotArgs InstallSnapshotReply

record cluster =
  nodes :: "node_id \<Rightarrow> mraft"
  msgs :: "Msg list"
  pending :: "(node_id \<times> int \<times> node_id) list"
  votes :: "node_id \<times> int \<Rightarrow> int"
  started :: "(node_id \<times> int) list"

datatype ClusterEvent =
    Timeout node_id
  | AloneElected node_id int
  | DeliverVoteReq node_id RequestVoteArgs
  | DeliverVoteRep node_id int node_id RequestVoteReply
  | ClientStart node_id bytes
  | AdvanceCommit node_id
  | SendAppend node_id node_id
  | DeliverAppendReq node_id AppendEntriesArgs
  | DeliverAppendRep node_id AppendEntriesArgs AppendEntriesReply
  | Local node_id NodeEvent
  | CrashRestart node_id
  | TakeSnapshot node_id int bytes
  | DeliverSnapReq node_id InstallSnapshotArgs
  | DeliverSnapRep node_id InstallSnapshotArgs InstallSnapshotReply

text \<open>The sections of a node that no message takes part in.\<close>

fun local_event :: "NodeEvent \<Rightarrow> bool" where
  "local_event EvApplyTake = True"
| "local_event (EvApplyDeliver _ _) = True"
| "local_event (EvSnapshotDeliver _) = True"
| "local_event (EvWaitBegin _ _) = True"
| "local_event (EvWaitSelect _ _ _ _) = True"
| "local_event EvStop = True"
| "local_event _ = False"

text \<open>
  The configuration of a node of the cluster \<open>ids\<close>: all others are its peers, as
  \<^verbatim>\<open>server.NewServer\<close> and the cluster tests set them up.
\<close>

definition node_cfg :: "node_id list \<Rightarrow> node_id \<Rightarrow> MemoryStorage option \<Rightarrow> MemoryStorage RaftConfig" where
  "node_cfg ids n st = \<lparr>cfg_ID = n, cfg_Peers = map (\<lambda>p. (p, [])) (filter (\<lambda>p. p \<noteq> n) ids),
     cfg_hasTransport = True, cfg_Storage = st, cfg_ElectionTimeout = 0, cfg_HeartbeatInterval = 0,
     cfg_Debug = False, cfg_Verbose = False\<rparr>"

definition boot :: "node_id list \<Rightarrow> node_id \<Rightarrow> MemoryStorage \<Rightarrow> mraft \<Rightarrow> mraft" where
  "boot ids n st dflt =
     (case NewRaft memory_ops NewMemoryStorage (node_cfg ids n (Some st)) of Inl _ \<Rightarrow> dflt | Inr r \<Rightarrow> r)"

definition init_cluster :: "node_id list \<Rightarrow> cluster" where
  "init_cluster ids =
     \<lparr>nodes = (\<lambda>n. boot ids n NewMemoryStorage undefined), msgs = [], pending = [],
      votes = (\<lambda>_. 0), started = []\<rparr>"

definition set_node :: "node_id \<Rightarrow> mraft \<Rightarrow> cluster \<Rightarrow> cluster" where
  "set_node n r s = s\<lparr>nodes := (nodes s)(n := r)\<rparr>"

definition send :: "Msg list \<Rightarrow> cluster \<Rightarrow> cluster" where
  "send ms s = s\<lparr>msgs := ms @ msgs s\<rparr>"

fun cluster_exec :: "bool \<Rightarrow> node_id list \<Rightarrow> ClusterEvent \<Rightarrow> cluster \<Rightarrow> cluster option" where
  "cluster_exec compact ids (Timeout n) s =
     (if n \<notin> set ids then None
      else case startElection_begin memory_ops (nodes s n) of
             None \<Rightarrow> None
           | Some (r, args) \<Rightarrow>
               let targets = (if quorumSize r = 1 then [] else map fst (peers r));
                   waiting = (if quorumSize r = 1 then [n] else map fst (peers r));
                   t = rva_Term args
               in Some (send (map (\<lambda>p. VoteReq p args) targets) (set_node n r s)
                    \<lparr>pending := map (\<lambda>p. (n, t, p)) waiting @ pending s,
                     votes := (votes s)((n, t) := 1),
                     started := (n, t) # started s\<rparr>))"
| "cluster_exec compact ids (AloneElected n t) s =
     (if (n, t, n) \<notin> set (pending s) then None
      else Some (set_node n (startElection_alone t (nodes s n)) s
             \<lparr>pending := filter (\<lambda>w. w \<noteq> (n, t, n)) (pending s)\<rparr>))"
| "cluster_exec compact ids (DeliverVoteReq p args) s =
     (if VoteReq p args \<notin> set (msgs s) then None
      else let (reply, r) = HandleRequestVote memory_ops (nodes s p) args
           in Some (send [VoteRep (rva_CandidateID args) (rva_Term args) p reply] (set_node p r s)))"
| "cluster_exec compact ids (DeliverVoteRep c t p reply) s =
     (if VoteRep c t p reply \<notin> set (msgs s) \<or> (c, t, p) \<notin> set (pending s) then None
      else let (v, r, _) = handleVoteReply memory_ops t reply (votes s (c, t)) (nodes s c)
           in Some (set_node c r s
                \<lparr>pending := filter (\<lambda>w. w \<noteq> (c, t, p)) (pending s), votes := (votes s)((c, t) := v)\<rparr>))"
| "cluster_exec compact ids (ClientStart n cmd) s =
     (if n \<notin> set ids then None
      else Some (set_node n (snd (Start_locked memory_ops (nodes s n) cmd)) s))"
| "cluster_exec compact ids (AdvanceCommit n) s =
     (if n \<notin> set ids then None
      else Some (set_node n (fst (advanceCommitIndex_locked memory_ops (nodes s n))) s))"
| "cluster_exec compact ids (SendAppend n p) s =
     (if n \<notin> set ids \<or> p \<notin> fst ` set (peers (nodes s n)) then None
      else case sendAppendEntries_locked (nodes s n) p of
             (CallAppendEntries args, r) \<Rightarrow> Some (send [AppendReq p args] (set_node n r s))
           | (GoInstallSnapshot, r) \<Rightarrow>
               (case sendInstallSnapshot_locked r of
                  Some args \<Rightarrow> Some (send [SnapReq p args] (set_node n r s))
                | None \<Rightarrow> Some (set_node n r s))
           | (NoSend, r) \<Rightarrow> Some (set_node n r s)
           | (SendPanic, r) \<Rightarrow> None)"
| "cluster_exec compact ids (DeliverAppendReq p args) s =
     (if AppendReq p args \<notin> set (msgs s) then None
      else let (reply, r, _) = HandleAppendEntries_locked memory_ops (nodes s p) args
           in Some (send [AppendRep p args reply] (set_node p r s)))"
| "cluster_exec compact ids (DeliverAppendRep p args reply) s =
     (let n = aea_LeaderID args
      in if AppendRep p args reply \<notin> set (msgs s) then None
         else Some (set_node n (fst (handleAppendEntriesReply_locked memory_ops p args reply (nodes s n))) s))"
| "cluster_exec compact ids (Local n ev) s =
     (if n \<notin> set ids \<or> \<not> local_event ev then None
      else case node_exec memory_ops ev (nodes s n) of None \<Rightarrow> None | Some r \<Rightarrow> Some (set_node n r s))"
| "cluster_exec compact ids (CrashRestart n) s =
     (if n \<notin> set ids then None
      else Some (set_node n (boot ids n (storage (nodes s n)) (nodes s n)) s
             \<lparr>pending := filter (\<lambda>w. fst w \<noteq> n) (pending s)\<rparr>))"
| "cluster_exec compact ids (TakeSnapshot n index data) s =
     (if n \<notin> set ids \<or> \<not> compact then None
      else Some (set_node n (snd (takeSnapshot memory_ops (nodes s n) index data)) s))"
| "cluster_exec compact ids (DeliverSnapReq p args) s =
     (if SnapReq p args \<notin> set (msgs s) then None
      else let (reply, r, _) = HandleInstallSnapshot_locked memory_ops (nodes s p) args
           in Some (send [SnapRep p args reply] (set_node p r s)))"
| "cluster_exec compact ids (DeliverSnapRep p args reply) s =
     (let n = isa_LeaderID args
      in if SnapRep p args reply \<notin> set (msgs s) then None
         else Some (set_node n (handleInstallSnapshotReply memory_ops p args reply (nodes s n)) s))"

text \<open>A cluster has distinct, non-empty node names.\<close>

definition valid_ids :: "node_id list \<Rightarrow> bool" where
  "valid_ids ids \<longleftrightarrow> distinct ids \<and> [] \<notin> set ids"

inductive reachable :: "bool \<Rightarrow> node_id list \<Rightarrow> cluster \<Rightarrow> bool" for compact ids where
  reach_init: "reachable compact ids (init_cluster ids)"
| reach_step: "reachable compact ids s \<Longrightarrow> cluster_exec compact ids ev s = Some s' \<Longrightarrow>
     reachable compact ids s'"

fun cluster_run :: "bool \<Rightarrow> node_id list \<Rightarrow> ClusterEvent list \<Rightarrow> cluster \<Rightarrow> cluster option" where
  "cluster_run compact ids [] s = Some s"
| "cluster_run compact ids (ev # evs) s =
     (case cluster_exec compact ids ev s of None \<Rightarrow> None | Some s' \<Rightarrow> cluster_run compact ids evs s')"

lemma cluster_run_reachable:
  "cluster_run compact ids evs s = Some s' \<Longrightarrow> reachable compact ids s \<Longrightarrow> reachable compact ids s'"
  by (induction evs arbitrary: s) (auto split: option.splits intro: reach_step)

end
