(* ===== verification/Raft_Properties.thy ===== *)
theory Raft_Properties
  imports Raft_Cluster
begin

text \<open>
  The properties of one Raft node: what a vote, an accepted append, a commit, a snapshot and a restart
  mean, each for every state of the node and with a concrete instance.
\<close>

subsection \<open>Concrete nodes\<close>

text \<open>A cluster of three, its first node after the election of term 1 and a command.\<close>

definition trio :: "node_id list" where
  "trio = [''n1'', ''n2'', ''n3'']"

definition fresh :: "node_id \<Rightarrow> mraft" where
  "fresh n = boot trio n NewMemoryStorage undefined"

definition vote_yes :: RequestVoteReply where
  "vote_yes = \<lparr>rvr_Term = 1, rvr_VoteGranted = True\<rparr>"

definition lead_one :: "NodeEvent list" where
  "lead_one = [EvStartElection, EvVoteReply 1 vote_yes 1, EvStart ''a'']"

definition leader_one :: mraft where
  "leader_one = the (node_run memory_ops lead_one (fresh ''n1''))"

definition ask_vote :: "node_id \<Rightarrow> RequestVoteArgs" where
  "ask_vote c = \<lparr>rva_Term = 1, rva_CandidateID = c, rva_LastLogIndex = 0, rva_LastLogTerm = 0\<rparr>"

definition append_a :: AppendEntriesArgs where
  "append_a = \<lparr>aea_Term = 1, aea_LeaderID = ''n1'', aea_PrevLogIndex = 0, aea_PrevLogTerm = 0,
     aea_Entries = [\<lparr>le_Term = 1, le_Command = ''a''\<rparr>], aea_LeaderCommit = 1\<rparr>"

subsection \<open>Voting\<close>

text \<open>
  A vote is granted exactly when the request is not of an older term, the node has no vote for
  another candidate in that term, and the candidate's log is at least as up to date in the order of
  log positions.  Whatever the answer, the node ends in the later of the two terms, its log and commit
  index stay as they were, and the reply carries its final term.
\<close>

lemma request_vote_decision:
  "HandleRequestVote ops r args = (reply, r') \<Longrightarrow>
     (rvr_VoteGranted reply \<longleftrightarrow>
        currentTerm r \<le> rva_Term args \<and>
        (currentTerm r < rva_Term args \<or> votedFor r = [] \<or> votedFor r = rva_CandidateID args) \<and>
        lastPos r \<le> LogPos (rva_LastLogTerm args) (rva_LastLogIndex args)) \<and>
     currentTerm r' = max (currentTerm r) (rva_Term args) \<and> rvr_Term reply = currentTerm r' \<and>
     (rvr_VoteGranted reply \<longrightarrow> votedFor r' = rva_CandidateID args) \<and>
     raft_log r' = raft_log r \<and> logOffset r' = logOffset r \<and> commitIndex r' = commitIndex r \<and>
     (currentTerm r < currentTerm r' \<longrightarrow> state r' = Follower)"
  by (auto simp: HandleRequestVote_def Let_def isUpToDate_order lastPos_def split: if_splits)

text \<open>
  A node votes for one candidate per term: if it grants a vote, then runs any sequence of critical
  sections (other requests, elections, appends, snapshots, with any contents), and then grants a vote
  of the same term again, the candidate is the same.
\<close>

lemma one_vote_per_term:
  assumes "HandleRequestVote ops r a = (reply, r1)" and "rvr_VoteGranted reply"
    and "node_run ops evs r1 = Some r2"
    and "HandleRequestVote ops r2 b = (reply', r3)" and "rvr_VoteGranted reply'"
    and "rva_Term b = rva_Term a" and "rva_CandidateID a \<noteq> []"
  shows "rva_CandidateID b = rva_CandidateID a"
proof -
  have "ballot_le r1 r3"
    using node_run_ballot [OF assms(3)] HandleRequestVote_ballot [of r2 ops b] assms(4)
    by (auto intro: ballot_le_trans)
  with HandleRequestVote_granted(2,3) [OF assms(1,2)] HandleRequestVote_granted(2,3) [OF assms(4,5)] assms(6,7)
  show ?thesis by (simp add: ballot_le_def)
qed

subsection \<open>Replication\<close>

text \<open>
  C11.  \<^verbatim>\<open>HandleAppendEntries\<close> answers success exactly when the request is of a current term and its
  previous entry is in the log with the given term.  Then the log is the merge of the old log and the
  message after that entry, the node follows the sender in its term, and the commit index becomes the
  leader's, but never past the end of the log.  Otherwise log and commit index do not change and
  nothing is applied.
\<close>

theorem append_entries_behaviour:
  assumes "HandleAppendEntries_locked ops r args = (reply, r', ap)"
  shows "(aer_Success reply \<longleftrightarrow> acceptsAppend r args) \<and>
     raft_log r' = (if acceptsAppend r args
       then mergedLog r (aea_PrevLogIndex args) (aea_Entries args) else raft_log r) \<and>
     commitIndex r' = (if acceptsAppend r args \<and> aea_LeaderCommit args > commitIndex r
       then min (aea_LeaderCommit args) (lastLogIndex r') else commitIndex r) \<and>
     (ap \<longleftrightarrow> acceptsAppend r args \<and> aea_LeaderCommit args > commitIndex r) \<and>
     (acceptsAppend r args \<longrightarrow> state r' = Follower \<and> currentTerm r' = aea_Term args \<and>
       leaderID r' = aea_LeaderID args \<and> aer_Term reply = aea_Term args) \<and>
     logOffset r' = logOffset r"
  using HandleAppendEntries_accepted [OF assms] HandleAppendEntries_rejected [OF assms]
  by (cases "acceptsAppend r args") simp_all

theorem append_entries_behaviour_witness:
  "raft_log (fst (snd (HandleAppendEntries_locked memory_ops (fresh ''n2'') append_a))) =
     [sentinel 0, \<lparr>le_Term = 1, le_Command = ''a''\<rparr>] \<and>
   commitIndex (fst (snd (HandleAppendEntries_locked memory_ops (fresh ''n2'') append_a))) = 1"
proof -
  obtain reply r' ap where eq: "HandleAppendEntries_locked memory_ops (fresh ''n2'') append_a = (reply, r', ap)"
    by (cases "HandleAppendEntries_locked memory_ops (fresh ''n2'') append_a")
  have "acceptsAppend (fresh ''n2'') append_a \<and>
      mergedLog (fresh ''n2'') (aea_PrevLogIndex append_a) (aea_Entries append_a) =
        [sentinel 0, \<lparr>le_Term = 1, le_Command = ''a''\<rparr>] \<and>
      aea_LeaderCommit append_a = 1 \<and> commitIndex (fresh ''n2'') = 0 \<and> logOffset (fresh ''n2'') = 0"
    by code_simp
  with append_entries_behaviour [OF eq] eq show ?thesis
    by (simp add: lastLogIndex_def)
qed

lemma mergedLog_grows:
  assumes off: "logOffset r \<le> prev" "prev \<le> lastLogIndex r"
    and same: "\<forall>j < length es. prev + 1 + int j \<le> lastLogIndex r \<longrightarrow>
      termAt r (prev + 1 + int j) = le_Term (es ! j)"
  shows "length (raft_log r) \<le> length (mergedLog r prev es)"
proof -
  let ?k = "nat (prev + 1 - logOffset r)"
  let ?tail = "drop ?k (raft_log r)"
  have k: "?k \<le> length (raft_log r)" using off by (simp add: lastLogIndex_def)
  have "le_Term (?tail ! j) = le_Term (es ! j)" if j: "j < min (length ?tail) (length es)" for j
  proof -
    have "nat (prev + 1 + int j - logOffset r) = ?k + j" using off by simp
    moreover have "prev + 1 + int j \<le> lastLogIndex r"
      using j off unfolding lastLogIndex_def by simp linarith
    moreover from this have "termAt r (prev + 1 + int j) = le_Term (es ! j)" using same j by simp
    ultimately show ?thesis using j off k by (simp add: termAt_in_range)
  qed
  then have "mergeTail ?tail es = ?tail @ drop (length ?tail) es"
    by (intro mergeTail_no_conflict) blast
  with k show ?thesis by (simp add: mergedLog_def Let_def)
qed

lemma append_agreement:
  assumes "HandleAppendEntries_locked ops r args = (reply, r', ap)" and "aer_Success reply"
  shows "logOffset r \<le> i \<Longrightarrow> i \<le> aea_PrevLogIndex args \<Longrightarrow> entryAt r' i = entryAt r i"
    and "k < length (aea_Entries args) \<Longrightarrow>
        termAt r' (aea_PrevLogIndex args + 1 + int k) = le_Term (aea_Entries args ! k)"
    and "aea_PrevLogIndex args + int (length (aea_Entries args)) \<le> lastLogIndex r'"
proof -
  let ?prev = "aea_PrevLogIndex args" and ?es = "aea_Entries args"
  let ?n = "nat (?prev + 1 - logOffset r)"
  let ?m = "mergeTail (drop ?n (raft_log r)) ?es"
  have acc: "acceptsAppend r args"
    using assms HandleAppendEntries_rejected(1) [OF assms(1)] by blast
  note f = HandleAppendEntries_accepted(6,7) [OF assms(1) acc]
  have log: "raft_log r' = take ?n (raft_log r) @ ?m" using f(1) by (simp add: mergedLog_def Let_def)
  have off: "logOffset r \<le> ?prev" "?prev \<le> lastLogIndex r" using acc by (simp_all add: acceptsAppend_def)
  then have k: "?n \<le> length (raft_log r)" "int ?n = ?prev + 1 - logOffset r"
    by (simp_all add: lastLogIndex_def)
  have len: "length (raft_log r') = ?n + length ?m" using log k by simp
  show "entryAt r' i = entryAt r i" if "logOffset r \<le> i" "i \<le> ?prev"
    using that k by (simp add: entryAt_def f(2) log nth_append)
  show last: "?prev + int (length ?es) \<le> lastLogIndex r'"
    using mergeTail_length [of ?es "drop ?n (raft_log r)"] len k(2) by (simp add: lastLogIndex_def f(2))
  show "termAt r' (?prev + 1 + int k) = le_Term (?es ! k)" if "k < length ?es"
  proof -
    have "le_Term (?m ! k) = map le_Term (take (length ?es) ?m) ! k"
      using that mergeTail_length [of ?es "drop ?n (raft_log r)"] by simp
    also have "\<dots> = le_Term (?es ! k)" using that by (simp add: mergeTail_terms)
    finally have "le_Term (?m ! k) = le_Term (?es ! k)" .
    moreover have "nat (?prev + 1 + int k - logOffset r') = ?n + k" using off by (simp add: f(2))
    ultimately show ?thesis
      using that last off k by (subst termAt_in_range) (simp_all add: f(2) log nth_append)
  qed
qed

text \<open>
  After a successful append the follower agrees with the sender: everything up to the previous
  entry is untouched, every index the message covers has the term the message gives it, and where the
  log already agreed with the whole message it is not shortened.
\<close>

lemma append_entries_agreement:
  assumes "HandleAppendEntries_locked ops r args = (reply, r', ap)" and "aer_Success reply"
  shows "(\<forall>i. logOffset r \<le> i \<and> i \<le> aea_PrevLogIndex args \<longrightarrow> entryAt r' i = entryAt r i) \<and>
     (\<forall>k < length (aea_Entries args).
        termAt r' (aea_PrevLogIndex args + 1 + int k) = le_Term (aea_Entries args ! k)) \<and>
     aea_PrevLogIndex args + int (length (aea_Entries args)) \<le> lastLogIndex r' \<and>
     ((\<forall>k < length (aea_Entries args). aea_PrevLogIndex args + 1 + int k \<le> lastLogIndex r \<longrightarrow>
        termAt r (aea_PrevLogIndex args + 1 + int k) = le_Term (aea_Entries args ! k)) \<longrightarrow>
      lastLogIndex r \<le> lastLogIndex r')"
proof -
  have acc: "acceptsAppend r args"
    using assms HandleAppendEntries_rejected(1) [OF assms(1)] by blast
  note f = HandleAppendEntries_accepted(6,7) [OF assms(1) acc]
  have "lastLogIndex r \<le> lastLogIndex r'"
    if "\<forall>k < length (aea_Entries args). aea_PrevLogIndex args + 1 + int k \<le> lastLogIndex r \<longrightarrow>
          termAt r (aea_PrevLogIndex args + 1 + int k) = le_Term (aea_Entries args ! k)"
    using mergedLog_grows [OF _ _ that] acc unfolding lastLogIndex_def f
    by (simp add: acceptsAppend_def lastLogIndex_def)
  with append_agreement [OF assms] show ?thesis by blast
qed

text \<open>
  Duplicated and delayed requests are harmless: once a request was accepted, delivering it again,
  or an earlier version of it with fewer entries, leaves the log as it is.
\<close>

lemma append_entries_stale:
  assumes "acceptsAppend r args"
    and "HandleAppendEntries_locked ops r args = (reply, r1, ap)"
    and "acceptsAppend r1 args'" and "aea_PrevLogIndex args' = aea_PrevLogIndex args"
    and "aea_Entries args' = take n (aea_Entries args)"
    and "HandleAppendEntries_locked ops r1 args' = (reply', r2, ap')"
  shows "raft_log r2 = raft_log r1"
proof -
  let ?k = "nat (aea_PrevLogIndex args + 1 - logOffset r)"
  note f = HandleAppendEntries_accepted(6,7) [OF assms(2,1)]
  have k: "?k \<le> length (raft_log r)"
    using assms(1) by (auto simp: acceptsAppend_def lastLogIndex_def)
  have log: "raft_log r1 = take ?k (raft_log r) @ mergeTail (drop ?k (raft_log r)) (aea_Entries args)"
    using f(1) by (simp add: mergedLog_def Let_def)
  have "raft_log r2 = take ?k (raft_log r1) @ mergeTail (drop ?k (raft_log r1)) (take n (aea_Entries args))"
    using HandleAppendEntries_accepted(6) [OF assms(6,3)] assms(4,5) f(2) by (simp add: mergedLog_def Let_def)
  then show ?thesis using k by (simp add: log mergeTail_stale)
qed

subsection \<open>Commit and apply\<close>

text \<open>
  What the leader knows of the cluster: its members are the leader and its peers, and a member is known
  to store an index if it is the leader itself or if its match index has reached it.
\<close>

definition clusterIds :: "'s Raft \<Rightarrow> string set" where
  "clusterIds r = insert (raft_id r) (fst ` set (peers r))"

definition knownToStore :: "'s Raft \<Rightarrow> int \<Rightarrow> string set" where
  "knownToStore r idx = {n \<in> clusterIds r. n = raft_id r \<or> idx \<le> int_at (matchIndex r) n}"

definition commitCandidates :: "'s Raft \<Rightarrow> int set" where
  "commitCandidates r = {idx. commitIndex r < idx \<and> idx \<le> lastLogIndex r \<and> termAt r idx = currentTerm r \<and>
     card (clusterIds r) < 2 * card (knownToStore r idx)}"

lemma matchCount_card:
  assumes "distinct (map fst (peers r))" and "raft_id r \<notin> fst ` set (peers r)"
  shows "matchCount r idx = int (card (knownToStore r idx))"
    and "int (length (peers r)) + 1 = int (card (clusterIds r))"
proof -
  let ?ps = "filter (\<lambda>p. int_at (matchIndex r) (fst p) \<ge> idx) (peers r)"
  have "knownToStore r idx = insert (raft_id r) (set (map fst ?ps))"
    by (auto simp: knownToStore_def clusterIds_def)
  moreover have "distinct (map fst ?ps)" using assms(1) by (rule distinct_map_filter)
  moreover have "raft_id r \<notin> set (map fst ?ps)" using assms(2) by auto
  ultimately have "card (knownToStore r idx) = Suc (length (map fst ?ps))"
    using distinct_card by fastforce
  then show "matchCount r idx = int (card (knownToStore r idx))" by (simp add: matchCount_def)
  show "int (length (peers r)) + 1 = int (card (clusterIds r))"
    using assms distinct_card [OF assms(1)] by (simp add: clusterIds_def)
qed

lemma committable_card:
  assumes "distinct (map fst (peers r))" and "raft_id r \<notin> fst ` set (peers r)"
  shows "commitCandidates r = {idx. commitIndex r < idx \<and> idx \<le> lastLogIndex r \<and> committable r idx}"
  using matchCount_card [OF assms] by (auto simp: commitCandidates_def committable_def quorumSize_def)

text \<open>
  C10.  The commit loop computes Raft's commit rule.  On a leader the commit index moves to the greatest
  index above it, within the log, whose entry is of the leader's own term and which more than half of the
  members of the cluster are known to store: the leader itself and every peer whose match index has
  reached it.  The new index is saved.  Where there is no such index, or on a node that is not leader,
  nothing changes and nothing is saved.
\<close>

theorem commit_rule:
  assumes "distinct (map fst (peers r))" and "raft_id r \<notin> fst ` set (peers r)"
  shows "advanceCommitIndex_locked ops r =
     (if state r = Leader \<and> commitCandidates r \<noteq> {}
      then (persist ops (r\<lparr>commitIndex := Max (commitCandidates r)\<rparr>), True) else (r, False))"
proof (cases "state r = Leader")
  case leader: True
  note cands = committable_card [OF assms]
  have fin: "finite (commitCandidates r)"
    by (rule finite_subset [of _ "{commitIndex r..lastLogIndex r}"]) (auto simp: commitCandidates_def)
  show ?thesis
  proof (cases r rule: newCommitIndex_cases)
    case 1
    then have "commitCandidates r = {}" using newCommitIndex_greatest [of r] by (auto simp: cands)
    with 1 leader show ?thesis by (simp add: advanceCommitIndex_locked_eq)
  next
    case 2
    then have "newCommitIndex r \<in> commitCandidates r" by (simp add: cands)
    moreover have "idx \<le> newCommitIndex r" if "idx \<in> commitCandidates r" for idx
      using that newCommitIndex_greatest [of r idx] by (simp add: cands)
    ultimately have "Max (commitCandidates r) = newCommitIndex r" using fin by (intro Max_eqI) auto
    with 2 leader \<open>newCommitIndex r \<in> commitCandidates r\<close> show ?thesis
      by (auto simp: advanceCommitIndex_locked_eq)
  qed
qed (simp add: advanceCommitIndex_locked_def)

definition acked_one :: mraft where
  "acked_one = leader_one\<lparr>matchIndex := AList.update ''n2'' 1 (matchIndex leader_one)\<rparr>"

theorem commit_rule_witness:
  "commitIndex (fst (advanceCommitIndex_locked memory_ops acked_one)) = 1"
proof -
  have ids: "map fst (peers acked_one) = [''n2'', ''n3'']" by code_simp
  have f: "state acked_one = Leader" "commitIndex acked_one = 0" "lastLogIndex acked_one = 1"
      "termAt acked_one 1 = currentTerm acked_one" "raft_id acked_one = ''n1''"
      "int_at (matchIndex acked_one) ''n2'' = 1" "int_at (matchIndex acked_one) ''n3'' = 0"
    by code_simp+
  have set: "fst ` set (peers acked_one) = {''n2'', ''n3''}"
    unfolding set_map [symmetric] ids by simp
  have "knownToStore acked_one 1 = {''n1'', ''n2''}"
    by (auto simp: knownToStore_def clusterIds_def set f)
  then have "card (clusterIds acked_one) < 2 * card (knownToStore acked_one 1)"
    by (simp add: clusterIds_def set f(5))
  moreover have "{idx. 0 < idx \<and> idx \<le> 1 \<and> P idx} = {1}" if "P 1" for P :: "int \<Rightarrow> bool"
    using that by (auto dest: int_one_le_iff_zero_less [THEN iffD2] order_antisym)
  ultimately have "commitCandidates acked_one = {1}"
    unfolding commitCandidates_def f(2,3) using f(4) by blast
  moreover have "distinct (map fst (peers acked_one))" "raft_id acked_one \<notin> fst ` set (peers acked_one)"
    unfolding ids set f by simp_all
  ultimately show ?thesis using commit_rule [of acked_one memory_ops] f(1) by simp
qed

text \<open>
  C12.  If the commit index lies within the log and the first entry to apply is not compacted away, a run
  of the apply loop that no other goroutine disturbs terminates without a panic.  It delivers exactly the
  committed entries above the last applied one, once each, in log order and under their own index, wakes
  exactly the waiters of these indices, and leaves the rest of the node alone.
\<close>

theorem apply_delivers_committed:
  assumes "logOffset r \<le> lastApplied r + 1" and "commitIndex r \<le> lastLogIndex r"
  shows "\<exists>r'. applyCommitted r = Some r' \<and>
     applyCh r' = applyCh r @
       map (\<lambda>i. command_msg i (le_Command (entryAt r i))) [lastApplied r + 1..commitIndex r] \<and>
     lastApplied r' = max (lastApplied r) (commitIndex r) \<and>
     (\<forall>i. map_of (notifyCh r') i =
        (if lastApplied r < i \<and> i \<le> commitIndex r then None else map_of (notifyCh r) i)) \<and>
     set (closedChs r') = set (closedChs r) \<union>
        {c. \<exists>i. lastApplied r < i \<and> i \<le> commitIndex r \<and> map_of (notifyCh r) i = Some c} \<and>
     persistentState r' = persistentState r \<and> state r' = state r"
proof -
  from applyCommitted_total [OF assms] obtain r' where r': "applyCommitted r = Some r'"
    "applyCh r' = applyCh r @ applied_msgs r (lastApplied r + 1) (commitIndex r)"
    "lastApplied r' = max (lastApplied r) (commitIndex r)"
    "\<forall>i. map_of (notifyCh r') i =
        (if lastApplied r < i \<and> i \<le> commitIndex r then None else map_of (notifyCh r) i)"
    "set (closedChs r') = set (closedChs r) \<union>
        {c. \<exists>i. lastApplied r < i \<and> i \<le> commitIndex r \<and> map_of (notifyCh r) i = Some c}"
    by blast
  with applyCommitted_frame [OF r'(1)] show ?thesis
    by (intro exI [of _ r']) (simp add: applied_msgs_def persistentState_def)
qed

definition committed_one :: mraft where
  "committed_one = fst (advanceCommitIndex_locked memory_ops acked_one)"

theorem apply_delivers_committed_witness:
  "\<exists>r'. applyCommitted committed_one = Some r' \<and> applyCh r' = [command_msg 1 ''a'']"
proof -
  have "logOffset committed_one \<le> lastApplied committed_one + 1 \<and>
      commitIndex committed_one \<le> lastLogIndex committed_one \<and> applyCh committed_one = [] \<and>
      map (\<lambda>i. command_msg i (le_Command (entryAt committed_one i)))
        [lastApplied committed_one + 1..commitIndex committed_one] = [command_msg 1 ''a'']"
    by code_simp
  with apply_delivers_committed [of committed_one] show ?thesis by auto
qed

text \<open>
  A leader answers \<^verbatim>\<open>Start\<close> with the next free index and its term, and appends exactly that
  entry to the log and to the saved state; any other node refuses and changes nothing.
\<close>

lemma start_behaviour:
  "(state r \<noteq> Leader \<longrightarrow> Start_locked ops r cmd = ((-1, currentTerm r, False), r)) \<and>
   (state r = Leader \<longrightarrow>
      fst (Start_locked ops r cmd) = (lastLogIndex r + 1, currentTerm r, True) \<and>
      raft_log (snd (Start_locked ops r cmd)) = raft_log r @ [\<lparr>le_Term = currentTerm r, le_Command = cmd\<rparr>] \<and>
      map_of (notifyCh (snd (Start_locked ops r cmd))) (lastLogIndex r + 1) = Some (chanCount r) \<and>
      storage (snd (Start_locked ops r cmd)) =
        snd (Save ops (storage r) (persistentState r
          \<lparr>ps_Log := raft_log r @ [\<lparr>le_Term = currentTerm r, le_Command = cmd\<rparr>]\<rparr>)))"
  by (simp add: Start_locked_eq appended_def persist_def persistLocked_def persistentState_def
      split: prod.split)

subsection \<open>Runs of a node\<close>

text \<open>A run in which every delivered append and snapshot respects what is committed.\<close>

fun safe_run :: "'s StorageOps \<Rightarrow> NodeEvent list \<Rightarrow> 's Raft \<Rightarrow> bool" where
  "safe_run ops [] r = True"
| "safe_run ops (ev # evs) r =
     (safe_event r ev \<and> (case node_exec ops ev r of None \<Rightarrow> True | Some r' \<Rightarrow> safe_run ops evs r'))"

lemma node_run_inv: "node_run ops evs r = Some r' \<Longrightarrow> safe_run ops evs r \<Longrightarrow> raft_inv r \<Longrightarrow> raft_inv r'"
  by (induction evs arbitrary: r) (auto split: option.splits dest: node_exec_inv)

lemma mergedLog_head:
  assumes "acceptsAppend r args" and "raft_log r \<noteq> []"
  shows "mergedLog r (aea_PrevLogIndex args) es ! 0 = raft_log r ! 0"
  using assms by (simp add: acceptsAppend_def mergedLog_def Let_def nth_append)

lemma node_exec_sentinel:
  assumes "node_exec ops ev r = Some r'" and "sentinel_ok r" and "raft_log r \<noteq> []"
  shows "sentinel_ok r'"
proof (cases ev)
  case EvAdvanceCommit
  with assms show ?thesis
    by (cases ops r rule: advanceCommitIndex_locked_cases) (auto simp: sentinel_ok_def)
next
  case EvApplyTake
  with assms show ?thesis
    by (auto simp: sentinel_ok_def split: ApplyTake.splits dest!: applyCommitted_take_shape)
next
  case (EvSendAppendEntries peer)
  with assms sendAppendEntries_locked_shape [of r peer] show ?thesis
    by (auto simp: sentinel_ok_def split: prod.splits SendStep.splits)
next
  case (EvWaitSelect err pick ch index)
  with assms show ?thesis
    by (auto simp: sentinel_ok_def split: option.splits dest!: WaitForCommit_select_shape)
next
  case (EvWaitBegin index trm)
  with assms WaitForCommit_begin_shape [of r index trm] show ?thesis by (auto simp: sentinel_ok_def)
next
  case (EvSnapshot index data)
  with assms show ?thesis
    by (cases rule: takeSnapshot_cases [of index r ops data])
      (auto simp: persistLocked_shape sentinel_ok_def)
next
  case (EvAppendEntries args)
  obtain reply r1 ap where eq: "HandleAppendEntries_locked ops r args = (reply, r1, ap)"
    by (cases "HandleAppendEntries_locked ops r args")
  have "raft_log r1 ! 0 = raft_log r ! 0 \<and> snapshot r1 = snapshot r"
  proof (cases "acceptsAppend r args")
    case True
    then show ?thesis
      using HandleAppendEntries_accepted(6,11) [OF eq] mergedLog_head [OF True assms(3)] by simp
  next
    case False
    then show ?thesis using eq
      by (auto simp: HandleAppendEntries_locked_def acceptsAppend_def Let_def split: if_splits)
  qed
  with EvAppendEntries eq assms show ?thesis by (simp add: sentinel_ok_def)
qed (use assms in \<open>auto simp: sentinel_ok_def HandleRequestVote_def handleVoteReply_def Start_locked_eq
    appended_def startElection_begin_def startElection_alone_def applyCommitted_deliver_def nth_append
    handleAppendEntriesReply_locked_def HandleInstallSnapshot_locked_def
    handleInstallSnapshotReply_def Stop_def Let_def split: if_splits option.splits\<close>)

lemma node_run_sentinel:
  "node_run ops evs r = Some r' \<Longrightarrow> safe_run ops evs r \<Longrightarrow> raft_inv r \<Longrightarrow> sentinel_ok r \<Longrightarrow> sentinel_ok r'"
  by (induction evs arbitrary: r)
    (auto split: option.splits dest: node_exec_inv node_exec_sentinel raft_invD(1))

text \<open>
  C16.  A node that starts from a stored state and then runs any interleaving of its critical sections
  keeps its indices in order (offset, last applied, commit, end of log), as long as the appends and
  snapshots delivered to it respect its committed prefix; so at any point the apply loop can run to the
  commit index without a panic.
\<close>

theorem node_run_keeps_order:
  assumes "NewRaft ops newMem cfg = Inr r0" and "0 \<le> logOffset r0"
    and "node_run ops evs r0 = Some r" and "safe_run ops evs r0"
  shows "raft_inv r \<and> (\<exists>r'. applyCommitted r = Some r' \<and> lastApplied r' = commitIndex r)"
  using node_run_inv [OF assms(3,4) NewRaft_inv [OF assms(1,2)]] raft_inv_apply_total by blast

definition trio_cfg :: "MemoryStorage RaftConfig" where
  "trio_cfg = node_cfg trio ''n1'' None"

lemma trio_node: "NewRaft memory_ops NewMemoryStorage trio_cfg = Inr (fresh ''n1'')"
  by (simp add: fresh_def boot_def trio_cfg_def node_cfg_def NewRaft_def Let_def)

lemma lead_one_run: "node_run memory_ops lead_one (fresh ''n1'') = Some leader_one"
proof -
  have "node_run memory_ops lead_one (fresh ''n1'') \<noteq> None" by code_simp
  then show ?thesis by (auto simp: leader_one_def)
qed

theorem node_run_keeps_order_witness: "raft_inv leader_one"
proof -
  have "0 \<le> logOffset (fresh ''n1'')" and "safe_run memory_ops lead_one (fresh ''n1'')"
    by code_simp+
  with node_run_keeps_order [OF trio_node _ lead_one_run] show ?thesis by simp
qed

lemma NewRaft_sentinel:
  assumes "NewRaft ops newMem cfg = Inr r"
  shows "sentinel_ok r"
proof (rule NewRaft_fields [OF assms])
  fix ps
  assume "raft_log r = initialLog ps" and "snapshot r = ps_Snapshot ps"
  then show ?thesis by (auto simp: sentinel_ok_def initialLog_def Let_def neq_Nil_conv)
qed

text \<open>
  C15.  Durability over the file store.  A node comes up with what its file holds, a missing file
  included, and runs any interleaving of its critical sections in which no save fails and the appends
  and snapshots delivered to it respect its committed prefix.  If it crashes at any point between two
  critical sections, a node started again from the file has the same term, vote, log, commit index and
  snapshot; it is a follower and applies again from its snapshot on, and it may run and crash again.
  The state has to be one that the file format represents: 64-bit numbers and a valid vote.
\<close>

theorem restart_recovers:
  assumes "NewRaft file_ops newMem cfg = Inr r0" and "cfg_Storage cfg = Some fs0" and "fs_faults fs0 = []"
    and "Load file_ops fs0 = Inr (persistentState r0)" and "0 \<le> logOffset r0"
    and "node_run file_ops evs r0 = Some r" and "safe_run file_ops evs r0" and "state_ok (persistentState r)"
    and "cfg_ID cfg' = cfg_ID cfg" and "cfg_Storage cfg' = Some (storage r)"
  shows "\<exists>r'. NewRaft file_ops newMem' cfg' = Inr r' \<and> persistentState r' = persistentState r \<and>
     logOffset r' = logOffset r \<and> lastApplied r' = logOffset r \<and> state r' = Follower \<and>
     fs_faults (storage r) = [] \<and> Load file_ops (storage r) = Inr (persistentState r')"
proof (rule NewRaft_fields [OF assms(1)])
  assume f: "storage r0 = (case cfg_Storage cfg of None \<Rightarrow> newMem | Some s \<Rightarrow> s)" "raft_id r0 = cfg_ID cfg"
  have inv0: "raft_inv r0" using NewRaft_inv [OF assms(1,5)] .
  note run = assms(6,7)
  have inv: "raft_inv r" using node_run_inv [OF run inv0] .
  have "synced_on (\<lambda>ps. ps) file_holds r0"
    using assms(2-4) f(1) raft_invD(1) [OF inv0] by (auto simp: synced_on_def file_holds_def)
  from faultless.node_run_synced [OF run(1) this]
  have holds: "file_holds (storage r) (persistentState r)" by (simp add: synced_on_def)
  have log: "ps_Log (persistentState r) \<noteq> []" using raft_invD(1) [OF inv] by (simp add: persistentState_def)
  have load: "Load file_ops (storage r) = Inr (persistentState r)"
    using file_holds_load [OF holds assms(8) log] .
  with raft_invD(1) [OF inv] have sync: "synced file_ops r" by (simp add: synced_on_def)
  have "raft_id r = raft_id r0"
    using run(1) by (induction evs arbitrary: r0) (auto split: option.splits dest: node_exec_identity)
  moreover have "raft_id r0 \<noteq> []" using assms(1) f(2) by (auto simp: NewRaft_def split: if_splits)
  ultimately have ids: "cfg_ID cfg' = raft_id r" "raft_id r \<noteq> []" using f(2) assms(9) by simp_all
  from NewRaft_restart [OF sync inv node_run_sentinel [OF run inv0 NewRaft_sentinel [OF assms(1)]] ids assms(10),
      of newMem'] load holds
  show ?thesis by (metis file_holds_def)
qed

definition fresh_file :: FileStorage where
  "fresh_file = NewFileStorage ''state.json'' (\<lambda>_. NotExist) []"

definition file_cfg :: "FileStorage \<Rightarrow> FileStorage RaftConfig" where
  "file_cfg f = \<lparr>cfg_ID = ''n1'', cfg_Peers = [(''n2'', []), (''n3'', [])], cfg_hasTransport = True,
     cfg_Storage = Some f, cfg_ElectionTimeout = 0, cfg_HeartbeatInterval = 0, cfg_Debug = False,
     cfg_Verbose = False\<rparr>"

theorem restart_recovers_witness:
  "\<exists>r0 r r'. NewRaft file_ops fresh_file (file_cfg fresh_file) = Inr r0 \<and> node_run file_ops lead_one r0 = Some r \<and>
     NewRaft file_ops fresh_file (file_cfg (storage r)) = Inr r' \<and> persistentState r' = persistentState r"
proof -
  define r0 where "r0 = projr (NewRaft file_ops fresh_file (file_cfg fresh_file))"
  define r where "r = the (node_run file_ops lead_one r0)"
  have new: "NewRaft file_ops fresh_file (file_cfg fresh_file) = Inr r0"
    unfolding r0_def by (simp add: NewRaft_def file_cfg_def Let_def file_ops_def FileStorage_Load_def
        fresh_file_def NewFileStorage_def)
  have load: "Load file_ops fresh_file = Inr (persistentState r0)" "0 \<le> logOffset r0"
    unfolding r0_def by code_simp+
  have "node_run file_ops lead_one r0 \<noteq> None" unfolding r0_def by code_simp
  then have run: "node_run file_ops lead_one r0 = Some r" by (auto simp: r_def)
  have "safe_run file_ops lead_one r0" "state_ok (persistentState r)"
    unfolding r_def r0_def by code_simp+
  with restart_recovers [OF new _ _ load run, of "file_cfg (storage r)" fresh_file] new run show ?thesis
    by (auto simp: file_cfg_def fresh_file_def NewFileStorage_def)
qed

subsection \<open>Snapshots\<close>

text \<open>
  C19.  Compaction loses nothing that is still needed: on a well-formed node \<^verbatim>\<open>Snapshot\<close> refuses an
  index that is not committed and ignores one that is already compacted, without changing anything.
  Otherwise the log keeps its end, its commit index and every entry and term above the index, the term
  at the index moves into the sentinel and the snapshot, and a waiter at or below the index is woken.
\<close>

theorem snapshot_keeps_log:
  assumes "raft_inv r" and "sorted_terms r" and "0 \<le> le_Term (raft_log r ! 0)"
    and "takeSnapshot ops r index data = (err, r')"
  shows "(index \<le> logOffset r \<longrightarrow> err = None \<and> r' = r) \<and>
     (commitIndex r < index \<longrightarrow> err = Some ErrSnapshotNotCommitted \<and> r' = r) \<and>
     (logOffset r < index \<and> index \<le> commitIndex r \<longrightarrow>
        lastLogIndex r' = lastLogIndex r \<and> commitIndex r' = commitIndex r \<and> logOffset r' = index \<and>
        snapshot r' = \<lparr>snap_LastIncludedIndex = index, snap_LastIncludedTerm = termAt r index, snap_Data = data\<rparr> \<and>
        (\<forall>i \<ge> index. termAt r' i = termAt r i) \<and>
        (\<forall>i. index < i \<and> i \<le> lastLogIndex r \<longrightarrow> entryAt r' i = entryAt r i) \<and>
        err = fst (Save ops (storage r) (persistentState r')) \<and>
        set (closedChs r') = set (closedChs r) \<union> snd ` {p \<in> set (notifyCh r). fst p \<le> index})"
proof -
  note inv = raft_invD [OF assms(1)]
  have "0 \<le> termAt r index" if "logOffset r < index" "index \<le> commitIndex r"
    using sorted_terms_termAt [OF assms(2), of "logOffset r" index] that inv assms(3)
    by (simp add: termAt_in_range)
  then show ?thesis
  proof (cases rule: takeSnapshot_cases [of index r ops data])
    case taken
    note eq = taken(5) [unfolded assms(4)]
    then have r': "r' = persist ops
         (r\<lparr>raft_log := sentinel (termAt r index) # drop (nat (index + 1 - logOffset r)) (raft_log r),
            logOffset := index,
            snapshot := \<lparr>snap_LastIncludedIndex = index, snap_LastIncludedTerm = termAt r index, snap_Data = data\<rparr>,
            lastApplied := max (lastApplied r) index,
            notifyCh := filter (\<lambda>p. \<not> fst p \<le> index) (notifyCh r),
            closedChs := map snd (filter (\<lambda>p. fst p \<le> index) (notifyCh r)) @ closedChs r\<rparr>)"
      by (metis persistLocked_shape snd_conv)
    have err: "err = fst (Save ops (storage r) (persistentState r'))"
      using eq unfolding r' by (simp add: persistLocked_def persistentState_def split: prod.splits)
    show ?thesis
      using taken(1,2) err compacted_log [OF taken(1,3), of r'] by (auto simp: r')
  qed (use assms(4) inv in auto)
qed

definition applied_one :: mraft where
  "applied_one = the (applyCommitted committed_one)"

theorem snapshot_keeps_log_witness:
  "termAt (snd (takeSnapshot memory_ops applied_one 1 ''s'')) 1 = 1"
proof -
  have "raft_inv applied_one" "sorted_terms applied_one" "0 \<le> le_Term (raft_log applied_one ! 0)"
    "logOffset applied_one < 1" "1 \<le> commitIndex applied_one" "termAt applied_one 1 = 1"
    by code_simp+
  with snapshot_keeps_log [of applied_one memory_ops 1 "''s''"] show ?thesis
    by (cases "takeSnapshot memory_ops applied_one 1 ''s''") auto
qed

text \<open>
  Installing a leader's snapshot: a newer snapshot than the node's own replaces the whole log by
  its sentinel, moves the offset to its index and is handed to the state machine; an older or equal
  one changes neither log nor indices.  If it covers what the node has committed, the indices stay in
  order.
\<close>

lemma install_snapshot_behaviour:
  assumes "HandleInstallSnapshot_locked ops r args = (reply, r', msg)" and "raft_inv r"
  shows "isr_Term reply = max (currentTerm r) (isa_Term args) \<and>
     (if isa_Term args < currentTerm r \<or> isa_LastIncludedIndex args \<le> logOffset r
      then msg = None \<and> raft_log r' = raft_log r \<and> commitIndex r' = commitIndex r \<and> raft_inv r'
      else msg = Some (snapshot_msg (isa_Data args) (isa_LastIncludedIndex args) (isa_LastIncludedTerm args)) \<and>
        lastLogIndex r' = isa_LastIncludedIndex args \<and> logOffset r' = isa_LastIncludedIndex args \<and>
        termAt r' (isa_LastIncludedIndex args) = isa_LastIncludedTerm args \<and>
        isa_LastIncludedIndex args \<le> lastApplied r' \<and>
        (raft_inv r' \<longleftrightarrow> commitIndex r \<le> isa_LastIncludedIndex args))"
  using assms(1) raft_invD [OF assms(2)] assms(2)
  by (auto simp: HandleInstallSnapshot_locked_def Let_def raft_inv_def log_defs split: if_splits)

definition snap_one :: InstallSnapshotArgs where
  "snap_one = \<lparr>isa_Term = 1, isa_LeaderID = ''n1'', isa_LastIncludedIndex = 1, isa_LastIncludedTerm = 1,
     isa_Data = ''s''\<rparr>"

text \<open>
  C34.  A snapshot that ends before the node's commit index makes the node lose committed entries: the
  code drops the whole log and keeps the commit index, which then points past the end of the log, and
  this is what it saves.  If a committed entry was not applied yet, the next run of the apply loop
  panics; if all were applied, it does nothing, and the entries above the snapshot stay lost.
\<close>

theorem install_snapshot_drops_committed:
  assumes "raft_inv r" and "currentTerm r \<le> isa_Term args"
    and "logOffset r < isa_LastIncludedIndex args" and "isa_LastIncludedIndex args < commitIndex r"
    and "HandleInstallSnapshot_locked ops r args = (reply, r', msg)"
  shows "msg \<noteq> None \<and> length (raft_log r') = 1 \<and> lastLogIndex r' = isa_LastIncludedIndex args \<and>
     commitIndex r' = commitIndex r \<and> lastLogIndex r' < commitIndex r' \<and>
     applyCommitted r' = (if lastApplied r < commitIndex r then None else Some r')"
proof -
  have f: "msg \<noteq> None" "length (raft_log r') = 1" "logOffset r' = isa_LastIncludedIndex args"
    "lastLogIndex r' = isa_LastIncludedIndex args" "commitIndex r' = commitIndex r"
    "lastApplied r' = max (lastApplied r) (isa_LastIncludedIndex args)"
    using assms(2-5) raft_invD [OF assms(1)]
    by (auto simp: HandleInstallSnapshot_locked_def Let_def lastLogIndex_def split: if_splits)
  show ?thesis
  proof (cases "lastApplied r < commitIndex r")
    case True
    with f assms(4) applyCommitted_panics [of r'] show ?thesis by simp
  next
    case False
    with f(5,6) have "commitIndex r' \<le> lastApplied r'" by simp
    then have "applyCommitted r' = Some r'"
      by (subst applyCommitted.simps) (simp add: applyCommitted_take_def)
    with False f assms(4) show ?thesis by simp
  qed
qed

definition append_ab :: AppendEntriesArgs where
  "append_ab = append_a\<lparr>aea_Entries := [\<lparr>le_Term = 1, le_Command = ''a''\<rparr>, \<lparr>le_Term = 1, le_Command = ''b''\<rparr>],
     aea_LeaderCommit := 2\<rparr>"

theorem install_snapshot_drops_committed_witness:
  "let r = fst (snd (HandleAppendEntries_locked memory_ops (fresh ''n2'') append_ab));
       r' = fst (snd (HandleInstallSnapshot_locked memory_ops r snap_one))
   in applyCommitted r' = None \<and> lastLogIndex r' = 1 \<and> commitIndex r' = 2"
proof -
  define r where "r = fst (snd (HandleAppendEntries_locked memory_ops (fresh ''n2'') append_ab))"
  obtain reply r' msg where eq: "HandleInstallSnapshot_locked memory_ops r snap_one = (reply, r', msg)"
    by (cases "HandleInstallSnapshot_locked memory_ops r snap_one")
  have "raft_inv r" "currentTerm r \<le> isa_Term snap_one" "logOffset r < isa_LastIncludedIndex snap_one"
    "isa_LastIncludedIndex snap_one < commitIndex r" "lastApplied r < commitIndex r" "commitIndex r = 2"
    "isa_LastIncludedIndex snap_one = 1"
    unfolding r_def by code_simp+
  with install_snapshot_drops_committed [of r snap_one memory_ops reply r' msg] eq show ?thesis
    by (simp add: r_def Let_def)
qed

subsection \<open>Waiting for a commit\<close>

text \<open>
  C35.  A waiter on an index is woken when that index is applied, whichever entry is there by then.
  If a follower accepts an append that replaces the uncommitted entry at the index by an entry of
  another leader and commits it, the caller that waits for its own entry is told that it committed.
\<close>

theorem wait_ignores_replacement:
  assumes "raft_inv r" and "acceptsAppend r args" and "respectsCommitted r args"
    and "map_of (notifyCh r) i = Some ch" and "commitIndex r < i" and "i \<le> aea_LeaderCommit args"
    and "i \<le> aea_PrevLogIndex args + int (length (aea_Entries args))"
    and "aea_PrevLogIndex args < i"
    and "le_Term (aea_Entries args ! nat (i - aea_PrevLogIndex args - 1)) \<noteq> termAt r i"
  shows "\<exists>reply r'. HandleAppendEntries ops r args = Some (reply, r') \<and>
     WaitForCommit_select None False ch i r' = Some (WaitOK, r') \<and> termAt r' i \<noteq> termAt r i"
proof -
  obtain reply r1 ap where eq: "HandleAppendEntries_locked ops r args = (reply, r1, ap)"
    by (cases "HandleAppendEntries_locked ops r args")
  note f = HandleAppendEntries_accepted [OF eq assms(2)]
  note agree = append_agreement [OF eq f(1)]
  have inv: "raft_inv r1" using HandleAppendEntries_inv [OF assms(1,3), of ops] eq by simp
  have commit: "i \<le> commitIndex r1"
    using f(9) agree(3) assms(5-7) by simp
  obtain r2 where r2: "applyCommitted r1 = Some r2"
    "set (closedChs r2) = set (closedChs r1) \<union>
        {c. \<exists>i. lastApplied r1 < i \<and> i \<le> commitIndex r1 \<and> map_of (notifyCh r1) i = Some c}"
    using applyCommitted_total [of r1] raft_invD [OF inv] by auto
  have "lastApplied r1 < i" using f(10) raft_invD(5) [OF assms(1)] assms(5) by simp
  then have "ch \<in> set (closedChs r2)" using r2(2) commit assms(4) f(14) by auto
  moreover have "termAt r2 i = termAt r1 i"
    using applyCommitted_frame(4,5) [OF r2(1)] by (simp add: log_defs)
  moreover have "termAt r1 i = le_Term (aea_Entries args ! nat (i - aea_PrevLogIndex args - 1))"
    using agree(2) [of "nat (i - aea_PrevLogIndex args - 1)"] assms(7,8) by simp
  moreover have "HandleAppendEntries ops r args = Some (reply, r2)"
    using f(8) assms(5,6) by (simp add: HandleAppendEntries_def eq r2(1))
  ultimately show ?thesis using assms(9) by (simp add: WaitForCommit_select_def)
qed

definition append_two :: AppendEntriesArgs where
  "append_two = \<lparr>aea_Term = 2, aea_LeaderID = ''n2'', aea_PrevLogIndex = 0, aea_PrevLogTerm = 0,
     aea_Entries = [\<lparr>le_Term = 2, le_Command = ''b''\<rparr>], aea_LeaderCommit = 1\<rparr>"

theorem wait_ignores_replacement_witness:
  "WaitForCommit_begin leader_one 1 1 = (WaitOn 0, leader_one) \<and>
   (\<exists>reply r'. HandleAppendEntries memory_ops leader_one append_two = Some (reply, r') \<and>
      WaitForCommit_select None False 0 1 r' = Some (WaitOK, r') \<and> termAt r' 1 \<noteq> termAt leader_one 1)"
proof -
  have w: "WaitForCommit_begin leader_one 1 1 = (WaitOn 0, leader_one)"
  proof -
    have "currentTerm leader_one = 1 \<and> state leader_one = Leader \<and> commitIndex leader_one = 0 \<and>
        map_of (notifyCh leader_one) 1 = Some 0"
      by code_simp
    then show ?thesis by (simp add: WaitForCommit_begin_def)
  qed
  have "raft_inv leader_one" "acceptsAppend leader_one append_two"
    "map_of (notifyCh leader_one) 1 = Some 0" "commitIndex leader_one < 1" "1 \<le> aea_LeaderCommit append_two"
    "1 \<le> aea_PrevLogIndex append_two + int (length (aea_Entries append_two))"
    "aea_PrevLogIndex append_two < 1"
    "le_Term (aea_Entries append_two ! nat (1 - aea_PrevLogIndex append_two - 1)) \<noteq> termAt leader_one 1"
    by code_simp+
  moreover have "respectsCommitted leader_one append_two"
  proof -
    have "commitIndex leader_one = 0" by code_simp
    then show ?thesis by (simp add: respectsCommitted_def append_two_def)
  qed
  ultimately show ?thesis
    using wait_ignores_replacement [of leader_one append_two 1 0 memory_ops] w by blast
qed

subsection \<open>Timers and storage\<close>

text \<open>
  The election timeout of a new node is drawn between the configured timeout and twice that
  value (350 ms when none is configured), for every value \<^verbatim>\<open>rand.Int63n\<close> may return, as long as twice
  the timeout fits in 63 bits of nanoseconds.
\<close>

lemma election_timeout_bounds:
  assumes "NewRaft ops newMem cfg = Inr r" and "0 \<le> cfg_ElectionTimeout cfg"
    and "cfg_ElectionTimeout cfg \<le> 4611686018427"
    and "base = (if cfg_ElectionTimeout cfg = 0 then 350 else cfg_ElectionTimeout cfg) * millisecond"
    and "0 \<le> rnd" and "rnd < electionTimeout r"
  shows "base \<le> randomizedElectionTimeout rnd r \<and> randomizedElectionTimeout rnd r < 2 * base"
proof -
  have "electionTimeout r = wrap64 base"
    using assms(1,4) by (auto simp: NewRaft_def Let_def clampIndexes_eq split: if_splits sum.splits)
  moreover have b: "0 < base" "2 * base < 2 ^ 63" using assms(2-4) by (auto simp: millisecond_def)
  ultimately have e: "electionTimeout r = base" by (simp add: wrap64_id)
  have "wrap64 (base + rnd) = base + rnd" using b assms(5,6) e by (intro wrap64_id) simp_all
  with e b assms(5,6) show ?thesis by (simp add: randomizedElectionTimeout_def Let_def)
qed

text \<open>
  C30.  The file store is atomic.  Whatever saves of states with 64-bit integers and textual identifiers
  have been tried, with whichever of them failing (creating the directory, writing part of the temporary
  file, renaming), a further save that reports success is what the next load reads back through JSON, and
  one that fails leaves what a load returned before.
\<close>

theorem file_storage_atomic:
  assumes "state_ok st" and "ps_Log st \<noteq> []" and "\<forall>st \<in> set sts. state_ok st \<and> ps_Log st \<noteq> []"
  shows "let f' = saves file_ops f sts; (err, f'') = FileStorage_Save f' st
    in FileStorage_Load f'' = (if err = None then Inr st else FileStorage_Load f') \<and>
       FileStorage_Load f' \<in> insert (FileStorage_Load f) (Inr ` set sts)"
  using files.load_after_save [of st "saves file_ops f sts"] files.load_after_saves [of sts f] assms
  by (auto simp: file_ops_def file_good_def Let_def split: prod.splits)

definition flaky_file :: FileStorage where
  "flaky_file = NewFileStorage ''state.json'' (\<lambda>_. NotExist) [NoFault, RenameFails ''denied'']"

theorem file_storage_atomic_witness:
  "fst (FileStorage_Save (saves file_ops flaky_file [persistentState leader_one]) (persistentState (fresh ''n1''))) \<noteq> None \<and>
   FileStorage_Load (snd (FileStorage_Save (saves file_ops flaky_file [persistentState leader_one])
     (persistentState (fresh ''n1'')))) \<in> {FileStorage_Load flaky_file, Inr (persistentState leader_one)}"
proof -
  have ok: "state_ok (persistentState leader_one) \<and> ps_Log (persistentState leader_one) \<noteq> []"
      "state_ok (persistentState (fresh ''n1'')) \<and> ps_Log (persistentState (fresh ''n1'')) \<noteq> []"
    by code_simp+
  have "fst (FileStorage_Save (saves file_ops flaky_file [persistentState leader_one]) (persistentState (fresh ''n1''))) \<noteq> None"
    by (simp add: flaky_file_def NewFileStorage_def file_ops_def FileStorage_Save_def Let_def)
  with file_storage_atomic [of "persistentState (fresh ''n1'')" "[persistentState leader_one]" flaky_file] ok
  show ?thesis by (auto simp: Let_def split: prod.splits)
qed

end
