(* ===== verification/Election_Safety.thy ===== *)
theory Election_Safety
  imports Raft_Properties
begin

text \<open>
  Election safety of the cluster: at most one leader per term, at whatever times the two are leader,
  and whatever is lost, repeated, delayed or crashes.  The proof is an inductive invariant over
  votes: a node votes once per term, the counter of an election counts distinct voters, and a leader
  has the votes of a majority.
\<close>

subsection \<open>Votes\<close>

definition granted :: "cluster \<Rightarrow> node_id \<Rightarrow> int \<Rightarrow> node_id \<Rightarrow> bool" where
  "granted s p t c \<longleftrightarrow> (\<exists>reply. VoteRep c t p reply \<in> set (msgs s) \<and> rvr_VoteGranted reply)"

definition voted :: "cluster \<Rightarrow> node_id \<Rightarrow> int \<Rightarrow> node_id \<Rightarrow> bool" where
  "voted s p t c \<longleftrightarrow> granted s p t c \<or> p = c \<and> (c, t) \<in> set (started s)"

definition elected :: "node_id list \<Rightarrow> cluster \<Rightarrow> node_id \<Rightarrow> int \<Rightarrow> bool" where
  "elected ids s n t \<longleftrightarrow> length ids < 2 * card {p \<in> set ids. voted s p t n}"

definition counted :: "node_id list \<Rightarrow> cluster \<Rightarrow> node_id \<Rightarrow> int \<Rightarrow> node_id set" where
  "counted ids s c t = {p \<in> set ids. p \<noteq> c \<and> (c, t, p) \<notin> set (pending s) \<and> granted s p t c}"

definition ballot_of :: "PersistentState \<Rightarrow> int \<times> node_id" where
  "ballot_of ps = (ps_CurrentTerm ps, ps_VotedFor ps)"

definition node_ok :: "node_id list \<Rightarrow> node_id \<Rightarrow> mraft \<Rightarrow> bool" where
  "node_ok ids n r \<longleftrightarrow> raft_id r = n \<and>
     peers r = map (\<lambda>p. (p, [])) (filter (\<lambda>p. p \<noteq> n) ids) \<and> hasTransport r \<and>
     synced_on ballot_of (loads memory_ops) r"

fun msg_ok :: "node_id list \<Rightarrow> cluster \<Rightarrow> Msg \<Rightarrow> bool" where
  "msg_ok ids s (VoteReq p args) \<longleftrightarrow> p \<in> set ids \<and> p \<noteq> rva_CandidateID args \<and>
     rva_CandidateID args \<in> set ids \<and> (rva_CandidateID args, rva_Term args) \<in> set (started s)"
| "msg_ok ids s (VoteRep c t p reply) \<longleftrightarrow> p \<in> set ids \<and> p \<noteq> c \<and> c \<in> set ids"
| "msg_ok ids s (AppendReq p args) \<longleftrightarrow> p \<in> set ids \<and> aea_LeaderID args \<in> set ids"
| "msg_ok ids s (AppendRep p args reply) \<longleftrightarrow> p \<in> set ids \<and> aea_LeaderID args \<in> set ids"
| "msg_ok ids s (SnapReq p args) \<longleftrightarrow> p \<in> set ids \<and> isa_LeaderID args \<in> set ids"
| "msg_ok ids s (SnapRep p args reply) \<longleftrightarrow> p \<in> set ids \<and> isa_LeaderID args \<in> set ids"

fun is_vote_rep :: "Msg \<Rightarrow> bool" where
  "is_vote_rep (VoteRep c t p reply) = True"
| "is_vote_rep _ = False"

text \<open>A node remembers a vote: it is past the term, or still holds the vote.\<close>

definition cast_at :: "mraft \<Rightarrow> int \<Rightarrow> node_id \<Rightarrow> bool" where
  "cast_at r t c \<longleftrightarrow> t < currentTerm r \<or> t = currentTerm r \<and> votedFor r = c"

lemma cast_at_mono: "cast_at r t c \<Longrightarrow> ballot_le r r' \<Longrightarrow> c \<noteq> [] \<Longrightarrow> cast_at r' t c"
  by (auto simp: cast_at_def ballot_le_def)

definition cast_ok :: "node_id list \<Rightarrow> cluster \<Rightarrow> bool" where
  "cast_ok ids s \<longleftrightarrow> (\<forall>p t c. voted s p t c \<longrightarrow>
     p \<in> set ids \<and> c \<in> set ids \<and> cast_at (nodes s p) t c)"

lemma cast_at_le: "cast_at r t c \<Longrightarrow> t \<le> currentTerm r"
  by (auto simp: cast_at_def)

lemma cast_okD:
  assumes "cast_ok ids s" and "voted s p t c"
  shows "p \<in> set ids" and "c \<in> set ids" and "cast_at (nodes s p) t c"
  using assms by (auto simp: cast_ok_def)

definition vote_unique :: "cluster \<Rightarrow> bool" where
  "vote_unique s \<longleftrightarrow> (\<forall>p t c c'. voted s p t c \<longrightarrow> voted s p t c' \<longrightarrow> c = c')"

definition pending_ok :: "node_id list \<Rightarrow> cluster \<Rightarrow> bool" where
  "pending_ok ids s \<longleftrightarrow> (\<forall>c t p. (c, t, p) \<in> set (pending s) \<longrightarrow>
     (c, t) \<in> set (started s) \<and> c \<in> set ids \<and> (p = c \<longrightarrow> ids = [c]))"

definition count_ok :: "node_id list \<Rightarrow> cluster \<Rightarrow> bool" where
  "count_ok ids s \<longleftrightarrow> (\<forall>c t. (c, t) \<in> set (started s) \<longrightarrow>
     votes s (c, t) \<le> 1 + int (card (counted ids s c t)))"

definition leaders_ok :: "node_id list \<Rightarrow> cluster \<Rightarrow> bool" where
  "leaders_ok ids s \<longleftrightarrow> (\<forall>n \<in> set ids. state (nodes s n) = Leader \<longrightarrow>
     elected ids s n (currentTerm (nodes s n)))"

definition election_inv :: "node_id list \<Rightarrow> cluster \<Rightarrow> bool" where
  "election_inv ids s \<longleftrightarrow> (\<forall>n \<in> set ids. node_ok ids n (nodes s n)) \<and>
     (\<forall>m \<in> set (msgs s). msg_ok ids s m) \<and> cast_ok ids s \<and> vote_unique s \<and> pending_ok ids s \<and>
     count_ok ids s \<and> leaders_ok ids s"

lemma election_invD:
  assumes "election_inv ids s"
  shows "n \<in> set ids \<Longrightarrow> node_ok ids n (nodes s n)" and "m \<in> set (msgs s) \<Longrightarrow> msg_ok ids s m"
    and "cast_ok ids s" and "vote_unique s" and "pending_ok ids s" and "count_ok ids s"
    and "leaders_ok ids s"
  using assms by (simp_all add: election_inv_def)

subsection \<open>Monotonicity\<close>

lemma granted_mono: "granted s p t c \<Longrightarrow> set (msgs s) \<subseteq> set (msgs s') \<Longrightarrow> granted s' p t c"
  by (auto simp: granted_def)

lemma voted_mono:
  "voted s p t c \<Longrightarrow> set (msgs s) \<subseteq> set (msgs s') \<Longrightarrow> set (started s) \<subseteq> set (started s') \<Longrightarrow>
     voted s' p t c"
  using granted_mono by (auto simp: voted_def)

lemma elected_mono:
  assumes "elected ids s n t" and "set (msgs s) \<subseteq> set (msgs s')"
    and "set (started s) \<subseteq> set (started s')"
  shows "elected ids s' n t"
proof -
  have "card {p \<in> set ids. voted s p t n} \<le> card {p \<in> set ids. voted s' p t n}"
    using assms(2,3) by (intro card_mono) (auto intro: voted_mono)
  with assms(1) show ?thesis by (simp add: elected_def)
qed

lemma finite_counted [simp]: "finite (counted ids s c t)"
  by (simp add: counted_def)

lemma counted_mono:
  assumes "set (pending s') \<subseteq> set (pending s)" and "set (msgs s) \<subseteq> set (msgs s')"
  shows "card (counted ids s c t) \<le> card (counted ids s' c t)"
  using assms by (intro card_mono) (auto simp: counted_def intro: granted_mono)

text \<open>Two elected candidates of one term share a voter, so they are the same.\<close>

lemma elected_unique:
  assumes "election_inv ids s" and "distinct ids" and "elected ids s n t" and "elected ids s m t"
  shows "n = m"
proof -
  obtain p where "voted s p t n" and "voted s p t m"
    using assms(2-4) majorities_meet [of "set ids" "{p \<in> set ids. voted s p t n}" "{p \<in> set ids. voted s p t m}"]
    by (auto simp: elected_def distinct_card)
  with election_invD(4) [OF assms(1)] show ?thesis
    by (auto simp: vote_unique_def)
qed

subsection \<open>Steps that cast no vote and elect no leader\<close>

lemma voteless_step:
  assumes inv: "election_inv ids s" and valid: "valid_ids ids" and n: "n \<in> set ids"
    and nodes: "nodes s' = (nodes s)(n := r')"
    and bal: "ballot_le (nodes s n) r'" and ok: "node_ok ids n r'"
    and lead: "state r' = Leader \<Longrightarrow> elected ids s n (currentTerm r')"
    and same: "started s' = started s"
    and pend: "set (pending s') \<subseteq> set (pending s)"
    and msgs: "set (msgs s) \<subseteq> set (msgs s')"
    and new: "\<And>m. m \<in> set (msgs s') \<Longrightarrow> m \<in> set (msgs s) \<or> msg_ok ids s m \<and> \<not> is_vote_rep m"
    and count: "count_ok ids s'"
  shows "election_inv ids s'"
proof -
  note I = election_invD [OF inv]
  have granted: "granted s' p t c = granted s p t c" for p t c
    unfolding granted_def using msgs new is_vote_rep.simps(1) by blast
  then have voted: "voted s' p t c = voted s p t c" for p t c
    by (simp add: voted_def same)
  have msg_same: "msg_ok ids s' m = msg_ok ids s m" for m
    by (cases m) (simp_all add: same)
  have "\<forall>k \<in> set ids. node_ok ids k (nodes s' k)" using I(1) ok by (simp add: nodes)
  moreover have "\<forall>m \<in> set (msgs s'). msg_ok ids s' m" using I(2) new msg_same by blast
  moreover have "cast_ok ids s'"
    using I(3) cast_at_mono [OF _ bal] valid unfolding cast_ok_def voted nodes valid_ids_def
    by (metis fun_upd_apply)
  moreover have "vote_unique s'" using I(4) by (simp add: vote_unique_def voted)
  moreover have "pending_ok ids s'" using I(5) pend by (auto simp: pending_ok_def same)
  moreover have "leaders_ok ids s'"
    using I(7) lead n unfolding leaders_ok_def elected_def voted nodes by auto
  ultimately show ?thesis using count by (simp add: election_inv_def)
qed

lemma count_ok_mono:
  assumes "count_ok ids s" and "started s' = started s" and "votes s' = votes s"
    and "set (pending s') \<subseteq> set (pending s)" and "set (msgs s) \<subseteq> set (msgs s')"
  shows "count_ok ids s'"
  using assms counted_mono [OF assms(4,5), of ids] unfolding count_ok_def
  by (metis add_left_mono dual_order.trans of_nat_mono)

lemma quiet_step:
  assumes inv: "election_inv ids s" and valid: "valid_ids ids" and n: "n \<in> set ids"
    and nodes: "nodes s' = (nodes s)(n := r')"
    and bal: "ballot_le (nodes s n) r'" and ok: "node_ok ids n r'"
    and lead: "state r' = Leader \<Longrightarrow> state (nodes s n) = Leader \<and> currentTerm r' = currentTerm (nodes s n)"
    and same: "started s' = started s" "votes s' = votes s"
    and pend: "set (pending s') \<subseteq> set (pending s)"
    and msgs: "set (msgs s) \<subseteq> set (msgs s')"
    and new: "\<And>m. m \<in> set (msgs s') \<Longrightarrow> m \<in> set (msgs s) \<or> msg_ok ids s m \<and> \<not> is_vote_rep m"
  shows "election_inv ids s'"
proof (rule voteless_step [OF inv valid n nodes bal ok _ same(1) pend msgs new])
  show "state r' = Leader \<Longrightarrow> elected ids s n (currentTerm r')"
    using lead election_invD(7) [OF inv] n by (auto simp: leaders_ok_def)
  show "count_ok ids s'"
    using election_invD(6) [OF inv] same pend msgs by (rule count_ok_mono)
qed

lemma node_exec_ok:
  assumes "node_ok ids n r" and "node_exec memory_ops ev r = Some r'"
  shows "node_ok ids n r'"
  using assms node_exec_identity [OF assms(2)] mems.node_exec_synced [OF assms(2), of ballot_of]
  by (simp add: node_ok_def)

text \<open>
  Most events run one section of one node that cannot elect, and send at most one message that is
  not a vote.
\<close>

lemma quiet_exec:
  assumes inv: "election_inv ids s" and valid: "valid_ids ids" and n: "n \<in> set ids"
    and exec: "node_exec memory_ops ev (nodes s n) = Some r'" and quiet: "\<not> leading_event ev"
    and new: "\<And>m. m \<in> set ms \<Longrightarrow> msg_ok ids s m \<and> \<not> is_vote_rep m"
  shows "election_inv ids (send ms (set_node n r' s))"
proof (rule quiet_step [OF inv valid n])
  show "nodes (send ms (set_node n r' s)) = (nodes s)(n := r')"
    by (simp add: send_def set_node_def)
  show "ballot_le (nodes s n) r'" using exec by (rule node_exec_ballot)
  show "node_ok ids n r'" using election_invD(1) [OF inv n] exec by (rule node_exec_ok)
  show "state r' = Leader \<Longrightarrow> state (nodes s n) = Leader \<and> currentTerm r' = currentTerm (nodes s n)"
    using node_exec_leader [OF exec quiet] by blast
qed (use new in \<open>auto simp: send_def set_node_def\<close>)

lemma send_Nil [simp]: "send [] s = s"
  by (simp add: send_def)

subsection \<open>Restarting\<close>

lemma boot_fields:
  assumes "n \<noteq> []" and "raft_id r = n" and "synced_on ballot_of (loads memory_ops) r"
  shows "currentTerm (boot ids n (storage r) d) = currentTerm r"
    and "votedFor (boot ids n (storage r) d) = votedFor r"
    and "state (boot ids n (storage r) d) = Follower"
    and "node_ok ids n (boot ids n (storage r) d)"
proof -
  let ?cfg = "node_cfg ids n (Some (storage r))"
  have "NewRaft memory_ops NewMemoryStorage ?cfg \<noteq> Inl e" for e
    using assms(1) by (simp add: NewRaft_def Let_def node_cfg_def)
  then obtain r' where new: "NewRaft memory_ops NewMemoryStorage ?cfg = Inr r'"
    by (cases "NewRaft memory_ops NewMemoryStorage ?cfg") auto
  then have boot: "boot ids n (storage r) d = r'" by (simp add: boot_def)
  from NewRaft_fields [OF new] obtain ps where f: "ms_state (storage r) = ps" "storage r' = storage r"
      "raft_log r' = initialLog ps" "currentTerm r' = ps_CurrentTerm ps" "votedFor r' = ps_VotedFor ps"
      "state r' = Follower" "raft_id r' = n" "peers r' = map (\<lambda>p. (p, [])) (filter (\<lambda>p. p \<noteq> n) ids)"
    by (auto simp: node_cfg_def)
  have "hasTransport r'"
    using new by (auto simp: NewRaft_def Let_def node_cfg_def clampIndexes_eq split: if_splits)
  with f boot assms(3) show "node_ok ids n (boot ids n (storage r) d)"
    by (auto simp: node_ok_def synced_on_def ballot_of_def persistentState_def)
  show "currentTerm (boot ids n (storage r) d) = currentTerm r"
    and "votedFor (boot ids n (storage r) d) = votedFor r"
    and "state (boot ids n (storage r) d) = Follower"
    using f boot assms(3) by (auto simp: synced_on_def ballot_of_def persistentState_def)
qed

subsection \<open>Standing for election\<close>

lemma startElection_begin_fields:
  assumes "startElection_begin ops r = Some (r', args)"
  shows "state r' = Candidate" and "currentTerm r' = currentTerm r + 1" and "votedFor r' = raft_id r"
    and "rva_Term args = currentTerm r + 1" and "rva_CandidateID args = raft_id r"
    and "rva_LastLogIndex args = lastLogIndex r" and "rva_LastLogTerm args = lastLogTerm r"
    and "peers r' = peers r" and "raft_log r' = raft_log r" and "logOffset r' = logOffset r"
    and "commitIndex r' = commitIndex r"
  using assms by (auto simp: startElection_begin_def Let_def log_defs split: if_splits)

lemma node_ok_peers:
  assumes "node_ok ids n r" and "distinct ids" and "n \<in> set ids"
  shows "fst ` set (peers r) = set ids - {n}" and "int (length (peers r)) + 1 = int (length ids)"
    and "quorumSize r = 1 \<Longrightarrow> ids = [n]"
proof -
  have peers: "peers r = map (\<lambda>p. (p, [])) (filter (\<lambda>p. p \<noteq> n) ids)"
    using assms(1) by (simp add: node_ok_def)
  then show "fst ` set (peers r) = set ids - {n}" by force
  have "filter (\<lambda>p. p \<noteq> n) ids = remove1 n ids"
    using assms(2) by (simp add: distinct_remove1_removeAll removeAll_filter_not_eq eq_commute)
  then have "length (peers r) = length ids - 1" and pos: "0 < length ids"
    using assms(3) by (auto simp: peers length_remove1)
  then show len: "int (length (peers r)) + 1 = int (length ids)" by linarith
  assume "quorumSize r = 1"
  then have "length ids = 1" using len by (simp add: quorumSize_one_iff)
  then show "ids = [n]" using assms(3) by (cases ids) auto
qed

lemma timeout_step:
  assumes inv: "election_inv ids s" and valid: "valid_ids ids"
    and exec: "cluster_exec compact ids (Timeout n) s = Some s'"
  shows "election_inv ids s'"
proof -
  note I = election_invD [OF inv]
  have n: "n \<in> set ids" using exec by (auto split: if_splits)
  then obtain r' args where bgn: "startElection_begin memory_ops (nodes s n) = Some (r', args)"
    using exec by (auto split: option.splits)
  note f = startElection_begin_fields [OF bgn]
  have ok: "node_ok ids n (nodes s n)" using n by (rule I(1))
  then have ok': "node_ok ids n r'"
    by (rule node_exec_ok [where ev = EvStartElection]) (simp add: bgn)
  note peers' = node_ok_peers [OF ok' _ n]
  define t where "t = currentTerm (nodes s n) + 1"
  define targets where "targets = (if quorumSize r' = 1 then [] else map fst (peers r'))"
  define waiting where "waiting = (if quorumSize r' = 1 then [n] else map fst (peers r'))"
  have id: "raft_id (nodes s n) = n" and ne: "n \<noteq> []"
    using ok n valid by (auto simp: node_ok_def valid_ids_def)
  have s': "nodes s' = (nodes s)(n := r')" "msgs s' = map (\<lambda>p. VoteReq p args) targets @ msgs s"
    "pending s' = map (\<lambda>p. (n, t, p)) waiting @ pending s" "votes s' = (votes s)((n, t) := 1)"
    "started s' = (n, t) # started s"
    using exec n by (auto simp: bgn Let_def send_def set_node_def f(4) t_def targets_def waiting_def)
  have granted: "granted s' p u c = granted s p u c" for p u c
    by (auto simp: granted_def s')
  have voted: "voted s' p u c \<longleftrightarrow> voted s p u c \<or> p = n \<and> c = n \<and> u = t" for p u c
    by (auto simp: voted_def granted s')
  have fresh: "\<not> voted s n t c" for c
    using cast_at_le [OF cast_okD(3) [OF I(3)], of n t c] by (auto simp: t_def)
  have bal: "ballot_le (nodes s n) r'" using bgn by (rule startElection_begin_ballot)
  have "\<forall>k \<in> set ids. node_ok ids k (nodes s' k)" using I(1) ok' by (simp add: s')
  moreover have "\<forall>m \<in> set (msgs s'). msg_ok ids s' m"
  proof
    fix m assume "m \<in> set (msgs s')"
    then consider p where "m = VoteReq p args" "p \<in> set targets" | "m \<in> set (msgs s)"
      by (auto simp: s')
    then show "msg_ok ids s' m"
    proof cases
      case 1
      with peers'(1) valid n id f show ?thesis
        by (auto simp: targets_def s' t_def valid_ids_def split: if_splits)
    next
      case 2
      then have "msg_ok ids s m" by (rule I(2))
      then show ?thesis by - (cases m, auto simp: s')
    qed
  qed
  moreover have "cast_ok ids s'"
    unfolding cast_ok_def voted s'(1)
  proof (intro allI impI)
    fix p u c assume "voted s p u c \<or> p = n \<and> c = n \<and> u = t"
    then show "p \<in> set ids \<and> c \<in> set ids \<and> cast_at (((nodes s)(n := r')) p) u c"
    proof
      assume v: "voted s p u c"
      note d = cast_okD [OF I(3) v]
      with valid have "c \<noteq> []" by (auto simp: valid_ids_def)
      with d cast_at_mono [OF _ bal] show ?thesis by auto
    next
      assume "p = n \<and> c = n \<and> u = t"
      with n f(2,3) id show ?thesis by (simp add: cast_at_def t_def)
    qed
  qed
  moreover have "vote_unique s'"
    using I(4) fresh unfolding vote_unique_def voted by blast
  moreover have "pending_ok ids s'"
    using I(5) n peers'(1,3) valid by (auto simp: pending_ok_def s' waiting_def valid_ids_def split: if_splits)
  moreover have "count_ok ids s'"
    unfolding count_ok_def
  proof (intro allI impI)
    fix c u assume st: "(c, u) \<in> set (started s')"
    show "votes s' (c, u) \<le> 1 + int (card (counted ids s' c u))"
    proof (cases "(c, u) = (n, t)")
      case True
      then show ?thesis by (simp add: s')
    next
      case False
      then have "counted ids s' c u = counted ids s c u"
        by (auto simp: counted_def granted s')
      with False st I(6) show ?thesis by (auto simp: count_ok_def s')
    qed
  qed
  moreover have "leaders_ok ids s'"
  proof -
    have "elected ids s' k u" if "elected ids s k u" for k u
      using that by (rule elected_mono) (auto simp: s')
    with I(7) f(1) show ?thesis by (auto simp: leaders_ok_def s')
  qed
  ultimately show ?thesis by (simp add: election_inv_def)
qed

subsection \<open>Winning an election\<close>

lemma quorum_elected:
  assumes ok: "node_ok ids n r" and ids: "distinct ids" "n \<in> set ids" and st: "(n, t) \<in> set (started s)"
    and quorum: "quorumSize r \<le> 1 + int (card (counted ids s n t))"
  shows "elected ids s n t"
proof -
  have sub: "insert n (counted ids s n t) \<subseteq> {p \<in> set ids. voted s p t n}"
    using ids(2) st by (auto simp: counted_def voted_def)
  have "n \<notin> counted ids s n t" by (simp add: counted_def)
  then have "1 + card (counted ids s n t) = card (insert n (counted ids s n t))" by simp
  also have "\<dots> \<le> card {p \<in> set ids. voted s p t n}"
    using sub by (intro card_mono) simp_all
  finally have "quorumSize r \<le> int (card {p \<in> set ids. voted s p t n})"
    using quorum by linarith
  with quorumSize_majority [of r] node_ok_peers(2) [OF ok ids] show ?thesis
    by (simp add: elected_def)
qed

lemma handleVoteReply_cases:
  assumes "handleVoteReply ops t reply v r = (v', r', effs)"
  obtains (idle) "v' = v" "state r' = Leader \<Longrightarrow> r' = r"
  | (count) "v' = v + 1" "rvr_VoteGranted reply" "r' = r" "state r = Candidate"
  | (lead) "v' = v + 1" "rvr_VoteGranted reply" "r' = becomeLeaderLocked r" "state r = Candidate"
      "currentTerm r = t" "quorumSize r \<le> v'"
  using assms by (auto simp: handleVoteReply_def Let_def split: if_splits)

lemma vote_reply_step:
  assumes inv: "election_inv ids s" and valid: "valid_ids ids"
    and exec: "cluster_exec compact ids (DeliverVoteRep c t p reply) s = Some s'"
  shows "election_inv ids s'"
proof -
  note I = election_invD [OF inv]
  obtain v' r' effs where h: "handleVoteReply memory_ops t reply (votes s (c, t)) (nodes s c) = (v', r', effs)"
    by (cases "handleVoteReply memory_ops t reply (votes s (c, t)) (nodes s c)") auto
  have msg: "VoteRep c t p reply \<in> set (msgs s)" and pend: "(c, t, p) \<in> set (pending s)"
    and s': "nodes s' = (nodes s)(c := r')" "msgs s' = msgs s" "started s' = started s"
      "pending s' = filter (\<lambda>w. w \<noteq> (c, t, p)) (pending s)" "votes s' = (votes s)((c, t) := v')"
    using exec h by (auto simp: set_node_def split: if_splits)
  have c: "c \<in> set ids" "p \<in> set ids" "p \<noteq> c" using I(2) [OF msg] by simp_all
  have st: "(c, t) \<in> set (started s)" using I(5) pend by (auto simp: pending_ok_def)
  have ok: "node_ok ids c (nodes s c)" using c(1) by (rule I(1))
  have exec': "node_exec memory_ops (EvVoteReply t reply (votes s (c, t))) (nodes s c) = Some r'"
    by (simp add: h)
  have sub: "set (pending s') \<subseteq> set (pending s)" by (auto simp: s')
  have mono: "card (counted ids s a u) \<le> card (counted ids s' a u)" for a u
    using sub by (rule counted_mono) (simp add: s')
  have more: "1 + card (counted ids s c t) \<le> card (counted ids s' c t)" if "rvr_VoteGranted reply"
  proof -
    have "insert p (counted ids s c t) \<subseteq> counted ids s' c t"
      using c that msg by (auto simp: counted_def granted_def s')
    moreover have "p \<notin> counted ids s c t" using pend by (simp add: counted_def)
    ultimately show ?thesis
      using card_mono [of "counted ids s' c t" "insert p (counted ids s c t)"] by simp
  qed
  have before: "votes s (c, t) \<le> 1 + int (card (counted ids s c t))"
    using I(6) st by (simp add: count_ok_def)
  have v': "v' \<le> 1 + int (card (counted ids s' c t))"
    using h by (rule handleVoteReply_cases) (use before mono [of c t] more in linarith)+
  have elected_same: "elected ids s' c u = elected ids s c u" for u
    by (simp add: elected_def voted_def granted_def s')
  show ?thesis
  proof (rule voteless_step [OF inv valid c(1) s'(1)])
    show "ballot_le (nodes s c) r'" using exec' by (rule node_exec_ballot)
    show "node_ok ids c r'" using ok exec' by (rule node_exec_ok)
    show "elected ids s c (currentTerm r')" if "state r' = Leader"
      using h
    proof (rule handleVoteReply_cases)
      assume "v' = votes s (c, t)" and "state r' = Leader \<Longrightarrow> r' = nodes s c"
      with that have "r' = nodes s c" by simp
      with that c(1) I(7) show ?thesis by (auto simp: leaders_ok_def)
    next
      assume "r' = nodes s c" "state (nodes s c) = Candidate"
      with that show ?thesis by simp
    next
      assume "r' = becomeLeaderLocked (nodes s c)" "currentTerm (nodes s c) = t"
        "quorumSize (nodes s c) \<le> v'"
      with v' quorum_elected [OF ok _ c(1), of t s'] st valid show ?thesis
        by (simp add: s' elected_same valid_ids_def)
    qed
    show "count_ok ids s'"
      unfolding count_ok_def
    proof (intro allI impI)
      fix a u assume "(a, u) \<in> set (started s')"
      then have "votes s (a, u) \<le> 1 + int (card (counted ids s a u))"
        using I(6) by (simp add: count_ok_def s')
      then have "votes s (a, u) \<le> 1 + int (card (counted ids s' a u))"
        using mono [of a u] by linarith
      with v' show "votes s' (a, u) \<le> 1 + int (card (counted ids s' a u))"
        by (auto simp: s'(5))
    qed
  qed (use s' sub in auto)
qed

lemma alone_step:
  assumes inv: "election_inv ids s" and valid: "valid_ids ids"
    and exec: "cluster_exec compact ids (AloneElected n t) s = Some s'"
  shows "election_inv ids s'"
proof -
  note I = election_invD [OF inv]
  let ?r' = "startElection_alone t (nodes s n)"
  have s': "nodes s' = (nodes s)(n := ?r')" "msgs s' = msgs s" "started s' = started s"
      "votes s' = votes s" "pending s' = filter (\<lambda>w. w \<noteq> (n, t, n)) (pending s)"
    and pend: "(n, t, n) \<in> set (pending s)"
    using exec by (auto simp: set_node_def split: if_splits)
  have st: "(n, t) \<in> set (started s)" and alone: "ids = [n]" and n: "n \<in> set ids"
    using I(5) pend by (auto simp: pending_ok_def)
  have exec': "node_exec memory_ops (EvStartElectionAlone t) (nodes s n) = Some ?r'" by simp
  have "voted s n t n" using st by (simp add: voted_def)
  then have "{p \<in> set ids. voted s p t n} = {n}" using alone by auto
  then have el: "elected ids s n t" using alone by (simp add: elected_def)
  show ?thesis
  proof (rule voteless_step [OF inv valid n s'(1)])
    show "ballot_le (nodes s n) ?r'" using exec' by (rule node_exec_ballot)
    show "node_ok ids n ?r'" using I(1) [OF n] exec' by (rule node_exec_ok)
    show "elected ids s n (currentTerm ?r')" if "state ?r' = Leader"
      using that el I(7) n by (auto simp: startElection_alone_def leaders_ok_def split: if_splits)
    show "count_ok ids s'"
      using I(6) by (rule count_ok_mono) (auto simp: s')
  qed (use s' in auto)
qed

subsection \<open>Granting a vote\<close>

lemma HandleRequestVote_free:
  assumes "HandleRequestVote ops r args = (reply, r')" and "rvr_VoteGranted reply"
    and "currentTerm r = rva_Term args"
  shows "votedFor r = [] \<or> votedFor r = rva_CandidateID args"
  using assms by (auto simp: HandleRequestVote_def Let_def split: if_splits)

lemma vote_request_step:
  assumes inv: "election_inv ids s" and valid: "valid_ids ids"
    and exec: "cluster_exec compact ids (DeliverVoteReq p args) s = Some s'"
  shows "election_inv ids s'"
proof -
  note I = election_invD [OF inv]
  obtain reply r' where h: "HandleRequestVote memory_ops (nodes s p) args = (reply, r')"
    by (cases "HandleRequestVote memory_ops (nodes s p) args") auto
  define c t where "c = rva_CandidateID args" and "t = rva_Term args"
  have msg: "VoteReq p args \<in> set (msgs s)"
    and s': "nodes s' = (nodes s)(p := r')" "msgs s' = VoteRep c t p reply # msgs s"
      "started s' = started s" "votes s' = votes s" "pending s' = pending s"
    using exec h by (auto simp: set_node_def send_def c_def t_def split: if_splits)
  have ids: "p \<in> set ids" "c \<in> set ids" "p \<noteq> c" using I(2) [OF msg] by (simp_all add: c_def)
  have exec': "node_exec memory_ops (EvRequestVote args) (nodes s p) = Some r'" by (simp add: h)
  note bal = node_exec_ballot [OF exec']
  have voted: "voted s' q u d \<longleftrightarrow> voted s q u d \<or> q = p \<and> u = t \<and> d = c \<and> rvr_VoteGranted reply"
    for q u d by (auto simp: voted_def granted_def s')
  have same_vote: "d = c" if "rvr_VoteGranted reply" "voted s p t d" for d
  proof -
    note g = HandleRequestVote_granted [OF h that(1)]
    note cast = cast_okD [OF I(3) that(2)]
    from cast(3) g(1) have "currentTerm (nodes s p) = t" "votedFor (nodes s p) = d"
      by (auto simp: cast_at_def t_def)
    with HandleRequestVote_free [OF h that(1)] cast(2) valid show ?thesis
      by (auto simp: t_def c_def valid_ids_def)
  qed
  have "\<forall>k \<in> set ids. node_ok ids k (nodes s' k)"
    using I(1) node_exec_ok [OF I(1) [OF ids(1)] exec'] by (simp add: s')
  moreover have "\<forall>m \<in> set (msgs s'). msg_ok ids s' m"
  proof
    fix m assume "m \<in> set (msgs s')"
    then have "m = VoteRep c t p reply \<or> msg_ok ids s m" using I(2) by (auto simp: s')
    then show "msg_ok ids s' m" using ids by - (cases m, auto simp: s')
  qed
  moreover have "cast_ok ids s'"
    unfolding cast_ok_def voted s'(1)
  proof (intro allI impI)
    fix q u d assume "voted s q u d \<or> q = p \<and> u = t \<and> d = c \<and> rvr_VoteGranted reply"
    then show "q \<in> set ids \<and> d \<in> set ids \<and> cast_at (((nodes s)(p := r')) q) u d"
    proof
      assume v: "voted s q u d"
      note d = cast_okD [OF I(3) v]
      with valid have "d \<noteq> []" by (auto simp: valid_ids_def)
      with d cast_at_mono [OF _ bal] show ?thesis by auto
    next
      assume "q = p \<and> u = t \<and> d = c \<and> rvr_VoteGranted reply"
      with ids HandleRequestVote_granted(2,3) [OF h] show ?thesis
        by (simp add: cast_at_def t_def c_def)
    qed
  qed
  moreover have "vote_unique s'"
    using I(4) same_vote unfolding vote_unique_def voted by blast
  moreover have "pending_ok ids s'" using I(5) by (simp add: pending_ok_def s')
  moreover have "count_ok ids s'"
    using I(6) by (rule count_ok_mono) (auto simp: s')
  moreover have "leaders_ok ids s'"
  proof -
    have "elected ids s' k u" if "elected ids s k u" for k u
      using that by (rule elected_mono) (auto simp: s')
    with I(7) node_exec_leader [OF exec'] ids(1) show ?thesis by (auto simp: leaders_ok_def s')
  qed
  ultimately show ?thesis by (simp add: election_inv_def)
qed

subsection \<open>Every event\<close>

lemma cluster_exec_election_inv:
  assumes inv: "election_inv ids s" and valid: "valid_ids ids"
    and exec: "cluster_exec compact ids ev s = Some s'"
  shows "election_inv ids s'"
proof -
  note I = election_invD [OF inv]
  note quiet = quiet_exec [OF inv valid]
  show ?thesis
  proof (cases ev)
    case (Timeout n)
    then show ?thesis using timeout_step [OF inv valid] exec by simp
  next
    case (AloneElected n t)
    then show ?thesis using alone_step [OF inv valid] exec by simp
  next
    case (DeliverVoteReq p args)
    then show ?thesis using vote_request_step [OF inv valid] exec by simp
  next
    case (DeliverVoteRep c t p reply)
    then show ?thesis using vote_reply_step [OF inv valid] exec by simp
  next
    case (ClientStart n cmd)
    with exec quiet [of n "EvStart cmd" _ "[]"] show ?thesis by (auto split: if_splits)
  next
    case (AdvanceCommit n)
    with exec quiet [of n EvAdvanceCommit _ "[]"] show ?thesis by (auto split: if_splits)
  next
    case (SendAppend n p)
    then have n: "n \<in> set ids" and p: "p \<in> fst ` set (peers (nodes s n))"
      using exec by (auto split: if_splits)
    have ok: "node_ok ids n (nodes s n)" using n by (rule I(1))
    have pid: "p \<in> set ids" using node_ok_peers(1) [OF ok _ n] valid p by (auto simp: valid_ids_def)
    have id: "raft_id (nodes s n) = n" using ok by (simp add: node_ok_def)
    show ?thesis
    proof (cases "sendAppendEntries_locked (nodes s n) p")
      case (Pair st r)
      note shape = sendAppendEntries_locked_shape [of "nodes s n" p]
      have leader: "aea_LeaderID args = n" if "st = CallAppendEntries args" for args
        using that Pair id by (auto simp: sendAppendEntries_locked_def Let_def split: if_splits)
      have leader': "isa_LeaderID args = n" if "sendInstallSnapshot_locked r = Some args" for args
        using that Pair id shape by (auto simp: sendInstallSnapshot_locked_def split: if_splits)
      have run: "st \<noteq> SendPanic \<Longrightarrow> node_exec memory_ops (EvSendAppendEntries p) (nodes s n) = Some r"
        using Pair by (simp split: SendStep.split)
      show ?thesis
        using SendAppend exec n p pid Pair leader leader' run
          quiet [of n "EvSendAppendEntries p" r "[]"]
          quiet [of n "EvSendAppendEntries p" r "[AppendReq p args]" for args]
          quiet [of n "EvSendAppendEntries p" r "[SnapReq p args]" for args]
        by (auto split: SendStep.splits option.splits)
    qed
  next
    case (DeliverAppendReq p args)
    then have msg: "AppendReq p args \<in> set (msgs s)" using exec by (auto split: if_splits)
    show ?thesis
    proof (cases "HandleAppendEntries_locked memory_ops (nodes s p) args")
      case (fields reply r b)
      with DeliverAppendReq exec msg I(2) [OF msg]
        quiet [of p "EvAppendEntries args" r "[AppendRep p args reply]"]
      show ?thesis by auto
    qed
  next
    case (DeliverAppendRep p args reply)
    then have msg: "AppendRep p args reply \<in> set (msgs s)" using exec by (auto simp: Let_def split: if_splits)
    with DeliverAppendRep exec I(2) [OF msg]
      quiet [of "aea_LeaderID args" "EvAppendReply p args reply" _ "[]"] show ?thesis
      by (auto simp: Let_def)
  next
    case (Local n ev')
    moreover have "local_event ev' \<Longrightarrow> \<not> leading_event ev'" by (cases ev') auto
    ultimately show ?thesis
      using exec quiet [of n ev' _ "[]"] by (auto split: if_splits option.splits)
  next
    case (CrashRestart n)
    then have n: "n \<in> set ids" using exec by (auto split: if_splits)
    have ok: "node_ok ids n (nodes s n)" using n by (rule I(1))
    have ne: "n \<noteq> []" using n valid by (auto simp: valid_ids_def)
    note b = boot_fields [OF ne, of "nodes s n" ids "nodes s n"]
    show ?thesis
    proof (rule quiet_step [OF inv valid n])
      show "nodes s' = (nodes s)(n := boot ids n (storage (nodes s n)) (nodes s n))"
        using CrashRestart exec n by (auto simp: set_node_def)
    qed (use CrashRestart exec n ok b in \<open>auto simp: set_node_def node_ok_def ballot_le_same\<close>)
  next
    case (TakeSnapshot n index data)
    with exec quiet [of n "EvSnapshot index data" _ "[]"] show ?thesis by (auto split: if_splits)
  next
    case (DeliverSnapReq p args)
    then have msg: "SnapReq p args \<in> set (msgs s)" using exec by (auto split: if_splits)
    show ?thesis
    proof (cases "HandleInstallSnapshot_locked memory_ops (nodes s p) args")
      case (fields reply r b)
      with DeliverSnapReq exec msg I(2) [OF msg]
        quiet [of p "EvInstallSnapshot args" r "[SnapRep p args reply]"]
      show ?thesis by auto
    qed
  next
    case (DeliverSnapRep p args reply)
    then have msg: "SnapRep p args reply \<in> set (msgs s)" using exec by (auto simp: Let_def split: if_splits)
    with DeliverSnapRep exec I(2) [OF msg]
      quiet [of "isa_LeaderID args" "EvInstallReply p args reply" _ "[]"] show ?thesis
      by (auto simp: Let_def)
  qed
qed

subsection \<open>Reachable clusters\<close>

lemma boot_fresh:
  assumes "n \<noteq> []"
  shows "node_ok ids n (boot ids n NewMemoryStorage d)"
    and "state (boot ids n NewMemoryStorage d) = Follower"
    and "raft_log (boot ids n NewMemoryStorage d) = [sentinel 0]"
    and "logOffset (boot ids n NewMemoryStorage d) = 0"
    and "commitIndex (boot ids n NewMemoryStorage d) = 0"
    and "lastApplied (boot ids n NewMemoryStorage d) = 0"
    and "currentTerm (boot ids n NewMemoryStorage d) = 0"
  using assms
  by (auto simp: boot_def NewRaft_def Let_def node_cfg_def clampIndexes_eq node_ok_def synced_on_def
      ballot_of_def persistentState_def NewMemoryStorage_def zero_PersistentState_def initialLog_def
      log_defs memory_ops_def MemoryStorage_Load_def zero_Snapshot_def)

lemma init_election_inv:
  assumes "valid_ids ids"
  shows "election_inv ids (init_cluster ids)"
proof -
  have "n \<noteq> []" if "n \<in> set ids" for n using that assms by (auto simp: valid_ids_def)
  then show ?thesis
    by (auto simp: boot_fresh election_inv_def init_cluster_def cast_ok_def vote_unique_def
        pending_ok_def count_ok_def leaders_ok_def voted_def granted_def)
qed

lemma reachable_election_inv:
  "reachable compact ids s \<Longrightarrow> valid_ids ids \<Longrightarrow> election_inv ids s"
  by (induction rule: reachable.induct) (auto intro: init_election_inv cluster_exec_election_inv)

lemma cluster_exec_grows:
  assumes "cluster_exec compact ids ev s = Some s'"
  shows "set (msgs s) \<subseteq> set (msgs s')" and "set (started s) \<subseteq> set (started s')"
  using assms
  by (cases ev; auto simp: send_def set_node_def Let_def split: if_splits option.splits SendStep.splits prod.splits)+

lemma cluster_run_grows:
  "cluster_run compact ids evs s = Some s' \<Longrightarrow>
     set (msgs s) \<subseteq> set (msgs s') \<and> set (started s) \<subseteq> set (started s')"
proof (induction evs arbitrary: s)
  case (Cons ev evs)
  then obtain s1 where "cluster_exec compact ids ev s = Some s1" "cluster_run compact ids evs s1 = Some s'"
    by (auto split: option.splits)
  with Cons.IH cluster_exec_grows show ?case by blast
qed auto

text \<open>
  C2.  Election safety.  Take any reachable cluster and any continuation of its run, with messages
  lost, repeated or reordered and nodes crashing and restarting from their storage.  If a node leads
  some term at the first point and a node leads the same term at the second, they are one node.
\<close>

theorem election_safety:
  assumes "valid_ids ids" and "reachable compact ids s" and "cluster_run compact ids evs s = Some s'"
    and "n \<in> set ids" and "m \<in> set ids"
    and "state (nodes s n) = Leader" and "state (nodes s' m) = Leader"
    and "currentTerm (nodes s n) = currentTerm (nodes s' m)"
  shows "n = m"
proof -
  have inv: "election_inv ids s" "election_inv ids s'"
    using assms(1-3) by (auto intro: reachable_election_inv cluster_run_reachable)
  have "elected ids s n (currentTerm (nodes s n))" and "elected ids s' m (currentTerm (nodes s' m))"
    using election_invD(7) [OF inv(1)] election_invD(7) [OF inv(2)] assms(4-7)
    by (auto simp: leaders_ok_def)
  with cluster_run_grows [OF assms(3)] assms(1,8) show ?thesis
    by (metis elected_mono elected_unique inv(2) valid_ids_def)
qed

text \<open>An election of three nodes: the first candidate wins, and later sends its first append.\<close>

definition election_run :: "ClusterEvent list" where
  "election_run = [Timeout ''n1'', DeliverVoteReq ''n2'' (ask_vote ''n1''),
     DeliverVoteRep ''n1'' 1 ''n2'' vote_yes]"

definition after_run :: "ClusterEvent list \<Rightarrow> cluster" where
  "after_run evs = the (cluster_run False trio evs (init_cluster trio))"

lemma after_run_reachable:
  assumes "cluster_run False trio evs (init_cluster trio) \<noteq> None"
  shows "cluster_run False trio evs (init_cluster trio) = Some (after_run evs)"
    and "reachable False trio (after_run evs)"
  using assms cluster_run_reachable [OF _ reach_init] by (auto simp: after_run_def)

theorem election_safety_witness:
  "state (nodes (after_run election_run) ''n1'') = Leader \<and>
   {m \<in> set trio. state (nodes (after_run election_run) m) = Leader \<and>
      currentTerm (nodes (after_run election_run) m) = 1} = {''n1''}"
proof -
  let ?s = "after_run election_run"
  have ids: "valid_ids trio" by code_simp
  have "cluster_run False trio election_run (init_cluster trio) \<noteq> None" by code_simp
  note reach = after_run_reachable(2) [OF this]
  have lead: "state (nodes ?s ''n1'') = Leader \<and> currentTerm (nodes ?s ''n1'') = 1 \<and> ''n1'' \<in> set trio"
    by code_simp
  have "m = ''n1''" if "m \<in> set trio" "state (nodes ?s m) = Leader" "currentTerm (nodes ?s m) = 1" for m
    using election_safety [OF ids reach, of "[]" ?s "''n1''" m] lead that by simp
  with lead show ?thesis by auto
qed

end
