(* ===== verification/Log_History.thy ===== *)
theory Log_History
  imports Raft_State "HOL-Library.Sublist"
begin

text \<open>
  The argument for the safety of the replicated log, on a history of the cluster: the term and log of
  every node, the log of the leader of every term as far as it grew, how far each node has acknowledged
  the log of each term, and the log each node had when it voted in a term.  An index of a term is
  \<open>choosable\<close> while a majority has acknowledged it or may still do so.  The invariant says that a
  choosable entry is in the log of everyone who acknowledged it, in the log each of them voted with
  later, and in the log of every later leader.  Five kinds of steps keep it.
\<close>

type_synonym lg = "LogEntry list"

record hist =
  h_term :: "node_id \<Rightarrow> int"
  h_log :: "node_id \<Rightarrow> lg"
  h_lead :: "int \<Rightarrow> lg"
  h_acc :: "node_id \<Rightarrow> int \<Rightarrow> nat"
  h_vote :: "node_id \<Rightarrow> int \<Rightarrow> lg"

subsection \<open>Agreement of logs\<close>

abbreviation trm :: "lg \<Rightarrow> nat \<Rightarrow> int" where
  "trm l i \<equiv> le_Term (l ! i)"

text \<open>Both logs reach index \<open>i\<close> and are the same up to it.\<close>

definition agree :: "nat \<Rightarrow> lg \<Rightarrow> lg \<Rightarrow> bool" where
  "agree i a b \<longleftrightarrow> i < length a \<and> i < length b \<and> take (Suc i) a = take (Suc i) b"

lemma agree_refl: "i < length a \<Longrightarrow> agree i a a"
  by (simp add: agree_def)

lemma agree_sym: "agree i a b \<Longrightarrow> agree i b a"
  by (simp add: agree_def)

lemma agree_trans: "agree i a b \<Longrightarrow> agree i b c \<Longrightarrow> agree i a c"
  by (simp add: agree_def)

lemma agree_less: "agree i a b \<Longrightarrow> j \<le> i \<Longrightarrow> agree j a b"
proof -
  assume ab: "agree i a b" and j: "j \<le> i"
  have "take (Suc j) (take (Suc i) l) = take (Suc j) l" for l :: lg
    using j by (simp add: min_def)
  with ab j show "agree j a b" unfolding agree_def by (metis le_less_trans)
qed

lemma agree_nth: "agree i a b \<Longrightarrow> j \<le> i \<Longrightarrow> a ! j = b ! j"
  unfolding agree_def by (metis le_imp_less_Suc nth_take)

lemma agree_append: "agree i a b \<Longrightarrow> agree i a (b @ c)"
  by (simp add: agree_def)

lemma agree_take: "i \<le> k \<Longrightarrow> agree i a b \<Longrightarrow> agree i (take (Suc k) a) b"
  by (simp add: agree_def min_def)

subsection \<open>Well-formed logs\<close>

text \<open>
  A log starts with the sentinel, its terms are positive and never decrease, and up to each entry it is
  the log of the leader of that entry's term.
\<close>

definition log_ok :: "hist \<Rightarrow> lg \<Rightarrow> bool" where
  "log_ok h l \<longleftrightarrow> l \<noteq> [] \<and> l ! 0 = sentinel 0 \<and> sorted (map le_Term l) \<and>
     (\<forall>i. 0 < i \<and> i < length l \<longrightarrow> 0 < trm l i \<and> agree i l (h_lead h (trm l i)))"

lemma log_okD:
  assumes "log_ok h l"
  shows "l \<noteq> []" and "l ! 0 = sentinel 0"
    and "0 < i \<Longrightarrow> i < length l \<Longrightarrow> 0 < trm l i"
    and "0 < i \<Longrightarrow> i < length l \<Longrightarrow> agree i l (h_lead h (trm l i))"
    and "i \<le> j \<Longrightarrow> j < length l \<Longrightarrow> trm l i \<le> trm l j"
  using assms sorted_nth_mono [of "map le_Term l" i j] by (auto simp: log_ok_def)

text \<open>Log matching: the same term at the same index means the same log up to it.\<close>

lemma log_matching:
  assumes "log_ok h a" and "log_ok h b" and "i < length a" and "i < length b" and "trm a i = trm b i"
  shows "agree i a b"
proof (cases "i = 0")
  case True
  then show ?thesis
    using log_okD(1,2) [OF assms(1)] log_okD(1,2) [OF assms(2)] by (simp add: agree_def take_Suc hd_conv_nth)
next
  case False
  then show ?thesis
    using log_okD(4) [OF assms(1), of i] log_okD(4) [OF assms(2), of i] assms(3-5)
    by (metis agree_sym agree_trans bot_nat_0.not_eq_extremum)
qed

lemma log_ok_take:
  assumes "log_ok h l"
  shows "log_ok h (take (Suc k) l)"
proof -
  have "sorted (map le_Term (take (Suc k) l))"
    using assms by (simp add: log_ok_def take_map [symmetric] sorted_wrt_take)
  moreover have "agree i (take (Suc k) l) (h_lead h (trm l i))" if "0 < i" "i < length l" "i \<le> k" for i
    using that log_okD(4) [OF assms] by (intro agree_take) simp_all
  ultimately show ?thesis
    using assms by (auto simp: log_ok_def)
qed

text \<open>What never shrinks: the leaders' logs, the acknowledgements, the votes.\<close>

definition later :: "hist \<Rightarrow> hist \<Rightarrow> bool" where
  "later h h' \<longleftrightarrow> (\<forall>t. prefix (h_lead h t) (h_lead h' t)) \<and> (\<forall>n t. h_acc h n t \<le> h_acc h' n t) \<and>
     (\<forall>n t. h_vote h n t \<noteq> [] \<longrightarrow> h_vote h' n t = h_vote h n t)"

lemma later_refl [simp]: "later h h"
  by (simp add: later_def)

lemma later_trans: "later h h' \<Longrightarrow> later h' h'' \<Longrightarrow> later h h''"
  unfolding later_def by (metis le_trans prefix_order.trans)

lemma laterD:
  assumes "later h h'"
  shows "prefix (h_lead h t) (h_lead h' t)" and "h_acc h n t \<le> h_acc h' n t"
    and "h_vote h n t \<noteq> [] \<Longrightarrow> h_vote h' n t = h_vote h n t"
  using assms by (auto simp: later_def)

lemma later_agree: "later h h' \<Longrightarrow> agree i a (h_lead h t) \<Longrightarrow> agree i a (h_lead h' t)"
  using laterD(1) [of h h' t] by (auto simp: prefix_def intro: agree_append)

lemma later_nonempty: "later h h' \<Longrightarrow> h_lead h t \<noteq> [] \<Longrightarrow> h_lead h' t \<noteq> []"
  using laterD(1) [of h h' t] by auto

lemma later_log_ok: "later h h' \<Longrightarrow> log_ok h l \<Longrightarrow> log_ok h' l"
  unfolding log_ok_def using later_agree by blast

subsection \<open>The order of positions\<close>

definition pos_of :: "lg \<Rightarrow> LogPos" where
  "pos_of l = LogPos (trm l (length l - 1)) (int (length l - 1))"

text \<open>
  If an entry that is the leader's of its own term is in a log, and another log is at least as up to
  date, then the other log ends in a later term, or is the same leader's log at least as far.
\<close>

lemma up_to_date_cases:
  assumes "log_ok h v" and "log_ok h c" and "pos_of v \<le> pos_of c"
    and "agree i v (h_lead h t)" and "trm (h_lead h t) i = t"
  obtains "t < trm c (length c - 1)"
  | "trm c (length c - 1) = t" and "i < length c"
proof -
  have i: "i < length v" "trm v i = t" using assms(4,5) agree_nth [OF assms(4), of i] by (auto simp: agree_def)
  have "t \<le> trm v (length v - 1)" using log_okD(5) [OF assms(1), of i "length v - 1"] i by simp
  moreover have "trm v (length v - 1) < trm c (length c - 1) \<or>
      trm v (length v - 1) = trm c (length c - 1) \<and> length v - 1 \<le> length c - 1"
    using assms(3) by (auto simp: pos_of_def less_eq_LogPos_def)
  moreover have "0 < length c" using log_okD(1) [OF assms(2)] by simp
  moreover have "i < length c" if "length v - 1 \<le> length c - 1"
    using that i(1) \<open>0 < length c\<close> by linarith
  ultimately show thesis using that by (cases "t < trm c (length c - 1)") auto
qed

subsection \<open>Quorums\<close>

definition majority :: "node_id set \<Rightarrow> node_id set \<Rightarrow> bool" where
  "majority U Q \<longleftrightarrow> Q \<subseteq> U \<and> card U < 2 * card Q"

lemma majority_meet: "finite U \<Longrightarrow> majority U Q \<Longrightarrow> majority U Q' \<Longrightarrow> \<exists>n \<in> U. n \<in> Q \<and> n \<in> Q'"
  unfolding majority_def using majorities_meet [of U Q Q'] by blast

definition valid_at :: "hist \<Rightarrow> int \<Rightarrow> nat \<Rightarrow> bool" where
  "valid_at h t i \<longleftrightarrow> 0 < i \<and> i < length (h_lead h t) \<and> trm (h_lead h t) i = t"

definition choosable :: "node_id set \<Rightarrow> hist \<Rightarrow> int \<Rightarrow> nat \<Rightarrow> bool" where
  "choosable U h t i \<longleftrightarrow> valid_at h t i \<and>
     (\<exists>Q. majority U Q \<and> (\<forall>n \<in> Q. i \<le> h_acc h n t \<or> h_term h n \<le> t))"

definition chosen :: "node_id set \<Rightarrow> hist \<Rightarrow> int \<Rightarrow> nat \<Rightarrow> bool" where
  "chosen U h t i \<longleftrightarrow> valid_at h t i \<and> (\<exists>Q. majority U Q \<and> (\<forall>n \<in> Q. i \<le> h_acc h n t))"

lemma chosen_choosable: "chosen U h t i \<Longrightarrow> choosable U h t i"
  by (auto simp: chosen_def choosable_def)

subsection \<open>The invariant\<close>

definition terms_le :: "int \<Rightarrow> lg \<Rightarrow> bool" where
  "terms_le t l \<longleftrightarrow> (\<forall>e \<in> set l. le_Term e \<le> t)"

definition hist_inv :: "node_id set \<Rightarrow> hist \<Rightarrow> bool" where
  "hist_inv U h \<longleftrightarrow>
     (\<forall>n \<in> U. log_ok h (h_log h n) \<and> terms_le (h_term h n) (h_log h n)) \<and>
     (\<forall>t. h_lead h t \<noteq> [] \<longrightarrow> log_ok h (h_lead h t) \<and> terms_le t (h_lead h t) \<and>
        (\<exists>Q. majority U Q \<and> (\<forall>n \<in> Q. t \<le> h_term h n))) \<and>
     (\<forall>n \<in> U. \<forall>t. 0 < h_acc h n t \<longrightarrow> t \<le> h_term h n \<and> h_acc h n t < length (h_lead h t)) \<and>
     (\<forall>n \<in> U. \<forall>t. h_vote h n t \<noteq> [] \<longrightarrow> log_ok h (h_vote h n t) \<and> t \<le> h_term h n) \<and>
     (\<forall>n \<in> U. \<forall>t i. choosable U h t i \<longrightarrow> i \<le> h_acc h n t \<longrightarrow> agree i (h_log h n) (h_lead h t)) \<and>
     (\<forall>n \<in> U. \<forall>t t' i. choosable U h t i \<longrightarrow> i \<le> h_acc h n t \<longrightarrow> t < t' \<longrightarrow> h_vote h n t' \<noteq> [] \<longrightarrow>
        agree i (h_vote h n t') (h_lead h t)) \<and>
     (\<forall>t t' i. choosable U h t i \<longrightarrow> t < t' \<longrightarrow> h_lead h t' \<noteq> [] \<longrightarrow> agree i (h_lead h t') (h_lead h t))"

lemma hist_invD:
  assumes "hist_inv U h"
  shows "n \<in> U \<Longrightarrow> log_ok h (h_log h n)"
    and "n \<in> U \<Longrightarrow> terms_le (h_term h n) (h_log h n)"
    and "h_lead h t \<noteq> [] \<Longrightarrow> log_ok h (h_lead h t)"
    and "h_lead h t \<noteq> [] \<Longrightarrow> terms_le t (h_lead h t)"
    and "h_lead h t \<noteq> [] \<Longrightarrow> \<exists>Q. majority U Q \<and> (\<forall>n \<in> Q. t \<le> h_term h n)"
    and "n \<in> U \<Longrightarrow> 0 < h_acc h n t \<Longrightarrow> t \<le> h_term h n \<and> h_acc h n t < length (h_lead h t)"
    and "n \<in> U \<Longrightarrow> h_vote h n t \<noteq> [] \<Longrightarrow> log_ok h (h_vote h n t) \<and> t \<le> h_term h n"
    and "n \<in> U \<Longrightarrow> choosable U h t i \<Longrightarrow> i \<le> h_acc h n t \<Longrightarrow> agree i (h_log h n) (h_lead h t)"
    and "n \<in> U \<Longrightarrow> choosable U h t i \<Longrightarrow> i \<le> h_acc h n t \<Longrightarrow> t < t' \<Longrightarrow> h_vote h n t' \<noteq> [] \<Longrightarrow>
      agree i (h_vote h n t') (h_lead h t)"
    and "choosable U h t i \<Longrightarrow> t < t' \<Longrightarrow> h_lead h t' \<noteq> [] \<Longrightarrow> agree i (h_lead h t') (h_lead h t)"
  using assms unfolding hist_inv_def by blast+

lemma hist_invI:
  assumes "\<And>n. n \<in> U \<Longrightarrow> log_ok h (h_log h n) \<and> terms_le (h_term h n) (h_log h n)"
    and "\<And>t. h_lead h t \<noteq> [] \<Longrightarrow> log_ok h (h_lead h t) \<and> terms_le t (h_lead h t)"
    and "\<And>t. h_lead h t \<noteq> [] \<Longrightarrow> \<exists>Q. majority U Q \<and> (\<forall>n \<in> Q. t \<le> h_term h n)"
    and "\<And>n t. n \<in> U \<Longrightarrow> 0 < h_acc h n t \<Longrightarrow> t \<le> h_term h n \<and> h_acc h n t < length (h_lead h t)"
    and "\<And>n t. n \<in> U \<Longrightarrow> h_vote h n t \<noteq> [] \<Longrightarrow> log_ok h (h_vote h n t) \<and> t \<le> h_term h n"
    and "\<And>n t i. n \<in> U \<Longrightarrow> choosable U h t i \<Longrightarrow> i \<le> h_acc h n t \<Longrightarrow> agree i (h_log h n) (h_lead h t)"
    and "\<And>n t t' i. n \<in> U \<Longrightarrow> choosable U h t i \<Longrightarrow> i \<le> h_acc h n t \<Longrightarrow> t < t' \<Longrightarrow> h_vote h n t' \<noteq> [] \<Longrightarrow>
      agree i (h_vote h n t') (h_lead h t)"
    and "\<And>t t' i. choosable U h t i \<Longrightarrow> t < t' \<Longrightarrow> h_lead h t' \<noteq> [] \<Longrightarrow> agree i (h_lead h t') (h_lead h t)"
  shows "hist_inv U h"
  using assms unfolding hist_inv_def by blast

lemma choosable_back:
  assumes "choosable U h' t i" and "valid_at h' t i \<Longrightarrow> valid_at h t i"
    and "\<And>n. n \<in> U \<Longrightarrow> h_term h n \<le> h_term h' n"
    and "\<And>n. n \<in> U \<Longrightarrow> i \<le> h_acc h' n t \<Longrightarrow> i \<le> h_acc h n t \<or> h_term h n \<le> t"
  shows "choosable U h t i"
proof -
  from assms(1) obtain Q where Q: "majority U Q" "\<forall>n \<in> Q. i \<le> h_acc h' n t \<or> h_term h' n \<le> t"
    by (auto simp: choosable_def)
  then have "\<forall>n \<in> Q. i \<le> h_acc h n t \<or> h_term h n \<le> t"
    using assms(3,4) by (meson majority_def order_trans subsetD)
  with Q(1) assms(1,2) show ?thesis by (auto simp: choosable_def)
qed

lemma terms_le_mono: "terms_le t l \<Longrightarrow> t \<le> t' \<Longrightarrow> terms_le t' l"
  by (auto simp: terms_le_def)

lemma terms_le_take: "terms_le t l \<Longrightarrow> terms_le t (take k l)"
  by (auto simp: terms_le_def dest: in_set_takeD)

lemma terms_le_nth: "terms_le t l \<Longrightarrow> i < length l \<Longrightarrow> trm l i \<le> t"
  by (simp add: terms_le_def)

subsection \<open>The steps\<close>

text \<open>A node moves to a later term.\<close>

lemma term_step:
  assumes inv: "hist_inv U h" and t': "h_term h p \<le> t'"
  shows "hist_inv U (h\<lparr>h_term := (h_term h)(p := t')\<rparr>)" (is "hist_inv U ?h'")
proof -
  note I = hist_invD [OF inv]
  have ok: "log_ok ?h' l = log_ok h l" for l by (simp add: log_ok_def)
  have up: "h_term h n \<le> h_term ?h' n" for n using t' by simp
  have ch: "choosable U h t i" if "choosable U ?h' t i" for t i
    by (rule choosable_back [OF that]) (use up in \<open>auto simp: valid_at_def\<close>)
  show ?thesis
  proof (rule hist_invI)
    fix t assume "h_lead ?h' t \<noteq> []"
    then obtain Q where "majority U Q" "\<forall>n \<in> Q. t \<le> h_term h n" using I(5) by auto
    then show "\<exists>Q. majority U Q \<and> (\<forall>n \<in> Q. t \<le> h_term ?h' n)" using up by (meson order_trans)
  next
    fix n t assume "n \<in> U" "h_vote ?h' n t \<noteq> []"
    then show "log_ok ?h' (h_vote ?h' n t) \<and> t \<le> h_term ?h' n"
      using I(7) [of n t] up [of n] ok by (simp del: fun_upd_apply)
  next
    fix n t assume "n \<in> U" "0 < h_acc ?h' n t"
    then show "t \<le> h_term ?h' n \<and> h_acc ?h' n t < length (h_lead ?h' t)"
      using I(6) [of n t] up [of n] by (simp del: fun_upd_apply)
  next
    fix n assume "n \<in> U"
    then show "log_ok ?h' (h_log ?h' n) \<and> terms_le (h_term ?h' n) (h_log ?h' n)"
      using I(1,2) [of n] up [of n] ok terms_le_mono by (simp del: fun_upd_apply)
  qed (use I(3,4,8,9,10) ch ok in auto)
qed

text \<open>A node votes, or stands for election, with the log it has.\<close>

lemma vote_step:
  assumes inv: "hist_inv U h" and p: "p \<in> U" and t': "h_term h p = t'"
  shows "hist_inv U (h\<lparr>h_vote := (h_vote h)(p := (h_vote h p)(t' := h_log h p))\<rparr>)" (is "hist_inv U ?h'")
proof -
  note I = hist_invD [OF inv]
  have ok: "log_ok ?h' l = log_ok h l" for l by (simp add: log_ok_def)
  have ch: "choosable U ?h' t i = choosable U h t i" for t i
    by (simp add: choosable_def valid_at_def)
  have vote: "h_vote ?h' n t = (if n = p \<and> t = t' then h_log h p else h_vote h n t)" for n t by simp
  show ?thesis
  proof (rule hist_invI)
    fix n t t'' i
    assume a: "n \<in> U" "choosable U ?h' t i" "i \<le> h_acc ?h' n t" "t < t''" "h_vote ?h' n t'' \<noteq> []"
    then show "agree i (h_vote ?h' n t'') (h_lead ?h' t)"
      using I(8) [of n t i] I(9) [of n t i t''] unfolding vote ch by auto
  next
    fix n t assume "n \<in> U" "h_vote ?h' n t \<noteq> []"
    then show "log_ok ?h' (h_vote ?h' n t) \<and> t \<le> h_term ?h' n"
      using I(1) [OF p] I(7) [of n t] t' unfolding vote ok by auto
  qed (use I(1-6,8,10) ch ok in auto)
qed

text \<open>A candidate with the votes of a majority becomes leader of a term that had none.\<close>

lemma lead_step:
  assumes inv: "hist_inv U h" and fin: "finite U" and new: "h_lead h t' = []"
    and lc: "log_ok h lc" "terms_le (t' - 1) lc"
    and Q: "majority U Q" "\<And>n. n \<in> Q \<Longrightarrow> h_vote h n t' \<noteq> [] \<and> pos_of (h_vote h n t') \<le> pos_of lc"
  shows "hist_inv U (h\<lparr>h_lead := (h_lead h)(t' := lc)\<rparr>)" (is "hist_inv U ?h'")
    and "later h (h\<lparr>h_lead := (h_lead h)(t' := lc)\<rparr>)"
proof -
  note I = hist_invD [OF inv]
  show later: "later h ?h'" using new by (simp add: later_def)
  have none: "\<not> valid_at ?h' t' i" for i
    using terms_le_nth [OF lc(2), of i] by (auto simp: valid_at_def)
  have ch: "choosable U h t i \<and> t \<noteq> t'" if "choosable U ?h' t i" for t i
  proof -
    have "valid_at ?h' t i" using that by (simp add: choosable_def)
    with none have "t \<noteq> t'" by blast
    with that show ?thesis by (simp add: choosable_def valid_at_def)
  qed
  have QU: "Q \<subseteq> U" using Q(1) by (simp add: majority_def)
  have votes: "t' \<le> h_term h n" if "n \<in> Q" for n
    using I(7) [of n t'] Q(2) [OF that] QU that by blast
  have key: "agree i lc (h_lead h t)" if c: "choosable U h t i" and less: "t < t'" for t i
  proof -
    obtain Q' where Q': "majority U Q'" "\<forall>n \<in> Q'. i \<le> h_acc h n t \<or> h_term h n \<le> t"
      using c by (auto simp: choosable_def)
    obtain n where n: "n \<in> U" "n \<in> Q" "n \<in> Q'" using majority_meet [OF fin Q(1) Q'(1)] by blast
    then have "i \<le> h_acc h n t" using Q'(2) votes [of n] less by force
    then have av: "agree i (h_vote h n t') (h_lead h t)" using I(9) [OF n(1) c _ less] Q(2) n(2) by blast
    have valid: "0 < i" "trm (h_lead h t) i = t" using c by (auto simp: choosable_def valid_at_def)
    let ?j = "length lc - 1"
    have j: "?j < length lc" using log_okD(1) [OF lc(1)] by simp
    have vok: "log_ok h (h_vote h n t')" using I(7) [OF n(1)] Q(2) n(2) by blast
    have pos: "pos_of (h_vote h n t') \<le> pos_of lc" using Q(2) n(2) by blast
    show ?thesis
    proof (rule up_to_date_cases [OF vok lc(1) pos av valid(2)])
      assume t: "t < trm lc ?j"
      let ?u = "trm lc ?j"
      have "0 < ?j"
      proof (rule ccontr)
        assume "\<not> 0 < ?j"
        then have "?u = 0" using log_okD(2) [OF lc(1)] by simp
        moreover have "i < length (h_lead h t)" using av by (simp add: agree_def)
        then have "0 < t" using log_okD(3) [OF I(3), of t i] valid by (cases "h_lead h t") auto
        ultimately show False using t by simp
      qed
      then have aj: "agree ?j lc (h_lead h ?u)" using log_okD(4) [OF lc(1) _ j] by simp
      then have ne: "h_lead h ?u \<noteq> []" by (auto simp: agree_def)
      have au: "agree i (h_lead h ?u) (h_lead h t)" using I(10) [OF c t ne] .
      have "i \<le> ?j"
      proof (rule ccontr)
        assume "\<not> i \<le> ?j"
        moreover have "i < length (h_lead h ?u)" using au by (simp add: agree_def)
        ultimately have "trm (h_lead h ?u) ?j \<le> trm (h_lead h ?u) i"
          using log_okD(5) [OF I(3) [OF ne], of ?j i] by simp
        with agree_nth [OF aj, of ?j] agree_nth [OF au, of i] valid t show False by simp
      qed
      then show ?thesis using agree_less [OF aj] au agree_trans by blast
    next
      assume t: "trm lc ?j = t" and i: "i < length lc"
      then have "agree ?j lc (h_lead h t)" using log_okD(4) [OF lc(1) _ j] valid(1) by simp
      then show ?thesis by (rule agree_less) (use i in simp)
    qed
  qed
  show "hist_inv U ?h'"
  proof (rule hist_invI)
    fix t assume "h_lead ?h' t \<noteq> []"
    then show "log_ok ?h' (h_lead ?h' t) \<and> terms_le t (h_lead ?h' t)"
      using I(3,4) [of t] lc later_log_ok [OF later] terms_le_mono [OF lc(2), of t'] by auto
    show "\<exists>Q. majority U Q \<and> (\<forall>n \<in> Q. t \<le> h_term ?h' n)"
      using I(5) [of t] \<open>h_lead ?h' t \<noteq> []\<close> Q(1) votes by (cases "t = t'") auto
  next
    fix t u i assume "choosable U ?h' t i" "t < u" "h_lead ?h' u \<noteq> []"
    then show "agree i (h_lead ?h' u) (h_lead ?h' t)"
      using ch [of t i] key [of t i] I(10) [of t i u] by (cases "u = t'") auto
  next
    fix n t assume a: "n \<in> U" "0 < h_acc ?h' n t"
    then show "t \<le> h_term ?h' n \<and> h_acc ?h' n t < length (h_lead ?h' t)"
      using I(6) [of n t] new by auto
  qed (use I(1,2,7,8,9) ch later_log_ok [OF later] in auto)
qed

text \<open>The leader of the node's own term appends an entry.\<close>

lemma append_step:
  assumes inv: "hist_inv U h" and fin: "finite U" and t: "h_term h p = t" "0 < t"
    and lead: "h_lead h t = h_log h p" "h_lead h t \<noteq> []" and e: "le_Term e = t"
  shows "hist_inv U (h\<lparr>h_log := (h_log h)(p := h_log h p @ [e]), h_lead := (h_lead h)(t := h_log h p @ [e])\<rparr>)"
      (is "hist_inv U ?h'")
    and "later h (h\<lparr>h_log := (h_log h)(p := h_log h p @ [e]), h_lead := (h_lead h)(t := h_log h p @ [e])\<rparr>)"
proof -
  note I = hist_invD [OF inv]
  let ?l = "h_log h p @ [e]" and ?k = "length (h_log h p)"
  show later: "later h ?h'" by (simp add: later_def lead)
  have terms: "terms_le t (h_log h p)" and ok: "log_ok h (h_log h p)" using I(3,4) [of t] lead by auto
  have new_ok: "log_ok ?h' ?l"
  proof -
    have "sorted (map le_Term ?l)" using ok terms e by (auto simp: log_ok_def terms_le_def sorted_append)
    moreover have "0 < trm ?l i \<and> agree i ?l (h_lead ?h' (trm ?l i))" if "0 < i" "i < length ?l" for i
    proof (cases "i = ?k")
      case True
      then show ?thesis using e t by (simp add: agree_def)
    next
      case False
      then have "i < ?k" "trm ?l i = trm (h_log h p) i" using that by (simp_all add: nth_append)
      with later_agree [OF later log_okD(4) [OF ok, of i]] log_okD(3) [OF ok, of i] that show ?thesis
        by (simp add: agree_def)
    qed
    ultimately show ?thesis using ok by (simp add: log_ok_def nth_append)
  qed
  have new_terms: "terms_le t ?l" using terms e by (auto simp: terms_le_def)
  have acc: "h_acc h n t < ?k" if "n \<in> U" for n
    using I(6) [OF that, of t] lead by (cases "h_acc h n t") auto
  have ch: "choosable U h u i \<or> u = t \<and> i = ?k" if "choosable U ?h' u i" for u i
  proof (cases "u = t \<and> i = ?k")
    case False
    with that show ?thesis
      by (auto simp: choosable_def valid_at_def lead nth_append split: if_splits)
  qed simp
  have alone: "h_lead h u = []" if c: "choosable U ?h' t ?k" and less: "t < u" for u
  proof (rule ccontr)
    assume "h_lead h u \<noteq> []"
    then obtain Q where Q: "majority U Q" "\<forall>n \<in> Q. u \<le> h_term h n" using I(5) by blast
    obtain Q' where Q': "majority U Q'" "\<forall>n \<in> Q'. ?k \<le> h_acc h n t \<or> h_term h n \<le> t"
      using c by (auto simp: choosable_def)
    obtain n where "n \<in> U" "n \<in> Q" "n \<in> Q'" using majority_meet [OF fin Q(1) Q'(1)] by blast
    with Q(2) Q'(2) acc [of n] less show False by force
  qed
  have keep: "agree i a (h_lead ?h' u)" if "agree i a (h_lead h u)" for i a u
    using later that by (rule later_agree)
  have keep2: "agree i (h_lead ?h' v) (h_lead ?h' u)" if "agree i (h_lead h v) (h_lead h u)" for i u v
    using agree_sym [OF keep [OF agree_sym [OF keep [OF that]]]] .
  show "hist_inv U ?h'"
  proof (rule hist_invI)
    fix n assume "n \<in> U"
    then show "log_ok ?h' (h_log ?h' n) \<and> terms_le (h_term ?h' n) (h_log ?h' n)"
      using I(1,2) [of n] later_log_ok [OF later] new_ok new_terms t by (cases "n = p") auto
  next
    fix u assume "h_lead ?h' u \<noteq> []"
    then show "log_ok ?h' (h_lead ?h' u) \<and> terms_le u (h_lead ?h' u)"
      using I(3,4) [of u] later_log_ok [OF later] new_ok new_terms by (cases "u = t") auto
    show "\<exists>Q. majority U Q \<and> (\<forall>n \<in> Q. u \<le> h_term ?h' n)"
      using I(5) [of u] lead \<open>h_lead ?h' u \<noteq> []\<close> by (cases "u = t") auto
  next
    fix n u assume "n \<in> U" "0 < h_acc ?h' n u"
    then show "u \<le> h_term ?h' n \<and> h_acc ?h' n u < length (h_lead ?h' u)"
      using I(6) [of n u] lead by (cases "u = t") auto
  next
    fix n u i assume a: "n \<in> U" "choosable U ?h' u i" "i \<le> h_acc ?h' n u"
    then have "choosable U h u i" using ch [OF a(2)] acc [of n] by auto
    then have "agree i (h_log h n) (h_lead h u)" using I(8) a by simp
    then have "agree i (h_log h n) (h_lead ?h' u)" by (rule keep)
    moreover from this have "agree i (h_log h n @ [e]) (h_lead ?h' u)"
      by (simp only: agree_sym [OF agree_append [OF agree_sym]])
    ultimately show "agree i (h_log ?h' n) (h_lead ?h' u)" by (cases "n = p") simp_all
  next
    fix n u u' i
    assume a: "n \<in> U" "choosable U ?h' u i" "i \<le> h_acc ?h' n u" "u < u'" "h_vote ?h' n u' \<noteq> []"
    then have "choosable U h u i" using ch [OF a(2)] acc [of n] by auto
    then show "agree i (h_vote ?h' n u') (h_lead ?h' u)"
      using I(9) [of n u i u'] a keep by simp
  next
    fix u u' i assume a: "choosable U ?h' u i" "u < u'" "h_lead ?h' u' \<noteq> []"
    show "agree i (h_lead ?h' u') (h_lead ?h' u)"
    proof (cases "u = t \<and> i = ?k")
      case True
      then have "h_lead h u' = []" "u' \<noteq> t" using alone a(1,2) by auto
      with a(3) show ?thesis by simp
    next
      case False
      then have "choosable U h u i" using ch [OF a(1)] by blast
      moreover have "h_lead h u' \<noteq> []" using a(3) lead by (cases "u' = t") auto
      ultimately have "agree i (h_lead h u') (h_lead h u)" using I(10) a(2) by blast
      then show ?thesis by (rule keep2)
    qed
  qed (use I(7) later_log_ok [OF later] in auto)
qed

text \<open>
  A node of the leader's term takes the leader's log up to index \<open>k\<close>, unless it already has it, and
  acknowledges it.
\<close>

definition accepted :: "nat \<Rightarrow> lg \<Rightarrow> lg \<Rightarrow> lg" where
  "accepted k l leadl = (if agree k l leadl then l else take (Suc k) leadl)"

lemma accepted_agree: "k < length b \<Longrightarrow> agree k (accepted k a b) b"
  by (simp add: accepted_def agree_def)

lemma accepted_keeps:
  assumes "agree i a b"
  shows "agree i (accepted k a b) a"
proof (cases "agree k a b")
  case True
  then show ?thesis using assms by (simp add: accepted_def agree_def)
next
  case False
  then have "i < k" using assms agree_less leI by blast
  moreover have "agree i b b" using assms by (simp add: agree_def)
  ultimately have "agree i (take (Suc k) b) b" by (intro agree_take) simp_all
  with assms have "agree i (take (Suc k) b) a" using agree_sym agree_trans by blast
  with False show ?thesis by (simp add: accepted_def)
qed

lemma accept_step:
  assumes inv: "hist_inv U h" and p: "p \<in> U" and t: "h_term h p = t" and k: "k < length (h_lead h t)"
  shows "hist_inv U (h\<lparr>h_log := (h_log h)(p := accepted k (h_log h p) (h_lead h t)),
      h_acc := (h_acc h)(p := (h_acc h p)(t := max (h_acc h p t) k))\<rparr>)" (is "hist_inv U ?h'")
    and "later h (h\<lparr>h_log := (h_log h)(p := accepted k (h_log h p) (h_lead h t)),
      h_acc := (h_acc h)(p := (h_acc h p)(t := max (h_acc h p t) k))\<rparr>)"
proof -
  note I = hist_invD [OF inv]
  let ?l = "accepted k (h_log h p) (h_lead h t)"
  have ne: "h_lead h t \<noteq> []" using k by auto
  show later: "later h ?h'" by (simp add: later_def)
  have ok: "log_ok ?h' l = log_ok h l" for l by (simp add: log_ok_def)
  have acc: "h_acc ?h' n u = (if n = p \<and> u = t then max (h_acc h p t) k else h_acc h n u)" for n u by simp
  have ch: "choosable U h u i" if "choosable U ?h' u i" for u i
    by (rule choosable_back [OF that]) (use t in \<open>auto simp: valid_at_def split: if_splits\<close>)
  have new: "log_ok h ?l" "terms_le t ?l"
    using I(1,2) [OF p] I(3,4) [OF ne] t log_ok_take terms_le_take by (auto simp: accepted_def)
  have own: "agree i ?l (h_lead h u)" if c: "choosable U h u i" and a: "i \<le> h_acc ?h' p u" for u i
  proof (cases "i \<le> h_acc h p u")
    case True
    have old: "agree i (h_log h p) (h_lead h u)" using I(8) [OF p c True] .
    have "0 < h_acc h p u" using True c by (auto simp: choosable_def valid_at_def)
    then have "u \<le> t" using I(6) [OF p] t by blast
    then have "agree i (h_lead h t) (h_lead h u)"
      using I(10) [OF c _ ne] c by (cases "u = t") (auto simp: choosable_def valid_at_def intro: agree_refl)
    then have "agree i (h_log h p) (h_lead h t)" using old agree_sym agree_trans by blast
    then have "agree i ?l (h_log h p)" by (rule accepted_keeps)
    then show ?thesis using old agree_trans by blast
  next
    case False
    then have "u = t" "i \<le> k" using a unfolding acc by (auto split: if_splits)
    then show ?thesis using agree_less [OF accepted_agree [OF k]] by blast
  qed
  show "hist_inv U ?h'"
  proof (rule hist_invI)
    fix n assume "n \<in> U"
    then show "log_ok ?h' (h_log ?h' n) \<and> terms_le (h_term ?h' n) (h_log ?h' n)"
      using I(1,2) [of n] new t unfolding ok by auto
  next
    fix n u assume "n \<in> U" "0 < h_acc ?h' n u"
    then show "u \<le> h_term ?h' n \<and> h_acc ?h' n u < length (h_lead ?h' u)"
      using I(6) [of n u] t k by (cases "n = p \<and> u = t"; cases "0 < h_acc h n u") auto
  next
    fix n u i assume "n \<in> U" "choosable U ?h' u i" "i \<le> h_acc ?h' n u"
    then show "agree i (h_log ?h' n) (h_lead ?h' u)"
      using I(8) [of n u i] own [of u i] ch [of u i] by (cases "n = p") auto
  next
    fix n u u' i
    assume a: "n \<in> U" "choosable U ?h' u i" "i \<le> h_acc ?h' n u" "u < u'" "h_vote ?h' n u' \<noteq> []"
    then have "u' \<le> h_term h n" using I(7) [of n u'] by simp
    with a(3,4) t have "i \<le> h_acc h n u" unfolding acc by (auto split: if_splits)
    then show "agree i (h_vote ?h' n u') (h_lead ?h' u)"
      using I(9) [of n u i u'] a ch [OF a(2)] by simp
  qed (use I(3-5,7,10) ch ok in auto)
qed

subsection \<open>Committed prefixes\<close>

text \<open>
  The log \<open>l\<close> holds up to index \<open>c\<close> what the leader of a term up to \<open>t\<close> had when a majority
  acknowledged it.
\<close>

definition com :: "node_id set \<Rightarrow> hist \<Rightarrow> int \<Rightarrow> lg \<Rightarrow> nat \<Rightarrow> bool" where
  "com U h t l c \<longleftrightarrow> c < length l \<and>
     (c = 0 \<or> (\<exists>u i. u \<le> t \<and> c \<le> i \<and> chosen U h u i \<and> agree c l (h_lead h u)))"

lemma chosen_later: "later h h' \<Longrightarrow> chosen U h t i \<Longrightarrow> chosen U h' t i"
  using laterD(1) [of h h' t] laterD(2) [of h h']
  by (auto simp: chosen_def valid_at_def prefix_def nth_append) (meson le_trans)

lemma com_later: "later h h' \<Longrightarrow> com U h t l c \<Longrightarrow> com U h' t l c"
  unfolding com_def using chosen_later later_agree by blast

lemma com_term: "com U h t l c \<Longrightarrow> t \<le> t' \<Longrightarrow> com U h t' l c"
  unfolding com_def by (meson order_trans)

lemma com_agree: "com U h t l c \<Longrightarrow> agree c l' l \<Longrightarrow> com U h t l' c"
  unfolding com_def using agree_trans agree_def by blast

lemma com_append: "com U h t l c \<Longrightarrow> com U h t (l @ x) c"
  by (rule com_agree) (auto simp: com_def agree_def)

text \<open>What is committed up to a term is in the log of that term's leader.\<close>

lemma com_lead:
  assumes inv: "hist_inv U h" and com: "com U h t l c" "0 < c" and ne: "h_lead h t \<noteq> []"
  shows "agree c l (h_lead h t)"
proof -
  obtain u i where u: "u \<le> t" "c \<le> i" "chosen U h u i" "agree c l (h_lead h u)"
    using com by (auto simp: com_def)
  have "agree i (h_lead h t) (h_lead h u)"
    using hist_invD(10) [OF inv chosen_choosable [OF u(3)] _ ne] u(1,3)
    by (cases "u = t") (auto simp: chosen_def valid_at_def intro: agree_refl)
  then show ?thesis using agree_less [OF _ u(2)] u(4) agree_sym agree_trans by blast
qed

lemma com_accepted:
  assumes inv: "hist_inv U h" and com: "com U h t l c" and k: "k < length (h_lead h t)"
  shows "com U h t (accepted k l (h_lead h t)) c"
proof (cases "c = 0")
  case True
  then show ?thesis using com k by (auto simp: com_def accepted_def)
next
  case False
  moreover have "h_lead h t \<noteq> []" using k by auto
  ultimately have "agree c l (h_lead h t)" using com_lead [OF inv com] by simp
  then show ?thesis using com_agree [OF com] accepted_keeps by blast
qed

text \<open>Committed prefixes agree.\<close>

lemma com_same:
  assumes inv: "hist_inv U h" and "com U h t l c" and "com U h t' l' c'" and "0 < c" and "c \<le> c'"
  shows "agree c l l'"
proof -
  obtain u i where u: "c \<le> i" "chosen U h u i" "agree c l (h_lead h u)"
    using assms(2,4) by (auto simp: com_def)
  obtain u' i' where u': "c' \<le> i'" "chosen U h u' i'" "agree c' l' (h_lead h u')"
    using assms(3-5) by (auto simp: com_def)
  have ne: "h_lead h u \<noteq> []" "h_lead h u' \<noteq> []" using u(2) u'(2) by (auto simp: chosen_def valid_at_def)
  have "agree c (h_lead h u) (h_lead h u')"
  proof (cases u u' rule: linorder_cases)
    case less
    then show ?thesis
      using hist_invD(10) [OF inv chosen_choosable [OF u(2)] less ne(2)] u(1) agree_less agree_sym by blast
  next
    case equal
    then show ?thesis using u(3) by (auto simp: agree_def)
  next
    case greater
    then show ?thesis
      using hist_invD(10) [OF inv chosen_choosable [OF u'(2)] greater ne(1)] u'(1) assms(5) agree_less
      by (meson order_trans)
  qed
  then show ?thesis using u(3) agree_less [OF u'(3) assms(5)] agree_sym agree_trans by blast
qed

end
