(* ===== verification/Cluster_History.thy ===== *)
theory Cluster_History
  imports Election_Safety Log_History
begin

text \<open>
  The cluster and its history.  \<open>linked\<close> relates a cluster that takes no snapshots to a history: the
  nodes' terms and logs are the history's, a leader's log is the log of its term, a candidate's log is the
  one it voted with, the peers' match indices are acknowledged, commit indices are commits of the
  history, and every message carries what the history says.  Every event of the cluster moves the
  history by steps that keep its invariant.
\<close>

subsection \<open>The link\<close>

definition plain :: "mraft \<Rightarrow> bool" where
  "plain r \<longleftrightarrow> synced memory_ops r \<and> raft_inv r \<and> logOffset r = 0"

definition leads :: "node_id list \<Rightarrow> hist \<Rightarrow> node_id \<Rightarrow> mraft \<Rightarrow> bool" where
  "leads ids h n r \<longleftrightarrow> h_lead h (currentTerm r) = raft_log r \<and>
     length (raft_log r) \<le> Suc (h_acc h n (currentTerm r)) \<and>
     (\<forall>p \<in> set ids. p \<noteq> n \<longrightarrow> int_at (matchIndex r) p \<le> int (h_acc h p (currentTerm r)))"

definition node_link :: "node_id list \<Rightarrow> hist \<Rightarrow> node_id \<Rightarrow> mraft \<Rightarrow> bool" where
  "node_link ids h n r \<longleftrightarrow> plain r \<and> 0 \<le> currentTerm r \<and> h_term h n = currentTerm r \<and>
     h_log h n = raft_log r \<and> com (set ids) h (currentTerm r) (raft_log r) (nat (commitIndex r)) \<and>
     (state r = Leader \<longrightarrow> leads ids h n r) \<and>
     (state r = Candidate \<longrightarrow> h_vote h n (currentTerm r) = raft_log r)"

text \<open>An append request carries a piece of its leader's log and a commit index within it.\<close>

definition append_link :: "node_id list \<Rightarrow> hist \<Rightarrow> AppendEntriesArgs \<Rightarrow> bool" where
  "append_link ids h args \<longleftrightarrow>
     (let l = h_lead h (aea_Term args); prev = nat (aea_PrevLogIndex args); es = aea_Entries args
      in 0 \<le> aea_PrevLogIndex args \<and> prev + length es < length l \<and>
         trm l prev = aea_PrevLogTerm args \<and> take (length es) (drop (Suc prev) l) = es \<and>
         aea_LeaderCommit args \<le> aea_PrevLogIndex args + int (length es) \<and>
         com (set ids) h (aea_Term args) l (nat (aea_LeaderCommit args)))"

fun msg_link :: "node_id list \<Rightarrow> hist \<Rightarrow> Msg \<Rightarrow> bool" where
  "msg_link ids h (VoteReq p args) \<longleftrightarrow>
     h_vote h (rva_CandidateID args) (rva_Term args) \<noteq> [] \<and>
     pos_of (h_vote h (rva_CandidateID args) (rva_Term args)) =
       LogPos (rva_LastLogTerm args) (rva_LastLogIndex args)"
| "msg_link ids h (AppendReq p args) \<longleftrightarrow> append_link ids h args"
| "msg_link ids h (AppendRep p args reply) \<longleftrightarrow> append_link ids h args \<and> (aer_Success reply \<longrightarrow>
     nat (aea_PrevLogIndex args) + length (aea_Entries args) \<le> h_acc h p (aea_Term args))"
| "msg_link ids h (SnapReq p args) \<longleftrightarrow> isa_LastIncludedIndex args = 0"
| "msg_link ids h (SnapRep p args reply) \<longleftrightarrow> isa_LastIncludedIndex args = 0"
| "msg_link ids h (VoteRep c t p reply) \<longleftrightarrow> True"

definition vote_link :: "node_id list \<Rightarrow> cluster \<Rightarrow> hist \<Rightarrow> bool" where
  "vote_link ids s h \<longleftrightarrow>
     (\<forall>p t c. voted s p t c \<longrightarrow> h_vote h p t \<noteq> [] \<and> h_vote h c t \<noteq> [] \<and>
        pos_of (h_vote h p t) \<le> pos_of (h_vote h c t)) \<and>
     (\<forall>p \<in> set ids. \<forall>t. h_vote h p t \<noteq> [] \<longrightarrow> (\<exists>c. voted s p t c)) \<and>
     (\<forall>c t. (c, t) \<in> set (started s) \<longrightarrow>
        0 < t \<and> h_vote h c t \<noteq> [] \<and> terms_le (t - 1) (h_vote h c t))"

text \<open>The leader of a term has left its candidacy for that term behind.\<close>

definition past_candidacy :: "int \<Rightarrow> mraft \<Rightarrow> bool" where
  "past_candidacy t r \<longleftrightarrow> t < currentTerm r \<or> t = currentTerm r \<and> state r \<noteq> Candidate"

definition lead_link :: "node_id list \<Rightarrow> cluster \<Rightarrow> hist \<Rightarrow> bool" where
  "lead_link ids s h \<longleftrightarrow> (\<forall>t. h_lead h t \<noteq> [] \<longrightarrow>
     0 < t \<and> (\<exists>m \<in> set ids. elected ids s m t \<and> past_candidacy t (nodes s m)))"

definition linked :: "node_id list \<Rightarrow> cluster \<Rightarrow> hist \<Rightarrow> bool" where
  "linked ids s h \<longleftrightarrow> hist_inv (set ids) h \<and> (\<forall>n \<in> set ids. node_link ids h n (nodes s n)) \<and>
     (\<forall>m \<in> set (msgs s). msg_link ids h m) \<and> vote_link ids s h \<and> lead_link ids s h"

lemma linkedD:
  assumes "linked ids s h"
  shows "hist_inv (set ids) h" and "n \<in> set ids \<Longrightarrow> node_link ids h n (nodes s n)"
    and "m \<in> set (msgs s) \<Longrightarrow> msg_link ids h m" and "vote_link ids s h" and "lead_link ids s h"
  using assms by (auto simp: linked_def)

lemma node_linkD:
  assumes "node_link ids h n r"
  shows "plain r" and "0 \<le> currentTerm r" and "h_term h n = currentTerm r" and "h_log h n = raft_log r"
    and "com (set ids) h (currentTerm r) (raft_log r) (nat (commitIndex r))"
    and "state r = Leader \<Longrightarrow> leads ids h n r"
    and "state r = Candidate \<Longrightarrow> h_vote h n (currentTerm r) = raft_log r"
  using assms by (auto simp: node_link_def)

lemma plainD:
  assumes "plain r"
  shows "synced memory_ops r" and "raft_inv r" and "logOffset r = 0" and "raft_log r \<noteq> []"
    and "0 \<le> commitIndex r" and "commitIndex r < int (length (raft_log r))"
    and "lastLogIndex r = int (length (raft_log r)) - 1"
    and "snap_LastIncludedIndex (snapshot r) = 0"
  using assms by (auto simp: plain_def raft_inv_def lastLogIndex_def)

lemma plain_pos: "plain r \<Longrightarrow> lastPos r = pos_of (raft_log r)"
  using plainD(3,4,7) [of r] by (simp add: lastPos_def pos_of_def lastLogTerm_def Suc_leI)

lemma plain_termAt:
  "plain r \<Longrightarrow> 0 \<le> i \<Longrightarrow> i < int (length (raft_log r)) \<Longrightarrow> termAt r i = trm (raft_log r) (nat i)"
  using plainD(3,7) [of r] by (simp add: termAt_in_range)

lemma vote_linkD:
  assumes "vote_link ids s h"
  shows "voted s p t c \<Longrightarrow> h_vote h p t \<noteq> []"
    and "voted s p t c \<Longrightarrow> pos_of (h_vote h p t) \<le> pos_of (h_vote h c t)"
    and "p \<in> set ids \<Longrightarrow> h_vote h p t \<noteq> [] \<Longrightarrow> \<exists>c. voted s p t c"
    and "(c, t) \<in> set (started s) \<Longrightarrow> 0 < t"
    and "(c, t) \<in> set (started s) \<Longrightarrow> h_vote h c t \<noteq> []"
    and "(c, t) \<in> set (started s) \<Longrightarrow> terms_le (t - 1) (h_vote h c t)"
    and "voted s p t c \<Longrightarrow> h_vote h c t \<noteq> []"
  using assms unfolding vote_link_def by blast+

lemma lead_linkD:
  assumes "lead_link ids s h" and "h_lead h t \<noteq> []"
  obtains m where "0 < t" and "m \<in> set ids" and "elected ids s m t" and "past_candidacy t (nodes s m)"
  using assms unfolding lead_link_def by blast

subsection \<open>The link over a longer history\<close>

lemma append_link_later:
  assumes "later h h'" and "append_link ids h args"
  shows "append_link ids h' args"
proof -
  obtain x where x: "h_lead h' (aea_Term args) = h_lead h (aea_Term args) @ x"
    using laterD(1) [OF assms(1)] by (auto simp: prefix_def)
  let ?l = "h_lead h (aea_Term args)"
  have "com (set ids) h' (aea_Term args) (?l @ x) (nat (aea_LeaderCommit args))"
    using assms(2) com_append [OF com_later [OF assms(1)]] by (auto simp: append_link_def Let_def)
  then show ?thesis
    using assms(2) by (simp add: append_link_def Let_def x nth_append)
qed

lemma msg_link_later: "later h h' \<Longrightarrow> msg_link ids h m \<Longrightarrow> msg_link ids h' m"
  using laterD(3) [of h h'] append_link_later [of h h'] laterD(2) [of h h']
  by (cases m) (auto intro: order_trans)

lemma node_link_later:
  assumes "later h h'" and "node_link ids h n r" and "h_term h' n = h_term h n" and "h_log h' n = h_log h n"
    and "state r = Leader \<Longrightarrow> h_lead h' (currentTerm r) = h_lead h (currentTerm r)"
  shows "node_link ids h' n r"
proof -
  note L = node_linkD [OF assms(2)]
  have "h_vote h' n (currentTerm r) = raft_log r" if "state r = Candidate"
    using laterD(3) [OF assms(1), of n "currentTerm r"] L(7) [OF that] plainD(4) [OF L(1)] by simp
  moreover have "leads ids h' n r" if "state r = Leader"
    using L(6) [OF that] assms(5) [OF that] laterD(2) [OF assms(1), of _ "currentTerm r"]
    by (auto simp: leads_def) (meson Suc_le_mono order_trans, meson of_nat_mono order_trans)
  ultimately show ?thesis
    using L assms(3,4) com_later [OF assms(1)] by (simp add: node_link_def)
qed

text \<open>One node changes, and the history with it.\<close>

lemma linked_step:
  assumes lk: "linked ids s h" and later: "later h h'" and inv: "hist_inv (set ids) h'"
    and nodes: "nodes s' = (nodes s)(n := r')" and own: "node_link ids h' n r'"
    and others: "\<And>m. m \<noteq> n \<Longrightarrow> h_term h' m = h_term h m \<and> h_log h' m = h_log h m"
    and leaders: "\<And>m. m \<in> set ids \<Longrightarrow> m \<noteq> n \<Longrightarrow> state (nodes s m) = Leader \<Longrightarrow>
        h_lead h' (currentTerm (nodes s m)) = h_lead h (currentTerm (nodes s m))"
    and msgs: "\<And>m. m \<in> set (msgs s') \<Longrightarrow> m \<in> set (msgs s) \<or> msg_link ids h' m"
    and votes: "vote_link ids s' h'" and leads: "lead_link ids s' h'"
  shows "linked ids s' h'"
proof -
  have "node_link ids h' m (nodes s' m)" if "m \<in> set ids" for m
  proof (cases "m = n")
    case False
    then show ?thesis
      using node_link_later [OF later linkedD(2) [OF lk that]] others [of m] leaders that
      by (simp add: nodes)
  qed (simp add: nodes own)
  moreover have "msg_link ids h' m" if "m \<in> set (msgs s')" for m
    using msgs [OF that] linkedD(3) [OF lk] msg_link_later [OF later] by blast
  ultimately show ?thesis using inv votes leads by (simp add: linked_def)
qed

lemma vote_link_same:
  assumes "vote_link ids s h" and "\<And>p t c. voted s' p t c = voted s p t c"
    and "started s' = started s" and "h_vote h' = h_vote h"
  shows "vote_link ids s' h'"
  using assms by (simp add: vote_link_def)

lemma lead_link_keep:
  assumes "lead_link ids s h" and nodes: "nodes s' = (nodes s)(n := r')"
    and "\<And>t. h_lead h' t \<noteq> [] \<Longrightarrow> h_lead h t \<noteq> []"
    and "set (msgs s) \<subseteq> set (msgs s')" and "set (started s) \<subseteq> set (started s')"
    and past: "\<And>t. past_candidacy t (nodes s n) \<Longrightarrow> past_candidacy t r'"
  shows "lead_link ids s' h'"
  unfolding lead_link_def
proof (intro allI impI)
  fix t assume "h_lead h' t \<noteq> []"
  then have "h_lead h t \<noteq> []" by (rule assms(3))
  with assms(1) obtain m where m: "0 < t" "m \<in> set ids" "elected ids s m t" "past_candidacy t (nodes s m)"
    by (rule lead_linkD)
  then have "elected ids s' m t" using elected_mono assms(4,5) by blast
  moreover have "past_candidacy t (nodes s' m)" using m(4) past by (cases "m = n") (simp_all add: nodes)
  ultimately show "0 < t \<and> (\<exists>m \<in> set ids. elected ids s' m t \<and> past_candidacy t (nodes s' m))"
    using m(1,2) by blast
qed

subsection \<open>Sections of a node that leave the log alone\<close>

definition calm :: "mraft \<Rightarrow> mraft \<Rightarrow> bool" where
  "calm r r' \<longleftrightarrow> raft_log r' = raft_log r \<and> commitIndex r' = commitIndex r \<and> currentTerm r \<le> currentTerm r' \<and>
     (state r' \<noteq> Follower \<longrightarrow> state r' = state r \<and> currentTerm r' = currentTerm r)"

lemma calm_past: "calm r r' \<Longrightarrow> past_candidacy t r \<Longrightarrow> past_candidacy t r'"
  by (cases "state r'") (auto simp: calm_def past_candidacy_def)

lemma quiet_link:
  assumes lk: "linked ids s h" and n: "n \<in> set ids" and nodes: "nodes s' = (nodes s)(n := r')"
    and plain: "plain r'" and calm: "calm (nodes s n) r'"
    and match: "\<And>p. p \<in> set ids \<Longrightarrow> p \<noteq> n \<Longrightarrow> state r' = Leader \<Longrightarrow>
        int_at (matchIndex r') p = int_at (matchIndex (nodes s n)) p \<or>
        int_at (matchIndex r') p \<le> int (h_acc h p (currentTerm r'))"
    and voted: "\<And>p t c. voted s' p t c = voted s p t c" and started: "started s' = started s"
    and sub: "set (msgs s) \<subseteq> set (msgs s')"
    and msgs: "\<And>m. m \<in> set (msgs s') \<Longrightarrow> m \<in> set (msgs s) \<or> msg_link ids h m"
  shows "\<exists>h'. later h h' \<and> linked ids s' h'"
proof -
  let ?r = "nodes s n" and ?h' = "h\<lparr>h_term := (h_term h)(n := currentTerm r')\<rparr>"
  note L = node_linkD [OF linkedD(2) [OF lk n]]
  have later: "later h ?h'" by (simp add: later_def)
  have inv: "hist_inv (set ids) ?h'"
    using term_step [OF linkedD(1) [OF lk], of n "currentTerm r'"] L(3) calm by (simp add: calm_def)
  have nonneg: "0 \<le> currentTerm r'" using L(2) calm by (simp add: calm_def)
  have com: "com (set ids) ?h' (currentTerm r') (raft_log r') (nat (commitIndex r'))"
    using com_term [OF com_later [OF later L(5)]] calm by (simp add: calm_def)
  have lead: "leads ids ?h' n r'" if st: "state r' = Leader"
  proof -
    have r: "state ?r = Leader" "currentTerm r' = currentTerm ?r" using calm st by (auto simp: calm_def)
    have "int_at (matchIndex r') p \<le> int (h_acc h p (currentTerm r'))" if p: "p \<in> set ids" "p \<noteq> n" for p
      using match [OF p st] L(6) [OF r(1)] p r(2) by (auto simp: leads_def)
    with L(6) [OF r(1)] r(2) calm show ?thesis by (simp add: leads_def calm_def)
  qed
  have own: "node_link ids ?h' n r'"
    using plain nonneg com lead L(4,7) calm by (auto simp: node_link_def calm_def)
  have "vote_link ids s' ?h'"
    by (rule vote_link_same [OF linkedD(4) [OF lk] voted started]) simp
  moreover have "lead_link ids s' ?h'"
    by (rule lead_link_keep [OF linkedD(5) [OF lk] nodes _ sub]) (simp_all add: started calm_past [OF calm])
  ultimately have "linked ids s' ?h'"
    by (intro linked_step [OF lk later inv nodes own]) (use msgs msg_link_later [OF later] in auto)
  with later show ?thesis by blast
qed

text \<open>Sections that install no snapshot keep a plain node plain.\<close>

fun plain_event :: "NodeEvent \<Rightarrow> bool" where
  "plain_event (EvSnapshot _ _) = False"
| "plain_event (EvInstallSnapshot args) = (isa_LastIncludedIndex args = 0)"
| "plain_event _ = True"

lemma node_exec_offset:
  assumes "node_exec ops ev r = Some r'" and "plain_event ev" and "snap_LastIncludedIndex (snapshot r) = 0"
  shows "logOffset r' = logOffset r"
proof (cases ev)
  case EvAdvanceCommit
  with assms show ?thesis by (cases ops r rule: advanceCommitIndex_locked_cases) auto
next
  case EvApplyTake
  with assms show ?thesis by (auto split: ApplyTake.splits dest!: applyCommitted_take_shape)
next
  case (EvSendAppendEntries peer)
  with assms sendAppendEntries_locked_shape [of r peer] show ?thesis
    by (auto split: prod.splits SendStep.splits)
next
  case (EvWaitSelect err pick ch index)
  with assms show ?thesis by (auto split: option.splits dest!: WaitForCommit_select_shape)
next
  case (EvWaitBegin index trm)
  with assms WaitForCommit_begin_shape [of r index trm] show ?thesis by auto
next
  case (EvAppendEntries args)
  with assms show ?thesis by (auto simp: HandleAppendEntries_locked_def Let_def)
qed (use assms in \<open>auto simp: HandleRequestVote_def handleVoteReply_def Start_locked_eq appended_def
    startElection_begin_def startElection_alone_def applyCommitted_deliver_def
    handleAppendEntriesReply_locked_def HandleInstallSnapshot_locked_def
    handleInstallSnapshotReply_def Stop_def Let_def split: if_splits option.splits\<close>)

lemma plain_exec:
  assumes "plain r" and "node_exec memory_ops ev r = Some r'" and "plain_event ev" and "safe_event r ev"
  shows "plain r'"
  using mems.node_exec_synced [OF assms(2) plainD(1) [OF assms(1)]]
    node_exec_inv [OF assms(2) plainD(2) [OF assms(1)] assms(4)]
    node_exec_offset [OF assms(2,3) plainD(8) [OF assms(1)]] plainD(3) [OF assms(1)]
  by (simp add: plain_def)

lemma local_calm:
  assumes "node_exec memory_ops ev r = Some r'" and "local_event ev"
  shows "calm r r' \<and> matchIndex r' = matchIndex r \<and> state r' = state r \<and> currentTerm r' = currentTerm r"
proof (cases ev)
  case EvApplyTake
  with assms show ?thesis by (auto split: ApplyTake.splits dest!: applyCommitted_take_shape simp: calm_def)
next
  case (EvWaitSelect err pick ch index)
  with assms show ?thesis by (auto split: option.splits dest!: WaitForCommit_select_shape simp: calm_def)
next
  case (EvWaitBegin index trm)
  with assms WaitForCommit_begin_shape [of r index trm] show ?thesis by (auto simp: calm_def)
qed (use assms in \<open>auto simp: applyCommitted_deliver_def Stop_def Let_def calm_def split: if_splits option.splits\<close>)

lemma local_plain: "local_event ev \<Longrightarrow> plain_event ev \<and> safe_event r ev"
  by (cases ev) auto

lemma local_link:
  assumes lk: "linked ids s h" and exec: "cluster_exec compact ids (Local n ev) s = Some s'"
  shows "\<exists>h'. later h h' \<and> linked ids s' h'"
proof -
  obtain r' where n: "n \<in> set ids" and ev: "local_event ev"
    and r': "node_exec memory_ops ev (nodes s n) = Some r'" and s': "s' = set_node n r' s"
    using exec by (auto split: if_splits option.splits)
  have "plain r'" using plain_exec [OF node_linkD(1) [OF linkedD(2) [OF lk n]] r'] local_plain [OF ev] by blast
  then show ?thesis
    by (intro quiet_link [OF lk n, of s' r']) (use local_calm [OF r' ev] in \<open>auto simp: s' set_node_def voted_def granted_def\<close>)
qed

lemma restart_link:
  assumes lk: "linked ids s h" and el: "election_inv ids s" and valid: "valid_ids ids"
    and exec: "cluster_exec compact ids (CrashRestart n) s = Some s'"
  shows "\<exists>h'. later h h' \<and> linked ids s' h'"
proof -
  have n: "n \<in> set ids" using exec by (auto split: if_splits)
  let ?r = "nodes s n" and ?r' = "boot ids n (storage (nodes s n)) (nodes s n)"
  have s': "s' = set_node n ?r' s\<lparr>pending := filter (\<lambda>w. fst w \<noteq> n) (pending s)\<rparr>"
    using exec n by simp
  have id: "raft_id ?r = n" using election_invD(1) [OF el n] by (simp add: node_ok_def)
  have ne: "n \<noteq> []" using n valid by (auto simp: valid_ids_def)
  note P = plainD [OF node_linkD(1) [OF linkedD(2) [OF lk n]]]
  let ?cfg = "node_cfg ids n (Some (storage ?r))"
  obtain r' where new: "NewRaft memory_ops NewMemoryStorage ?cfg = Inr r'"
    and f: "persistentState r' = persistentState ?r" "logOffset r' = logOffset ?r"
      "state r' = Follower"
    by (rule NewRaft_restart [OF P(1,2), of ?cfg NewMemoryStorage])
      (use P(8) id ne in \<open>auto simp: sentinel_ok_def node_cfg_def\<close>)
  have boot: "?r' = r'" using new by (simp add: boot_def)
  have "raft_inv r'" using NewRaft_inv [OF new] f(2) P(3) by simp
  moreover from new have "storage r' = storage ?r" by (rule NewRaft_fields) (simp add: node_cfg_def)
  moreover have "raft_log r' = raft_log ?r \<and> commitIndex r' = commitIndex ?r \<and> currentTerm r' = currentTerm ?r"
    using f(1) by (simp add: persistentState_def)
  ultimately have "plain r'" "calm ?r r'"
    using f P(1,3) by (auto simp: plain_def calm_def synced_on_def)
  then show ?thesis
    using f(3) boot
    by (intro quiet_link [OF lk n, of s' r'])
      (auto simp: s' set_node_def voted_def granted_def)
qed

end
