(* ===== verification/Log_Steps.thy ===== *)
theory Log_Steps
  imports Cluster_History
begin

text \<open>
  Every event of a cluster without snapshots moves its history by steps that keep the history's
  invariant, and keeps the link between the two.
\<close>

subsection \<open>Elections\<close>

lemma timeout_link:
  assumes lk: "linked ids s h" and el: "election_inv ids s"
    and exec: "cluster_exec compact ids (Timeout n) s = Some s'"
  shows "\<exists>h'. later h h' \<and> linked ids s' h'"
proof -
  have n: "n \<in> set ids" using exec by (auto split: if_splits)
  then obtain r' args where bgn: "startElection_begin memory_ops (nodes s n) = Some (r', args)"
    using exec by (auto split: option.splits)
  let ?r = "nodes s n"
  note f = startElection_begin_fields [OF bgn]
  note L = node_linkD [OF linkedD(2) [OF lk n]] and inv = linkedD(1) [OF lk]
  define t where "t = currentTerm ?r + 1"
  have id: "raft_id ?r = n" using election_invD(1) [OF el n] by (simp add: node_ok_def)
  obtain ps where s': "nodes s' = (nodes s)(n := r')" "msgs s' = map (\<lambda>p. VoteReq p args) ps @ msgs s"
    "started s' = (n, t) # started s"
    using exec n by (auto simp: bgn Let_def send_def set_node_def f(4) t_def)
  let ?h1 = "h\<lparr>h_term := (h_term h)(n := t)\<rparr>"
  let ?h' = "?h1\<lparr>h_vote := (h_vote ?h1)(n := (h_vote ?h1 n)(t := h_log ?h1 n))\<rparr>"
  have fresh: "h_vote h n t = []"
    using hist_invD(7) [OF inv n, of t] L(3) by (auto simp: t_def)
  have inv1: "hist_inv (set ids) ?h1" using term_step [OF inv, of n t] L(3) by (simp add: t_def)
  have inv': "hist_inv (set ids) ?h'" using inv1 n by (rule vote_step) simp
  have later: "later h ?h'" using fresh by (auto simp: later_def)
  have log: "raft_log ?r \<noteq> []" using plainD(4) [OF L(1)] .
  have plain: "plain r'"
    using plain_exec [OF L(1), of EvStartElection r'] by (simp add: bgn)
  have vote: "h_vote ?h' p u = (if p = n \<and> u = t then raft_log ?r else h_vote h p u)" for p u
    using L(4) by simp
  have own: "node_link ids ?h' n r'"
    using plain L(2,4) f com_term [OF com_later [OF later L(5)], of t]
    by (simp add: node_link_def t_def)
  have voted: "voted s' p u c \<longleftrightarrow> voted s p u c \<or> p = n \<and> c = n \<and> u = t" for p u c
    by (auto simp: voted_def granted_def s')
  note V = vote_linkD [OF linkedD(4) [OF lk]]
  have "terms_le (t - 1) (raft_log ?r)" using hist_invD(2) [OF inv n] L(3,4) by (simp add: t_def)
  then have started: "0 < u \<and> h_vote ?h' c u \<noteq> [] \<and> terms_le (u - 1) (h_vote ?h' c u)"
    if "(c, u) \<in> set (started s')" for c u
    using that V(4-6) [of c u] L(2) log unfolding vote s' by (auto simp: t_def)
  have "vote_link ids s' ?h'"
    unfolding vote_link_def voted
  proof (intro conjI allI impI ballI)
    fix p u c assume v: "voted s p u c \<or> p = n \<and> c = n \<and> u = t"
    show "h_vote ?h' p u \<noteq> []" "h_vote ?h' c u \<noteq> []" "pos_of (h_vote ?h' p u) \<le> pos_of (h_vote ?h' c u)"
      using v V(1,2,7) [of p u c] fresh log unfolding vote by (auto split: if_splits)
  next
    fix p u assume "p \<in> set ids" "h_vote ?h' p u \<noteq> []"
    then show "\<exists>c. voted s p u c \<or> p = n \<and> c = n \<and> u = t"
      using V(3) [of p u] unfolding vote by (auto split: if_splits)
  qed (use started in auto)
  moreover have "lead_link ids s' ?h'"
    by (rule lead_link_keep [OF linkedD(5) [OF lk] s'(1)])
      (use f(1,2) in \<open>auto simp: s' past_candidacy_def\<close>)
  moreover have "msg_link ids ?h' (VoteReq p args)" for p
    using f id log plain_pos [OF L(1)] L(4) by (simp add: t_def [symmetric] lastPos_def)
  ultimately have "linked ids s' ?h'"
    by (intro linked_step [OF lk later inv' s'(1) own]) (auto simp: s')
  with later show ?thesis by blast
qed

text \<open>A node that has taken part in the section above casts its vote.\<close>

lemma cast_link:
  assumes lk: "linked ids s h" and p: "p \<in> set ids" and t: "currentTerm (nodes s p) = t"
    and c: "h_vote h c t \<noteq> []" and pos: "pos_of (raft_log (nodes s p)) \<le> pos_of (h_vote h c t)"
    and s': "nodes s' = nodes s" "started s' = started s" "msgs s' = VoteRep c t p reply # msgs s"
    and unique: "vote_unique s'" and granted: "rvr_VoteGranted reply"
  shows "\<exists>h'. later h h' \<and> linked ids s' h'"
proof -
  note L = node_linkD [OF linkedD(2) [OF lk p]] and inv = linkedD(1) [OF lk]
  note V = vote_linkD [OF linkedD(4) [OF lk]]
  have voted: "voted s' q u d \<longleftrightarrow> voted s q u d \<or> q = p \<and> u = t \<and> d = c" for q u d
    using granted by (auto simp: voted_def granted_def s')
  have log: "raft_log (nodes s p) \<noteq> []" using plainD(4) [OF L(1)] .
  let ?h' = "if h_vote h p t = [] then h\<lparr>h_vote := (h_vote h)(p := (h_vote h p)(t := h_log h p))\<rparr> else h"
  have inv': "hist_inv (set ids) ?h'" using vote_step [OF inv p, of t] inv L(3) t by simp
  have later: "later h ?h'" by (auto simp: later_def)
  have vote: "h_vote ?h' q u = (if q = p \<and> u = t \<and> h_vote h p t = [] then raft_log (nodes s p) else h_vote h q u)"
    for q u using L(4) by simp
  have same: "d = c" if "voted s p t d" for d
    using unique that unfolding vote_unique_def voted by blast
  have first: "h_vote ?h' p t \<noteq> [] \<and> pos_of (h_vote ?h' p t) \<le> pos_of (h_vote ?h' c t)"
  proof (cases "h_vote h p t = []")
    case True
    then show ?thesis using pos c log unfolding vote by auto
  next
    case False
    then obtain d where "voted s p t d" using V(3) [OF p] by blast
    with same V(2) False show ?thesis by auto
  qed
  have cne: "h_vote ?h' d u \<noteq> []" if "h_vote h d u \<noteq> []" for d u using that log unfolding vote by simp
  have keep: "h_vote ?h' d u = h_vote h d u" if "h_vote h d u \<noteq> []" for d u using that unfolding vote by auto
  have "vote_link ids s' ?h'"
    unfolding vote_link_def voted
  proof (intro conjI allI impI ballI)
    fix q u d assume "voted s q u d \<or> q = p \<and> u = t \<and> d = c"
    then show "h_vote ?h' q u \<noteq> []" "h_vote ?h' d u \<noteq> []" "pos_of (h_vote ?h' q u) \<le> pos_of (h_vote ?h' d u)"
      using V(1,2,7) [of q u d] first cne keep c by metis+
  next
    fix q u assume "q \<in> set ids" "h_vote ?h' q u \<noteq> []"
    then show "\<exists>d. voted s q u d \<or> q = p \<and> u = t \<and> d = c"
      using V(3) [of q u] unfolding vote by (auto split: if_splits)
  next
    fix d u assume "(d, u) \<in> set (started s')"
    then show "0 < u" "h_vote ?h' d u \<noteq> []" "terms_le (u - 1) (h_vote ?h' d u)"
      using V(4-6) [of d u] keep [of d u] by (simp_all add: s')
  qed
  moreover have "lead_link ids s' ?h'"
    by (rule lead_link_keep [OF linkedD(5) [OF lk], of _ p "nodes s p"]) (auto simp: s' split: if_splits)
  moreover have "node_link ids ?h' p (nodes s p)"
    using linkedD(2) [OF lk p] by (rule node_link_later [OF later]) auto
  ultimately have "linked ids s' ?h'"
    by (intro linked_step [OF lk later inv', of s' p "nodes s p"]) (auto simp: s')
  with later show ?thesis by blast
qed

lemma HandleRequestVote_calm:
  assumes "HandleRequestVote memory_ops r args = (reply, r')"
  shows "calm r r'" and "matchIndex r' = matchIndex r"
  using assms by (auto simp: HandleRequestVote_def Let_def calm_def split: if_splits)

lemma vote_request_link:
  assumes lk: "linked ids s h" and el: "election_inv ids s" "election_inv ids s'"
    and exec: "cluster_exec compact ids (DeliverVoteReq p args) s = Some s'"
  shows "\<exists>h'. later h h' \<and> linked ids s' h'"
proof -
  obtain reply r' where hv: "HandleRequestVote memory_ops (nodes s p) args = (reply, r')"
    by (cases "HandleRequestVote memory_ops (nodes s p) args") auto
  define c t where "c = rva_CandidateID args" and "t = rva_Term args"
  define s1 where "s1 = set_node p r' s"
  have msg: "VoteReq p args \<in> set (msgs s)" and s': "s' = send [VoteRep c t p reply] s1"
    using exec hv by (auto simp: c_def t_def s1_def split: if_splits)
  have p: "p \<in> set ids" using election_invD(2) [OF el(1) msg] by simp
  note L = node_linkD [OF linkedD(2) [OF lk p]]
  have plain: "plain r'" using plain_exec [OF L(1), of "EvRequestVote args" r'] hv by simp
  have calm: "calm (nodes s p) r'" using hv by (rule HandleRequestVote_calm)
  have quiet: "\<exists>h'. later h h' \<and> linked ids x h'"
    if "nodes x = nodes s1" "started x = started s1" "x = s1 \<or> x = s' \<and> \<not> rvr_VoteGranted reply" for x
    by (rule quiet_link [OF lk p _ plain calm])
      (use that HandleRequestVote_calm(2) [OF hv] in
        \<open>auto simp: s' s1_def set_node_def send_def voted_def granted_def\<close>)
  show ?thesis
  proof (cases "rvr_VoteGranted reply")
    case True
    from quiet [of s1] obtain h1 where h1: "later h h1" "linked ids s1 h1" by auto
    note g = HandleRequestVote_granted [OF hv True]
    have m: "msg_link ids h1 (VoteReq p args)" using linkedD(3) [OF lk msg] msg_link_later [OF h1(1)] by blast
    have "nodes s1 p = r'" by (simp add: s1_def set_node_def)
    moreover have "pos_of (raft_log r') \<le> pos_of (h_vote h1 c t)"
      using g(5) m plain_pos [OF L(1)] calm by (simp add: c_def t_def calm_def)
    ultimately have "\<exists>h'. later h1 h' \<and> linked ids s' h'"
      using g(2) m election_invD(4) [OF el(2)] True
      by (intro cast_link [OF h1(2) p, of t c s' reply]) (auto simp: s' send_def c_def t_def)
    with h1(1) later_trans show ?thesis by blast
  next
    case False
    then show ?thesis by (intro quiet [of s']) (auto simp: s' send_def)
  qed
qed

text \<open>A candidate with a majority becomes leader.\<close>

lemma win_link:
  assumes lk: "linked ids s h" and el: "election_inv ids s" and valid: "valid_ids ids" and n: "n \<in> set ids"
    and cand: "state (nodes s n) = Candidate" and t: "currentTerm (nodes s n) = t"
    and win: "elected ids s n t" and st: "(n, t) \<in> set (started s)"
    and s': "nodes s' = (nodes s)(n := becomeLeaderLocked (nodes s n))" "msgs s' = msgs s" "started s' = started s"
  shows "\<exists>h'. later h h' \<and> linked ids s' h'"
proof -
  let ?r = "nodes s n"
  let ?l = "raft_log ?r" and ?r' = "becomeLeaderLocked ?r"
  let ?k = "length ?l - 1"
  note L = node_linkD [OF linkedD(2) [OF lk n]] and inv = linkedD(1) [OF lk]
  note V = vote_linkD [OF linkedD(4) [OF lk]]
  have log: "?l \<noteq> []" using plainD(4) [OF L(1)] .
  have voted_log: "h_vote h n t = ?l" using L(7) [OF cand] t by simp
  have new: "h_lead h t = []"
  proof (rule ccontr)
    assume "h_lead h t \<noteq> []"
    with linkedD(5) [OF lk] obtain m where m: "elected ids s m t" "past_candidacy t (nodes s m)"
      by (rule lead_linkD)
    with elected_unique [OF el _ win m(1)] valid cand t show False
      by (auto simp: valid_ids_def past_candidacy_def)
  qed
  let ?Q = "{p \<in> set ids. voted s p t n}"
  have Q: "majority (set ids) ?Q"
    using win valid by (auto simp: majority_def elected_def valid_ids_def distinct_card)
  let ?h1 = "h\<lparr>h_lead := (h_lead h)(t := ?l)\<rparr>"
  have h1: "hist_inv (set ids) ?h1" "later h ?h1"
    using lead_step [OF inv _ new _ _ Q, of ?l] hist_invD(1) [OF inv n] L(4) V(6) [OF st] V(1,2) [of _ t n]
    by (auto simp: voted_log)
  let ?h' = "?h1\<lparr>h_log := (h_log ?h1)(n := accepted ?k (h_log ?h1 n) (h_lead ?h1 t)),
      h_acc := (h_acc ?h1)(n := (h_acc ?h1 n)(t := max (h_acc ?h1 n t) ?k))\<rparr>"
  have h': "hist_inv (set ids) ?h'" "later ?h1 ?h'"
    using accept_step [OF h1(1) n, of t ?k] L(3) t log by simp_all
  have later: "later h ?h'" using h1(2) h'(2) by (rule later_trans)
  have "accepted ?k ?l ?l = ?l" using log by (simp add: accepted_def agree_def)
  then have own_log: "h_log ?h' = h_log h" using L(4) by (auto simp: fun_eq_iff)
  have "plain ?r'"
    using plain_exec [OF L(1), of "EvStartElectionAlone t" ?r'] t by (simp add: startElection_alone_def)
  moreover have "int_at (matchIndex ?r') p = 0" if "p \<noteq> n" for p
    using that election_invD(1) [OF el n] int_at_const_map [of 0 "peers ?r" p]
    by (simp add: becomeLeaderLocked_def Let_def node_ok_def)
  ultimately have own: "node_link ids ?h' n ?r'"
    using L(2-5) com_later [OF later L(5)] own_log t by (auto simp: node_link_def leads_def)
  have "vote_link ids s' ?h'"
    by (rule vote_link_same [OF linkedD(4) [OF lk]]) (auto simp: voted_def granted_def s')
  moreover have "lead_link ids s' ?h'"
    unfolding lead_link_def
  proof (intro allI impI)
    fix u assume u: "h_lead ?h' u \<noteq> []"
    have past: "past_candidacy v ?r'" if "v \<le> t" for v using that t by (auto simp: past_candidacy_def)
    have same: "elected ids s' m u = elected ids s m u" for m
      by (simp add: elected_def voted_def granted_def s')
    show "0 < u \<and> (\<exists>m \<in> set ids. elected ids s' m u \<and> past_candidacy u (nodes s' m))"
    proof (cases "u = t")
      case True
      with n win V(4) [OF st] past [of t] show ?thesis unfolding same by (auto simp: s')
    next
      case False
      with u have "h_lead h u \<noteq> []" by simp
      with linkedD(5) [OF lk] obtain m where m: "0 < u" "m \<in> set ids" "elected ids s m u"
        "past_candidacy u (nodes s m)" by (rule lead_linkD)
      then have "past_candidacy u (nodes s' m)"
        using past [of u] t by (cases "m = n") (auto simp: s' past_candidacy_def)
      with m show ?thesis unfolding same by blast
    qed
  qed
  moreover have "currentTerm (nodes s m) \<noteq> t" if "m \<in> set ids" "state (nodes s m) = Leader" for m
    using node_linkD(1,6) [OF linkedD(2) [OF lk that(1)]] that(2) new plainD(4) by (auto simp: leads_def)
  ultimately have "linked ids s' ?h'"
    using own_log by (intro linked_step [OF lk later h'(1) s'(1) own]) (auto simp: s'(2))
  with later show ?thesis by blast
qed

lemma handleVoteReply_lead_cases:
  assumes "handleVoteReply memory_ops t reply v r = (v', r', effs)"
  obtains (calm) "calm r r'" "matchIndex r' = matchIndex r"
  | (lead) "r' = becomeLeaderLocked r" "state r = Candidate" "currentTerm r = t"
  using assms by (auto simp: handleVoteReply_def calm_def Let_def split: if_splits)

lemma vote_reply_link:
  assumes lk: "linked ids s h" and el: "election_inv ids s" "election_inv ids s'" and valid: "valid_ids ids"
    and exec: "cluster_exec compact ids (DeliverVoteRep c t p reply) s = Some s'"
  shows "\<exists>h'. later h h' \<and> linked ids s' h'"
proof -
  obtain v' r' effs where hv: "handleVoteReply memory_ops t reply (votes s (c, t)) (nodes s c) = (v', r', effs)"
    by (cases "handleVoteReply memory_ops t reply (votes s (c, t)) (nodes s c)") auto
  have pend: "(c, t, p) \<in> set (pending s)"
    and s': "nodes s' = (nodes s)(c := r')" "msgs s' = msgs s" "started s' = started s"
    using exec hv by (auto simp: set_node_def split: if_splits)
  have c: "c \<in> set ids" "(c, t) \<in> set (started s)"
    using election_invD(5) [OF el(1)] pend by (auto simp: pending_ok_def)
  note L = node_linkD [OF linkedD(2) [OF lk c(1)]]
  from hv show ?thesis
  proof (cases rule: handleVoteReply_lead_cases)
    case calm
    have "plain r'"
      using plain_exec [OF L(1), of "EvVoteReply t reply (votes s (c, t))" r'] hv by simp
    with calm show ?thesis
      by (intro quiet_link [OF lk c(1) s'(1)]) (auto simp: s' voted_def granted_def)
  next
    case lead
    have "elected ids s' c t"
      using election_invD(7) [OF el(2)] c(1) lead by (auto simp: leaders_ok_def s')
    then have "elected ids s c t" by (simp add: elected_def voted_def granted_def s')
    with lead c show ?thesis by (intro win_link [OF lk el(1) valid c(1), of t s']) (auto simp: s')
  qed
qed

lemma alone_link:
  assumes lk: "linked ids s h" and el: "election_inv ids s" "election_inv ids s'" and valid: "valid_ids ids"
    and cand: "currentTerm (nodes s n) = t \<Longrightarrow> (n, t, n) \<in> set (pending s) \<Longrightarrow> state (nodes s n) = Candidate"
    and exec: "cluster_exec compact ids (AloneElected n t) s = Some s'"
  shows "\<exists>h'. later h h' \<and> linked ids s' h'"
proof -
  let ?r' = "startElection_alone t (nodes s n)"
  have pend: "(n, t, n) \<in> set (pending s)"
    and s': "nodes s' = (nodes s)(n := ?r')" "msgs s' = msgs s" "started s' = started s"
    using exec by (auto simp: set_node_def split: if_splits)
  have n: "n \<in> set ids" "(n, t) \<in> set (started s)"
    using election_invD(5) [OF el(1)] pend by (auto simp: pending_ok_def)
  show ?thesis
  proof (cases "currentTerm (nodes s n) = t")
    case True
    have "elected ids s' n t"
      using election_invD(7) [OF el(2)] n(1) True by (auto simp: leaders_ok_def s' startElection_alone_def)
    then have "elected ids s n t" by (simp add: elected_def voted_def granted_def s')
    with True cand pend n show ?thesis
      by (intro win_link [OF lk el(1) valid n(1), of t s']) (auto simp: s' startElection_alone_def)
  next
    case False
    with node_linkD(1) [OF linkedD(2) [OF lk n(1)]] show ?thesis
      by (intro quiet_link [OF lk n(1) s'(1)])
        (auto simp: s' startElection_alone_def voted_def granted_def calm_def)
  qed
qed

end
