(* ===== verification/Log_Replication.thy ===== *)
theory Log_Replication
  imports Log_Steps
begin

text \<open>
  The events of log replication and the link of the cluster to its history: a leader appends, sends,
  commits, and a follower accepts.
\<close>

subsection \<open>The leader\<close>

lemma leaders_differ:
  assumes "election_inv ids s" and "valid_ids ids" and "n \<in> set ids" and "m \<in> set ids" and "m \<noteq> n"
    and "state (nodes s n) = Leader" and "state (nodes s m) = Leader"
  shows "currentTerm (nodes s m) \<noteq> currentTerm (nodes s n)"
  using assms elected_unique [OF assms(1), of n "currentTerm (nodes s n)" m] election_invD(7) [OF assms(1)]
  by (auto simp: leaders_ok_def valid_ids_def)

lemma start_link:
  assumes lk: "linked ids s h" and el: "election_inv ids s" and valid: "valid_ids ids"
    and exec: "cluster_exec compact ids (ClientStart n cmd) s = Some s'"
  shows "\<exists>h'. later h h' \<and> linked ids s' h'"
proof -
  let ?r = "nodes s n"
  let ?r' = "snd (Start_locked memory_ops ?r cmd)"
  have n: "n \<in> set ids" and s': "s' = set_node n ?r' s" using exec by (auto split: if_splits)
  have nodes: "nodes s' = (nodes s)(n := ?r')" "msgs s' = msgs s" "started s' = started s"
    by (simp_all add: s' set_node_def)
  note L = node_linkD [OF linkedD(2) [OF lk n]] and inv = linkedD(1) [OF lk]
  have plain: "plain ?r'" using plain_exec [OF L(1), of "EvStart cmd" ?r'] by simp
  show ?thesis
  proof (cases "state ?r = Leader")
    case False
    with plain show ?thesis
      by (intro quiet_link [OF lk n nodes(1)])
        (auto simp: nodes Start_locked_eq calm_def voted_def granted_def)
  next
    case True
    define t where "t = currentTerm ?r"
    define e where "e = \<lparr>le_Term = t, le_Command = cmd\<rparr>"
    let ?l = "raft_log ?r"
    have log: "?l \<noteq> []" using plainD(4) [OF L(1)] .
    have lead: "h_lead h t = ?l" "length ?l \<le> Suc (h_acc h n t)"
      "\<And>p. p \<in> set ids \<Longrightarrow> p \<noteq> n \<Longrightarrow> int_at (matchIndex ?r) p \<le> int (h_acc h p t)"
      using L(6) [OF True] by (auto simp: leads_def t_def)
    have pos: "0 < t" using lead_linkD [OF linkedD(5) [OF lk], of t] lead(1) log by metis
    let ?h1 = "h\<lparr>h_log := (h_log h)(n := h_log h n @ [e]), h_lead := (h_lead h)(t := h_log h n @ [e])\<rparr>"
    have h1: "hist_inv (set ids) ?h1" "later h ?h1"
      using append_step [OF inv _ _ pos, of n e] L(3,4) lead(1) log by (auto simp: t_def e_def)
    let ?h' = "?h1\<lparr>h_log := (h_log ?h1)(n := accepted (length ?l) (h_log ?h1 n) (h_lead ?h1 t)),
      h_acc := (h_acc ?h1)(n := (h_acc ?h1 n)(t := max (h_acc ?h1 n t) (length ?l)))\<rparr>"
    have h': "hist_inv (set ids) ?h'" "later ?h1 ?h'"
      using accept_step [OF h1(1) n, of t "length ?l"] L(3,4) by (simp_all add: t_def)
    have later: "later h ?h'" using h1(2) h'(2) by (rule later_trans)
    have r': "?r' = persist memory_ops (appended ?r cmd)" using True by (simp add: Start_locked_eq)
    have log': "raft_log ?r' = ?l @ [e]" by (simp add: r' appended_def e_def t_def)
    have fields: "currentTerm ?r' = currentTerm ?r" "state ?r' = Leader" "commitIndex ?r' = commitIndex ?r"
      using True by (simp_all add: r' appended_def)
    have "accepted (length ?l) (?l @ [e]) (?l @ [e]) = ?l @ [e]" by (simp add: accepted_def agree_def)
    then have hlog: "h_log ?h' m = (if m = n then ?l @ [e] else h_log h m)" for m using L(4) by simp
    have id: "raft_id ?r = n" using election_invD(1) [OF el n] by (simp add: node_ok_def)
    have "leads ids ?h' n ?r'"
      using lead L(4) log' id by (auto simp: leads_def r' appended_def t_def)
    then have own: "node_link ids ?h' n ?r'"
      using plain L(2,3) hlog [of n] log' com_append [OF com_later [OF later L(5)], of "[e]"] fields
      by (simp add: node_link_def)
    have "vote_link ids s' ?h'"
      by (rule vote_link_same [OF linkedD(4) [OF lk]]) (auto simp: voted_def granted_def nodes)
    moreover have "lead_link ids s' ?h'"
      by (rule lead_link_keep [OF linkedD(5) [OF lk] nodes(1)])
        (use lead(1) log in \<open>auto simp: nodes past_candidacy_def r' appended_def split: if_splits\<close>)
    ultimately have "linked ids s' ?h'"
      using leaders_differ [OF el valid n _ _ True] hlog
      by (intro linked_step [OF lk later h'(1) nodes(1) own]) (auto simp: nodes t_def)
    with later show ?thesis by blast
  qed
qed

text \<open>The replicas an index is matched on are a majority once the commit loop counts a quorum.\<close>

lemma match_majority:
  assumes ok: "node_ok ids n r" and ids: "distinct ids" "n \<in> set ids" and q: "quorumSize r \<le> matchCount r i"
  shows "majority (set ids) {p \<in> set ids. p = n \<or> i \<le> int_at (matchIndex r) p}"
proof -
  let ?m = "\<lambda>p. i \<le> int_at (matchIndex r) p"
  let ?ps = "filter ?m (filter (\<lambda>p. p \<noteq> n) ids)"
  have "peers r = map (\<lambda>p. (p, [])) (filter (\<lambda>p. p \<noteq> n) ids)" using ok by (simp add: node_ok_def)
  then have "matchCount r i = 1 + int (length ?ps)"
    by (simp add: matchCount_def filter_map comp_def)
  moreover have "length ?ps = card (set ?ps)" using ids(1) by (intro distinct_card [symmetric]) simp
  moreover have "{p \<in> set ids. p = n \<or> ?m p} = insert n (set ?ps)" using ids(2) by auto
  moreover have "card (insert n (set ?ps)) = Suc (card (set ?ps))" by (rule card_insert_disjoint) auto
  ultimately have "int (length ids) < 2 * int (card {p \<in> set ids. p = n \<or> ?m p})"
    using q quorumSize_majority [of r] node_ok_peers(2) [OF ok ids] by simp
  then show ?thesis using ids(1) by (auto simp: majority_def distinct_card)
qed

lemma advance_link:
  assumes lk: "linked ids s h" and el: "election_inv ids s" and valid: "valid_ids ids"
    and exec: "cluster_exec compact ids (AdvanceCommit n) s = Some s'"
  shows "\<exists>h'. later h h' \<and> linked ids s' h'"
proof -
  let ?r = "nodes s n"
  let ?r' = "fst (advanceCommitIndex_locked memory_ops ?r)"
  have n: "n \<in> set ids" and s': "s' = set_node n ?r' s" using exec by (auto split: if_splits)
  have nodes: "nodes s' = (nodes s)(n := ?r')" "msgs s' = msgs s" "started s' = started s"
    by (simp_all add: s' set_node_def)
  note L = node_linkD [OF linkedD(2) [OF lk n]] and P = plainD [OF node_linkD(1) [OF linkedD(2) [OF lk n]]]
  have plain: "plain ?r'" using plain_exec [OF L(1), of EvAdvanceCommit ?r'] by simp
  show ?thesis
  proof (cases memory_ops ?r rule: advanceCommitIndex_locked_cases)
    case 1
    with plain show ?thesis
      by (intro quiet_link [OF lk n nodes(1)]) (auto simp: nodes calm_def voted_def granted_def)
  next
    case 2
    define c t where "c = nat (newCommitIndex ?r)" and "t = currentTerm ?r"
    have c: "0 < c" "c < length (raft_log ?r)" "int c = newCommitIndex ?r"
      using 2(2,3) P(5,7) by (auto simp: c_def)
    note lead = L(6) [OF 2(1), unfolded leads_def t_def [symmetric]]
    have "trm (raft_log ?r) c = t"
      using 2(4) plain_termAt [OF L(1), of "int c"] c(2) unfolding committable_def t_def c(3) [symmetric] by simp
    then have "valid_at h t c" using c lead by (simp add: valid_at_def)
    moreover have "majority (set ids) {p \<in> set ids. p = n \<or> int c \<le> int_at (matchIndex ?r) p}"
      using match_majority [OF election_invD(1) [OF el n] _ n] valid 2(4) c
      by (simp add: committable_def valid_ids_def)
    moreover have "c \<le> h_acc h p t" if "p \<in> set ids" "p = n \<or> int c \<le> int_at (matchIndex ?r) p" for p
      using that lead c(2) by (cases "p = n") force+
    ultimately have "chosen (set ids) h t c" unfolding chosen_def by blast
    then have "com (set ids) h t (raft_log ?r) c"
      using c lead by (auto simp: com_def agree_def intro!: exI [of _ t])
    then have own: "node_link ids h n ?r'"
      using plain L 2(5) 2(1) by (auto simp: node_link_def leads_def c_def t_def)
    have "vote_link ids s' h"
      by (rule vote_link_same [OF linkedD(4) [OF lk]]) (auto simp: voted_def granted_def nodes)
    moreover have "lead_link ids s' h"
      by (rule lead_link_keep [OF linkedD(5) [OF lk] nodes(1)])
        (use 2(5) in \<open>auto simp: nodes past_candidacy_def\<close>)
    ultimately have "linked ids s' h"
      by (intro linked_step [OF lk later_refl linkedD(1) [OF lk] nodes(1) own]) (auto simp: nodes)
    then show ?thesis using later_refl by blast
  qed
qed

lemma send_append_link:
  assumes nl: "node_link ids h n r" and send: "sendAppendEntries_locked r p = (CallAppendEntries args, r')"
  shows "append_link ids h args"
proof -
  note L = node_linkD [OF nl] and P = plainD [OF node_linkD(1) [OF nl]]
  define i where "i = nat (aea_PrevLogIndex args)"
  from send have st: "state r = Leader" by (auto simp: sendAppendEntries_locked_def split: if_splits)
  from send P(3) have a: "aea_Term args = currentTerm r" "0 \<le> aea_PrevLogIndex args"
      "aea_PrevLogIndex args + 1 \<le> int (length (raft_log r))"
      "aea_PrevLogTerm args = termAt r (aea_PrevLogIndex args)"
      "aea_Entries args = drop (nat (aea_PrevLogIndex args + 1)) (raft_log r)"
      "aea_LeaderCommit args = commitIndex r"
    by (auto simp: sendAppendEntries_locked_def Let_def log_defs split: if_splits)
  have i: "i < length (raft_log r)" "aea_PrevLogIndex args = int i"
      "nat (aea_PrevLogIndex args + 1) = Suc i"
    using a(2,3) by (auto simp: i_def)
  then have "aea_PrevLogTerm args = trm (raft_log r) i" using a(4) plain_termAt [OF L(1), of "int i"] by simp
  with a i L(5) L(6) [OF st] P(5,6) show ?thesis by (simp add: append_link_def Let_def leads_def)
qed

lemma send_link:
  assumes lk: "linked ids s h" and exec: "cluster_exec compact ids (SendAppend n p) s = Some s'"
  shows "\<exists>h'. later h h' \<and> linked ids s' h'"
proof -
  have n: "n \<in> set ids" using exec by (auto split: if_splits)
  note nl = linkedD(2) [OF lk n]
  obtain st r' where snd: "sendAppendEntries_locked (nodes s n) p = (st, r')"
    by (cases "sendAppendEntries_locked (nodes s n) p") auto
  obtain nx where r': "r' = (nodes s n)\<lparr>nextIndex := nx\<rparr>"
    using sendAppendEntries_locked_shape [of "nodes s n" p] snd by auto
  have ok: "st \<noteq> SendPanic" using exec snd by (auto split: if_splits)
  then have "node_exec memory_ops (EvSendAppendEntries p) (nodes s n) = Some r'"
    using snd by (cases st) simp_all
  then have plain: "plain r'" by (rule plain_exec [OF node_linkD(1) [OF nl]]) simp_all
  have snap: "isa_LastIncludedIndex args = 0" if "sendInstallSnapshot_locked r' = Some args" for args
    using that plainD(8) [OF plain] by (auto simp: sendInstallSnapshot_locked_def split: if_splits)
  obtain ms where s': "s' = send ms (set_node n r' s)"
    and ms: "\<And>m. m \<in> set ms \<Longrightarrow> msg_link ids h m" "\<And>m. m \<in> set ms \<Longrightarrow> \<not> is_vote_rep m"
  proof (cases st)
    case NoSend
    with exec snd n that [of "[]"] show thesis by (auto split: if_splits)
  next
    case (CallAppendEntries args)
    with exec snd n that [of "[AppendReq p args]"] send_append_link [OF nl, of p args r'] show thesis
      by (auto split: if_splits)
  next
    case GoInstallSnapshot
    with exec snd n that [of "[]"] that [of "[SnapReq p args]" for args] snap show thesis
      by (auto split: if_splits option.splits)
  qed (use ok in simp)
  have "VoteRep c t q reply \<notin> set ms" for c t q reply using ms(2) [of "VoteRep c t q reply"] by auto
  then show ?thesis
    by (intro quiet_link [OF lk n _ plain])
      (use ms(1) in \<open>auto simp: s' r' send_def set_node_def calm_def voted_def granted_def\<close>)
qed

lemma append_reply_link:
  assumes lk: "linked ids s h" and el: "election_inv ids s"
    and exec: "cluster_exec compact ids (DeliverAppendRep p args reply) s = Some s'"
  shows "\<exists>h'. later h h' \<and> linked ids s' h'"
proof -
  define n where "n = aea_LeaderID args"
  let ?r = "nodes s n"
  let ?r' = "fst (handleAppendEntriesReply_locked memory_ops p args reply ?r)"
  have msg: "AppendRep p args reply \<in> set (msgs s)" and s': "s' = set_node n ?r' s"
    using exec by (auto simp: n_def Let_def split: if_splits)
  have n: "n \<in> set ids" using election_invD(2) [OF el msg] by (simp add: n_def)
  have plain: "plain ?r'"
    by (rule plain_exec [OF node_linkD(1) [OF linkedD(2) [OF lk n]], of "EvAppendReply p args reply"]) simp_all
  have calm: "calm ?r ?r'"
    by (auto simp: calm_def handleAppendEntriesReply_locked_def Let_def)
  have ml: "aer_Success reply \<Longrightarrow> aea_PrevLogIndex args + int (length (aea_Entries args)) \<le> int (h_acc h p (aea_Term args))"
    using linkedD(3) [OF lk msg] by (auto simp: append_link_def Let_def)
  have match: "int_at (matchIndex ?r') q = int_at (matchIndex ?r) q \<or>
      int_at (matchIndex ?r') q \<le> int (h_acc h q (currentTerm ?r'))" if "state ?r' = Leader" for q
    using ml that by (auto simp: handleAppendEntriesReply_locked_def Let_def split: if_splits)
  show ?thesis
    by (rule quiet_link [OF lk n _ plain calm match])
      (auto simp: s' set_node_def voted_def granted_def)
qed

subsection \<open>The follower\<close>

lemma slice_nth:
  assumes "take (length es) (drop m b) = es" and "j < length es"
  shows "es ! j = b ! (m + j)"
proof -
  have "m \<le> length b" using assms by (cases "m \<le> length b") auto
  have "es ! j = take (length es) (drop m b) ! j" using assms(1) by simp
  with assms(2) \<open>m \<le> length b\<close> show ?thesis by simp
qed

text \<open>Merging a piece of the leader's log is taking the leader's log up to the end of the piece.\<close>

lemma merge_accepted:
  assumes ok: "log_ok h l" "log_ok h b" and prev: "agree i l b" and es: "take (length es) (drop (Suc i) b) = es"
    and len: "i + length es < length b"
  shows "take (Suc i) l @ mergeTail (drop (Suc i) l) es = accepted (i + length es) l b"
proof -
  let ?a = "drop (Suc i) l" and ?k = "i + length es"
  have il: "i < length l" using prev by (simp add: agree_def)
  have nth: "es ! j = b ! (Suc i + j)" if "j < length es" for j
    using slice_nth [OF es that] .
  have anth: "?a ! j = l ! (Suc i + j)" if "j < length ?a" for j using that il by simp
  have whole: "take m b @ drop (m - Suc i) es = take (Suc ?k) b" if "Suc i \<le> m" "m \<le> Suc ?k" for m
  proof -
    have "drop (m - Suc i) es = take (Suc ?k - m) (drop m b)"
      by (subst es [symmetric]) (use that in \<open>simp add: drop_take add.commute\<close>)
    then show ?thesis using that take_add [of m "Suc ?k - m" b] by simp
  qed
  have up_to: "take (Suc i + m) l = take (Suc i + m) b"
    if "m \<le> length ?a" "m \<le> length es" "\<forall>j < m. le_Term (?a ! j) = le_Term (es ! j)" for m
  proof (cases m)
    case 0
    then show ?thesis using prev by (simp add: agree_def)
  next
    case (Suc j)
    then have "agree (Suc i + j) l b"
      using that anth [of j] nth [of j] len il by (intro log_matching [OF ok]) auto
    then show ?thesis using Suc by (simp add: agree_def)
  qed
  show ?thesis
  proof (cases "\<forall>j < min (length ?a) (length es). le_Term (?a ! j) = le_Term (es ! j)")
    case True
    note no = mergeTail_no_conflict [OF True]
    show ?thesis
    proof (cases "length es \<le> length ?a")
      case short: True
      then have "take (Suc ?k) l = take (Suc ?k) b" using up_to [of "length es"] True by simp
      then have "agree ?k l b" using short len il by (simp add: agree_def)
      then show ?thesis using no short by (simp add: accepted_def)
    next
      case False
      have "Suc i + length ?a = length l" using il by simp
      then have "take (length l) l = take (length l) b"
        using up_to [of "length ?a"] True False by (metis min.cobounded1 min.absorb1 nle_le order_refl)
      then have "l @ drop (length l - Suc i) es = take (Suc ?k) b"
        using whole [of "length l"] False il by simp
      moreover have "length l \<le> ?k" using False il by simp
      then have "\<not> agree ?k l b" by (simp add: agree_def)
      ultimately show ?thesis
        using no by (simp add: accepted_def append_assoc [symmetric] del: append_assoc)
    qed
  next
    case False
    define j where "j = (LEAST j. j < min (length ?a) (length es) \<and> le_Term (?a ! j) \<noteq> le_Term (es ! j))"
    have j: "j < min (length ?a) (length es) \<and> le_Term (?a ! j) \<noteq> le_Term (es ! j)"
      unfolding j_def by (rule LeastI_ex) (use False in blast)
    have least: "\<forall>m < j. le_Term (?a ! m) = le_Term (es ! m)"
      using not_less_Least [of _ "\<lambda>j. j < min (length ?a) (length es) \<and> le_Term (?a ! j) \<noteq> le_Term (es ! j)"] j
      unfolding j_def [symmetric] by force
    have "mergeTail ?a es = take j ?a @ drop j es" using j least by (intro mergeTail_cut) auto
    moreover have "take (Suc i) l @ take j ?a = take (Suc i + j) l" by (rule take_add [symmetric])
    ultimately have "take (Suc i) l @ mergeTail ?a es = take (Suc i + j) l @ drop j es"
      by (metis append_assoc)
    also have "take (Suc i + j) l = take (Suc i + j) b"
      by (rule up_to [OF _ _ least]) (use j in simp_all)
    also have "take (Suc i + j) b @ drop j es = take (Suc ?k) b" using whole [of "Suc i + j"] j by simp
    finally show ?thesis
      using agree_nth [of ?k l b "Suc i + j"] j anth [of j] nth [of j] by (auto simp: accepted_def)
  qed
qed

lemma append_respects:
  assumes nl: "node_link ids h n r" and inv: "hist_inv (set ids) h" and al: "append_link ids h args"
    and t: "currentTerm r \<le> aea_Term args"
  shows "respectsCommitted r args"
  unfolding respectsCommitted_def
proof (intro allI impI)
  fix j assume j: "j < length (aea_Entries args)" "aea_PrevLogIndex args + 1 + int j \<le> commitIndex r"
  note L = node_linkD [OF nl] and P = plainD [OF node_linkD(1) [OF nl]]
  let ?b = "h_lead h (aea_Term args)" and ?i = "nat (aea_PrevLogIndex args)" and ?c = "nat (commitIndex r)"
  have a: "0 \<le> aea_PrevLogIndex args" "take (length (aea_Entries args)) (drop (Suc ?i) ?b) = aea_Entries args"
      "?i + length (aea_Entries args) < length ?b"
    using al by (auto simp: append_link_def Let_def)
  have "com (set ids) h (aea_Term args) (raft_log r) ?c" using com_term [OF L(5) t] .
  then have "agree ?c (raft_log r) ?b" by (rule com_lead [OF inv]) (use j a in auto)
  then have "raft_log r ! (Suc ?i + j) = ?b ! (Suc ?i + j)" by (rule agree_nth) (use j a in linarith)
  also have "\<dots> = aea_Entries args ! j" using slice_nth [OF a(2) j(1)] by simp
  finally show "termAt r (aea_PrevLogIndex args + 1 + int j) = le_Term (aea_Entries args ! j)"
    using plain_termAt [OF L(1), of "aea_PrevLogIndex args + 1 + int j"] j a P(5,6)
    by (simp add: nat_add_distrib)
qed

lemma reject_calm:
  assumes "HandleAppendEntries_locked memory_ops r args = (reply, r', ap)" and "\<not> acceptsAppend r args"
    and "plain r"
  shows "calm r r'" and "plain r'" and "matchIndex r' = matchIndex r"
proof -
  have "synced memory_ops r'"
    using mems.HandleAppendEntries_synced [OF plainD(1) [OF assms(3)], of args] assms(1) by simp
  moreover have "raft_inv r' = raft_inv r" "logOffset r' = logOffset r"
    using assms(1,2)
    by (auto simp: HandleAppendEntries_locked_def acceptsAppend_def Let_def raft_inv_def split: if_splits)
  ultimately show "plain r'" using plainD(2,3) [OF assms(3)] by (simp add: plain_def)
  show "calm r r'" and "matchIndex r' = matchIndex r"
    using assms(1,2)
    by (auto simp: HandleAppendEntries_locked_def acceptsAppend_def Let_def calm_def split: if_splits)
qed

lemma append_accept_link:
  assumes lk: "linked ids s h" and p: "p \<in> set ids" and al: "append_link ids h args"
    and hd: "HandleAppendEntries_locked memory_ops (nodes s p) args = (reply, r', ap)"
    and acc: "acceptsAppend (nodes s p) args"
    and s': "nodes s' = (nodes s)(p := r')" "msgs s' = AppendRep p args reply # msgs s" "started s' = started s"
  shows "\<exists>h'. later h h' \<and> linked ids s' h'"
proof -
  let ?r = "nodes s p"
  define t where "t = aea_Term args"
  define i where "i = nat (aea_PrevLogIndex args)"
  define k where "k = i + length (aea_Entries args)"
  note L = node_linkD [OF linkedD(2) [OF lk p]] and inv = linkedD(1) [OF lk]
  note P = plainD [OF L(1)] and f = HandleAppendEntries_accepted [OF hd acc]
  let ?b = "h_lead h t"
  have a: "aea_PrevLogIndex args = int i" "k < length ?b" "trm ?b i = aea_PrevLogTerm args"
      "take (length (aea_Entries args)) (drop (Suc i) ?b) = aea_Entries args"
      "aea_LeaderCommit args \<le> int k" "com (set ids) h t ?b (nat (aea_LeaderCommit args))"
    using al by (auto simp: append_link_def Let_def i_def k_def t_def)
  have ne: "?b \<noteq> []" using a(2) by auto
  have le: "currentTerm ?r \<le> t" using acc by (simp add: acceptsAppend_def t_def)
  have i: "i < length (raft_log ?r)" "trm (raft_log ?r) i = trm ?b i"
    using acc a(1,3) P(3,7) plain_termAt [OF L(1), of "int i"] by (auto simp: acceptsAppend_def)
  have prev: "agree i (raft_log ?r) ?b"
    using log_matching [of h "raft_log ?r" ?b i] hist_invD(1) [OF inv p] hist_invD(3) [OF inv ne] i a(2) L(4)
    by (simp add: k_def)
  have log': "raft_log r' = accepted k (raft_log ?r) ?b"
    using merge_accepted [OF _ hist_invD(3) [OF inv ne] prev a(4)] hist_invD(1) [OF inv p] a(2) L(4) P(3) f(6)
    by (simp add: mergedLog_def Let_def a(1) k_def nat_add_distrib)
  let ?h1 = "h\<lparr>h_term := (h_term h)(p := t)\<rparr>"
  have h1: "hist_inv (set ids) ?h1" using term_step [OF inv, of p t] L(3) le by simp
  let ?h' = "?h1\<lparr>h_log := (h_log ?h1)(p := accepted k (h_log ?h1 p) (h_lead ?h1 t)),
      h_acc := (h_acc ?h1)(p := (h_acc ?h1 p)(t := max (h_acc ?h1 p t) k))\<rparr>"
  have h': "hist_inv (set ids) ?h'" "later ?h1 ?h'"
    using accept_step [OF h1 p, of t k] a(2) by simp_all
  have later: "later h ?h'" using later_trans [OF _ h'(2), of h] by (simp add: later_def)
  have plain: "plain r'"
    using plain_exec [OF L(1), of "EvAppendEntries args" r'] hd
      append_respects [OF linkedD(2) [OF lk p] inv al] le by (simp add: t_def)
  have agr: "agree k (raft_log r') ?b" using accepted_agree [OF a(2)] log' by simp
  have "com (set ids) h t (raft_log r') (nat (commitIndex r'))"
  proof (cases "aea_LeaderCommit args > commitIndex ?r")
    case True
    moreover have "int k \<le> lastLogIndex r'" using agr plainD(7) [OF plain] by (simp add: agree_def)
    ultimately have "commitIndex r' = aea_LeaderCommit args" using f(9) a(5) by simp
    with com_agree [OF a(6)] agree_less [OF agr] a(5) show ?thesis by simp
  next
    case False
    then show ?thesis using f(9) com_accepted [OF inv com_term [OF L(5) le] a(2)] log' by simp
  qed
  from com_later [OF later this] have own: "node_link ids ?h' p r'"
    using plain f(3,4) L(2,4) le log' by (simp add: node_link_def t_def)
  have "vote_link ids s' ?h'"
    by (rule vote_link_same [OF linkedD(4) [OF lk]]) (auto simp: voted_def granted_def s')
  moreover have "lead_link ids s' ?h'"
    by (rule lead_link_keep [OF linkedD(5) [OF lk] s'(1)])
      (use f(3,4) le in \<open>auto simp: s' past_candidacy_def t_def\<close>)
  moreover have "msg_link ids ?h' (AppendRep p args reply)"
    using append_link_later [OF later al] by (simp add: t_def [symmetric] i_def [symmetric] k_def)
  ultimately have "linked ids s' ?h'"
    by (intro linked_step [OF lk later h'(1) s'(1) own]) (auto simp: s')
  with later show ?thesis by blast
qed

lemma append_request_link:
  assumes lk: "linked ids s h" and el: "election_inv ids s"
    and exec: "cluster_exec compact ids (DeliverAppendReq p args) s = Some s'"
  shows "\<exists>h'. later h h' \<and> linked ids s' h'"
proof -
  obtain reply r' ap where hd: "HandleAppendEntries_locked memory_ops (nodes s p) args = (reply, r', ap)"
    by (cases "HandleAppendEntries_locked memory_ops (nodes s p) args") auto
  have msg: "AppendReq p args \<in> set (msgs s)"
    and s': "nodes s' = (nodes s)(p := r')" "msgs s' = AppendRep p args reply # msgs s" "started s' = started s"
    using exec hd by (auto simp: set_node_def send_def split: if_splits)
  have p: "p \<in> set ids" using election_invD(2) [OF el msg] by simp
  have al: "append_link ids h args" using linkedD(3) [OF lk msg] by simp
  note L = node_linkD [OF linkedD(2) [OF lk p]]
  show ?thesis
  proof (cases "acceptsAppend (nodes s p) args")
    case True
    then show ?thesis using append_accept_link [OF lk p al hd _ s'] by blast
  next
    case False
    note r = reject_calm [OF hd False L(1)]
    show ?thesis
      by (rule quiet_link [OF lk p s'(1) r(2,1)])
        (use r(3) al HandleAppendEntries_rejected(1) [OF hd False] in \<open>auto simp: s' voted_def granted_def\<close>)
  qed
qed

subsection \<open>Snapshot messages\<close>

text \<open>Without compaction a snapshot message carries the index 0 and only makes its receiver a follower.\<close>

lemma snap_request_link:
  assumes lk: "linked ids s h" and el: "election_inv ids s"
    and exec: "cluster_exec compact ids (DeliverSnapReq p args) s = Some s'"
  shows "\<exists>h'. later h h' \<and> linked ids s' h'"
proof -
  obtain reply r' b where hd: "HandleInstallSnapshot_locked memory_ops (nodes s p) args = (reply, r', b)"
    by (cases "HandleInstallSnapshot_locked memory_ops (nodes s p) args") auto
  have msg: "SnapReq p args \<in> set (msgs s)"
    and s': "nodes s' = (nodes s)(p := r')" "msgs s' = SnapRep p args reply # msgs s" "started s' = started s"
    using exec hd by (auto simp: set_node_def send_def split: if_splits)
  have p: "p \<in> set ids" using election_invD(2) [OF el msg] by simp
  note L = node_linkD [OF linkedD(2) [OF lk p]]
  have zero: "isa_LastIncludedIndex args = 0" using linkedD(3) [OF lk msg] by simp
  have plain: "plain r'"
    using plain_exec [OF L(1), of "EvInstallSnapshot args" r'] hd zero plainD(8) [OF L(1)] by simp
  have "calm (nodes s p) r' \<and> matchIndex r' = matchIndex (nodes s p)"
    using hd zero plainD(8) [OF L(1)]
    by (auto simp: HandleInstallSnapshot_locked_def Let_def calm_def split: if_splits)
  then show ?thesis
    by (intro quiet_link [OF lk p s'(1) plain]) (auto simp: s' zero voted_def granted_def)
qed

lemma snap_reply_link:
  assumes lk: "linked ids s h" and el: "election_inv ids s"
    and exec: "cluster_exec compact ids (DeliverSnapRep p args reply) s = Some s'"
  shows "\<exists>h'. later h h' \<and> linked ids s' h'"
proof -
  define n where "n = isa_LeaderID args"
  let ?r = "nodes s n"
  let ?r' = "handleInstallSnapshotReply memory_ops p args reply ?r"
  have msg: "SnapRep p args reply \<in> set (msgs s)" and s': "s' = set_node n ?r' s"
    using exec by (auto simp: n_def Let_def split: if_splits)
  have n: "n \<in> set ids" using election_invD(2) [OF el msg] by (simp add: n_def)
  have zero: "isa_LastIncludedIndex args = 0" using linkedD(3) [OF lk msg] by simp
  have plain: "plain ?r'"
    by (rule plain_exec [OF node_linkD(1) [OF linkedD(2) [OF lk n]], of "EvInstallReply p args reply"]) simp_all
  have calm: "calm ?r ?r'" by (auto simp: calm_def handleInstallSnapshotReply_def)
  have match: "int_at (matchIndex ?r') q = int_at (matchIndex ?r) q \<or>
      int_at (matchIndex ?r') q \<le> int (h_acc h q (currentTerm ?r'))" if "state ?r' = Leader" for q
    using zero that by (auto simp: handleInstallSnapshotReply_def split: if_splits)
  show ?thesis
    by (rule quiet_link [OF lk n _ plain calm match])
      (auto simp: s' set_node_def voted_def granted_def)
qed

end
