(* ===== verification/Log_Safety.thy ===== *)
theory Log_Safety
  imports Log_Replication
begin

text \<open>
  Safety of the replicated log, for clusters that take no snapshots: logs match, leaders only append,
  what is committed stays committed everywhere and is in the log of every later leader, and the
  indices of every node stay in order.  A rejected append makes the leader back off.
\<close>

subsection \<open>A cluster of one\<close>

definition alone_ok :: "node_id \<Rightarrow> cluster \<Rightarrow> bool" where
  "alone_ok n s \<longleftrightarrow> msgs s = [] \<and> (\<forall>t. (n, t, n) \<in> set (pending s) \<longrightarrow>
     currentTerm (nodes s n) = t \<longrightarrow> state (nodes s n) = Candidate)"

lemma alone_ok_step:
  assumes el: "election_inv [n] s" and ok: "alone_ok n s" and exec: "cluster_exec False [n] ev s = Some s'"
  shows "alone_ok n s'"
proof -
  have nil: "msgs s = []" using ok by (simp add: alone_ok_def)
  have peers: "peers (nodes s n) = []" using election_invD(1) [OF el, of n] by (simp add: node_ok_def)
  show ?thesis
  proof (cases ev)
    case (Timeout m)
    then obtain r args where m: "m = n" and bgn: "startElection_begin memory_ops (nodes s n) = Some (r, args)"
      using exec by (auto split: if_splits option.splits)
    note f = startElection_begin_fields [OF bgn]
    have "quorumSize r = 1" using f(8) peers by (simp add: quorumSize_one_iff)
    then have "msgs s' = []" "nodes s' n = r"
      using exec Timeout m bgn nil by (auto simp: Let_def send_def set_node_def)
    then show ?thesis using f(1) by (simp add: alone_ok_def)
  next
    case (AloneElected m t)
    then have "(m, t, m) \<in> set (pending s)" using exec by (auto split: if_splits)
    then have "m = n" using election_invD(5) [OF el] by (auto simp: pending_ok_def)
    with AloneElected exec ok show ?thesis
      by (auto simp: alone_ok_def set_node_def startElection_alone_def split: if_splits)
  next
    case (ClientStart m cmd)
    with exec ok show ?thesis
      by (auto simp: alone_ok_def set_node_def Start_locked_eq appended_def split: if_splits)
  next
    case (AdvanceCommit m)
    with exec ok show ?thesis
      by (cases memory_ops "nodes s n" rule: advanceCommitIndex_locked_cases)
        (auto simp: alone_ok_def set_node_def split: if_splits)
  next
    case (SendAppend m p)
    with exec peers show ?thesis by (auto split: if_splits)
  next
    case (Local m e)
    then obtain r where "m = n" "local_event e" "node_exec memory_ops e (nodes s n) = Some r"
      "s' = set_node n r s"
      using exec by (auto split: if_splits option.splits)
    with ok local_calm [of e "nodes s n" r] show ?thesis by (auto simp: alone_ok_def set_node_def)
  next
    case (CrashRestart m)
    with exec nil show ?thesis by (auto simp: alone_ok_def set_node_def split: if_splits)
  qed (use exec nil in \<open>auto simp: Let_def split: if_splits\<close>)
qed

lemma reachable_alone_ok: "reachable False [n] s \<Longrightarrow> n \<noteq> [] \<Longrightarrow> alone_ok n s"
proof (induction rule: reachable.induct)
  case reach_init
  then show ?case by (simp add: alone_ok_def init_cluster_def)
next
  case (reach_step s ev s')
  have "election_inv [n] s"
    using reach_step by (intro reachable_election_inv) (auto simp: valid_ids_def)
  with reach_step alone_ok_step show ?case by blast
qed

subsection \<open>Every reachable cluster has a history\<close>

lemma cluster_exec_linked:
  assumes valid: "valid_ids ids" and reach: "reachable False ids s" and lk: "linked ids s h"
    and exec: "cluster_exec False ids ev s = Some s'"
  shows "\<exists>h'. later h h' \<and> linked ids s' h'"
proof -
  have el: "election_inv ids s" using reach valid by (rule reachable_election_inv)
  have el': "election_inv ids s'" using el valid exec by (rule cluster_exec_election_inv)
  have cand: "state (nodes s n) = Candidate"
    if "currentTerm (nodes s n) = t" "(n, t, n) \<in> set (pending s)" for n t
  proof -
    have "ids = [n]" using election_invD(5) [OF el] that(2) by (auto simp: pending_ok_def)
    moreover from this have "n \<noteq> []" using valid by (simp add: valid_ids_def)
    ultimately show ?thesis using reachable_alone_ok [of n s] reach that by (auto simp: alone_ok_def)
  qed
  show ?thesis
  proof (cases ev)
    case (AloneElected n t)
    show ?thesis using alone_link [OF lk el el' valid cand exec [unfolded AloneElected]] by blast
  next
    case (Timeout n)
    show ?thesis by (rule timeout_link [OF lk el exec [unfolded Timeout]])
  next
    case (DeliverVoteReq p args)
    show ?thesis by (rule vote_request_link [OF lk el el' exec [unfolded DeliverVoteReq]])
  next
    case (DeliverVoteRep c t p reply)
    show ?thesis by (rule vote_reply_link [OF lk el el' valid exec [unfolded DeliverVoteRep]])
  next
    case (ClientStart n cmd)
    show ?thesis by (rule start_link [OF lk el valid exec [unfolded ClientStart]])
  next
    case (AdvanceCommit n)
    show ?thesis by (rule advance_link [OF lk el valid exec [unfolded AdvanceCommit]])
  next
    case (SendAppend n p)
    show ?thesis by (rule send_link [OF lk exec [unfolded SendAppend]])
  next
    case (DeliverAppendReq p args)
    show ?thesis by (rule append_request_link [OF lk el exec [unfolded DeliverAppendReq]])
  next
    case (DeliverAppendRep p args reply)
    show ?thesis by (rule append_reply_link [OF lk el exec [unfolded DeliverAppendRep]])
  next
    case (Local n e)
    show ?thesis by (rule local_link [OF lk exec [unfolded Local]])
  next
    case (CrashRestart n)
    show ?thesis by (rule restart_link [OF lk el valid exec [unfolded CrashRestart]])
  next
    case (DeliverSnapReq p args)
    show ?thesis by (rule snap_request_link [OF lk el exec [unfolded DeliverSnapReq]])
  next
    case (DeliverSnapRep p args reply)
    show ?thesis by (rule snap_reply_link [OF lk el exec [unfolded DeliverSnapRep]])
  next
    case (TakeSnapshot n index data)
    with exec show ?thesis by simp
  qed
qed

definition init_hist :: hist where
  "init_hist = \<lparr>h_term = \<lambda>_. 0, h_log = \<lambda>_. [sentinel 0], h_lead = \<lambda>_. [], h_acc = \<lambda>_ _. 0, h_vote = \<lambda>_ _. []\<rparr>"

lemma boot_plain:
  assumes "n \<noteq> []"
  shows "plain (boot ids n NewMemoryStorage d)"
  using assms
  by (auto simp: plain_def boot_def NewRaft_def Let_def node_cfg_def clampIndexes_eq synced_on_def raft_inv_def
      persistentState_def NewMemoryStorage_def zero_PersistentState_def initialLog_def
      log_defs memory_ops_def MemoryStorage_Load_def zero_Snapshot_def)

lemma init_linked:
  assumes "valid_ids ids"
  shows "linked ids (init_cluster ids) init_hist"
proof -
  have none: "\<not> choosable (set ids) init_hist t i" for t i
    by (simp add: choosable_def valid_at_def init_hist_def)
  have "hist_inv (set ids) init_hist"
    by (rule hist_invI) (use none in \<open>auto simp: init_hist_def log_ok_def terms_le_def\<close>)
  moreover have "node_link ids init_hist n (nodes (init_cluster ids) n)" if "n \<in> set ids" for n
  proof -
    have "n \<noteq> []" using that assms by (auto simp: valid_ids_def)
    with boot_plain [of n] boot_fresh [of n] show ?thesis
      by (simp add: node_link_def init_cluster_def com_def) (simp add: init_hist_def)
  qed
  ultimately show ?thesis
    by (simp add: linked_def init_cluster_def vote_link_def lead_link_def voted_def granted_def)
      (simp add: init_hist_def)
qed

lemma reachable_linked: "reachable False ids s \<Longrightarrow> valid_ids ids \<Longrightarrow> \<exists>h. linked ids s h"
proof (induction rule: reachable.induct)
  case reach_init
  then show ?case using init_linked by blast
next
  case (reach_step s ev s')
  then show ?case using cluster_exec_linked by blast
qed

lemma run_linked:
  "cluster_run False ids evs s = Some s' \<Longrightarrow> valid_ids ids \<Longrightarrow> reachable False ids s \<Longrightarrow> linked ids s h \<Longrightarrow>
     \<exists>h'. later h h' \<and> linked ids s' h'"
proof (induction evs arbitrary: s h)
  case Nil
  then have "later h h \<and> linked ids s' h" by simp
  then show ?case by blast
next
  case (Cons ev evs)
  then obtain s1 where s1: "cluster_exec False ids ev s = Some s1" "cluster_run False ids evs s1 = Some s'"
    by (auto split: option.splits)
  obtain h1 where h1: "later h h1" "linked ids s1 h1"
    using cluster_exec_linked [OF Cons.prems(2,3,4) s1(1)] by blast
  have "reachable False ids s1" using Cons.prems(3) s1(1) by (rule reach_step)
  with Cons.IH [OF s1(2) Cons.prems(2) _ h1(2)] h1(1) later_trans show ?case by blast
qed

text \<open>Two points of a run, with the histories up to them.\<close>

lemma two_points:
  assumes "valid_ids ids" and "reachable False ids s" and "cluster_run False ids evs s = Some s'"
  obtains h h' where "linked ids s h" and "linked ids s' h'" and "later h h'"
proof -
  obtain h where h: "linked ids s h" using reachable_linked [OF assms(2,1)] by blast
  with run_linked [OF assms(3,1,2) h] that show thesis by blast
qed

lemma linked_log:
  assumes "linked ids s h" and "n \<in> set ids"
  shows "log_ok h (raft_log (nodes s n))" and "plain (nodes s n)"
  using node_linkD(1,4) [OF linkedD(2) [OF assms]] hist_invD(1) [OF linkedD(1) [OF assms(1)] assms(2)] by simp_all

subsection \<open>Safety\<close>

text \<open>Up to a common committed index two logs are the same.\<close>

lemma committed_agree:
  assumes "valid_ids ids" and "reachable False ids s" and "cluster_run False ids evs s = Some s'"
    and "n \<in> set ids" and "m \<in> set ids"
    and "0 \<le> i" and "i \<le> commitIndex (nodes s n)" and "i \<le> commitIndex (nodes s' m)"
  shows "take (nat i + 1) (raft_log (nodes s n)) = take (nat i + 1) (raft_log (nodes s' m)) \<and>
    i \<le> lastLogIndex (nodes s n) \<and> i \<le> lastLogIndex (nodes s' m)"
proof -
  obtain h h' where h: "linked ids s h" "linked ids s' h'" "later h h'" using assms(1-3) by (rule two_points)
  let ?a = "raft_log (nodes s n)" and ?b = "raft_log (nodes s' m)"
  let ?c = "nat (commitIndex (nodes s n))" and ?d = "nat (commitIndex (nodes s' m))"
  note N = node_linkD [OF linkedD(2) [OF h(1) assms(4)]] and M = node_linkD [OF linkedD(2) [OF h(2) assms(5)]]
  note inv = linkedD(1) [OF h(2)]
  have com: "com (set ids) h' (currentTerm (nodes s n)) ?a ?c" using com_later [OF h(3) N(5)] .
  have "agree (nat i) ?a ?b"
  proof (cases "nat i = 0")
    case True
    note a = log_okD(1,2) [OF linked_log(1) [OF h(1) assms(4)]]
    note b = log_okD(1,2) [OF linked_log(1) [OF h(2) assms(5)]]
    have "agree 0 ?a ?b" using a b by (simp add: agree_def take_Suc hd_conv_nth)
    with True show ?thesis by simp
  next
    case False
    show ?thesis
    proof (cases "?c \<le> ?d")
      case True
      then have "agree ?c ?a ?b" using com_same [OF inv com M(5)] assms(6,7) False by simp
      then show ?thesis by (rule agree_less) (use assms(7) in simp)
    next
      case less: False
      then have "agree ?d ?b ?a" using com_same [OF inv M(5) com] assms(6,8) False by simp
      then show ?thesis using agree_less [of ?d ?b ?a "nat i"] agree_sym assms(8) by simp
    qed
  qed
  then show ?thesis
    using plainD(7) [OF linked_log(2) [OF h(1) assms(4)]] plainD(7) [OF linked_log(2) [OF h(2) assms(5)]] assms(6)
    by (simp add: agree_def) linarith
qed

lemma reachable_plain: "valid_ids ids \<Longrightarrow> reachable False ids s \<Longrightarrow> n \<in> set ids \<Longrightarrow> plain (nodes s n)"
  using reachable_linked linked_log(2) by blast

text \<open>
  C1.  State machine safety.  In any run of a cluster without snapshots, whatever is lost, repeated,
  reordered or crashes, two nodes never commit different entries at an index: up to any index that both
  have committed, at whatever two points of the run, their logs hold the same entries.  Automatic
  snapshots have to be off: with them the code does not have this property, which is the subject of the
  theory \<open>Snapshot_Safety\<close>.
\<close>

theorem state_machine_safety:
  assumes "valid_ids ids" and "reachable False ids s" and "cluster_run False ids evs s = Some s'"
    and "n \<in> set ids" and "m \<in> set ids"
    and "0 \<le> i" and "i \<le> commitIndex (nodes s n)" and "i \<le> commitIndex (nodes s' m)"
  shows "take (nat i + 1) (raft_log (nodes s n)) = take (nat i + 1) (raft_log (nodes s' m)) \<and>
    i \<le> lastLogIndex (nodes s n) \<and> i \<le> lastLogIndex (nodes s' m)"
  using assms by (rule committed_agree)

text \<open>
  C3.  Leader completeness.  In any run of a cluster without snapshots, what a node has committed is in the
  log of every node that leads the same or a later term at the same or a later point of the run.
\<close>

theorem leader_completeness:
  assumes "valid_ids ids" and "reachable False ids s" and "cluster_run False ids evs s = Some s'"
    and "n \<in> set ids" and "m \<in> set ids"
    and "state (nodes s' m) = Leader" and "currentTerm (nodes s n) \<le> currentTerm (nodes s' m)"
    and "0 < commitIndex (nodes s n)"
  shows "commitIndex (nodes s n) \<le> lastLogIndex (nodes s' m) \<and>
    take (nat (commitIndex (nodes s n)) + 1) (raft_log (nodes s' m)) =
    take (nat (commitIndex (nodes s n)) + 1) (raft_log (nodes s n))"
proof -
  obtain h h' where h: "linked ids s h" "linked ids s' h'" "later h h'" using assms(1-3) by (rule two_points)
  note N = node_linkD [OF linkedD(2) [OF h(1) assms(4)]] and M = node_linkD [OF linkedD(2) [OF h(2) assms(5)]]
  have lead: "h_lead h' (currentTerm (nodes s' m)) = raft_log (nodes s' m)" "raft_log (nodes s' m) \<noteq> []"
    using M(6) [OF assms(6)] plainD(4) [OF M(1)] by (simp_all add: leads_def)
  have "com (set ids) h' (currentTerm (nodes s' m)) (raft_log (nodes s n)) (nat (commitIndex (nodes s n)))"
    using com_term [OF com_later [OF h(3) N(5)] assms(7)] .
  from com_lead [OF linkedD(1) [OF h(2)] this] assms(8) lead
  have "agree (nat (commitIndex (nodes s n))) (raft_log (nodes s n)) (raft_log (nodes s' m))" by simp
  then show ?thesis using plainD(7) [OF M(1)] assms(8) by (simp add: agree_def) linarith
qed

text \<open>The entries before one of the same term.\<close>

lemma logs_match:
  assumes "valid_ids ids" and "reachable False ids s" and "cluster_run False ids evs s = Some s'"
    and "n \<in> set ids" and "m \<in> set ids"
    and "0 \<le> i" and "i \<le> lastLogIndex (nodes s n)" and "i \<le> lastLogIndex (nodes s' m)"
    and "termAt (nodes s n) i = termAt (nodes s' m) i"
  shows "take (nat i + 1) (raft_log (nodes s n)) = take (nat i + 1) (raft_log (nodes s' m))"
proof -
  obtain h h' where h: "linked ids s h" "linked ids s' h'" "later h h'" using assms(1-3) by (rule two_points)
  note N = linked_log [OF h(1) assms(4)] and M = linked_log [OF h(2) assms(5)]
  have "agree (nat i) (raft_log (nodes s n)) (raft_log (nodes s' m))"
    using assms(6-9) plainD(7) [OF N(2)] plainD(7) [OF M(2)] plain_termAt [OF N(2)] plain_termAt [OF M(2)]
    by (intro log_matching [OF later_log_ok [OF h(3) N(1)] M(1)]) auto
  then show ?thesis by (simp add: agree_def)
qed

text \<open>
  C4.  Log matching.  In any run of a cluster without snapshots, if two nodes, at whatever two points of the
  run, have an entry of the same term at an index, their logs are the same up to that index.
\<close>

theorem cluster_log_matching:
  assumes "valid_ids ids" and "reachable False ids s" and "cluster_run False ids evs s = Some s'"
    and "n \<in> set ids" and "m \<in> set ids"
    and "0 \<le> i" and "i \<le> lastLogIndex (nodes s n)" and "i \<le> lastLogIndex (nodes s' m)"
    and "termAt (nodes s n) i = termAt (nodes s' m) i"
  shows "take (nat i + 1) (raft_log (nodes s n)) = take (nat i + 1) (raft_log (nodes s' m))"
  using assms by (rule logs_match)

text \<open>
  C5.  Leaders only append.  In any run of a cluster without snapshots, the log of a leader at an earlier
  point is a prefix of its log at any later point at which it leads the same term.
\<close>

theorem leader_append_only:
  assumes "valid_ids ids" and "reachable False ids s" and "cluster_run False ids evs s = Some s'"
    and "n \<in> set ids" and "state (nodes s n) = Leader" and "state (nodes s' n) = Leader"
    and "currentTerm (nodes s n) = currentTerm (nodes s' n)"
  shows "prefix (raft_log (nodes s n)) (raft_log (nodes s' n))"
proof -
  obtain h h' where h: "linked ids s h" "linked ids s' h'" "later h h'" using assms(1-3) by (rule two_points)
  have "leads ids h n (nodes s n)" and "leads ids h' n (nodes s' n)"
    using node_linkD(6) linkedD(2) h(1,2) assms(4-6) by blast+
  then show ?thesis using laterD(1) [OF h(3), of "currentTerm (nodes s n)"] assms(7) by (simp add: leads_def)
qed

text \<open>
  C6.  The indices of every node of a reachable cluster without snapshots are in order, so the apply loop
  never reads outside the log: it delivers everything committed and does not panic.
\<close>

theorem cluster_never_panics:
  assumes "valid_ids ids" and "reachable False ids s" and "n \<in> set ids"
  shows "raft_inv (nodes s n) \<and>
    (\<exists>r'. applyCommitted (nodes s n) = Some r' \<and> lastApplied r' = commitIndex (nodes s n))"
proof -
  obtain h where "linked ids s h" using reachable_linked [OF assms(2,1)] by blast
  then have "raft_inv (nodes s n)" using linked_log(2) plainD(2) assms(3) by blast
  with raft_inv_apply_total show ?thesis by blast
qed

subsection \<open>Backing off\<close>

text \<open>
  The hint of a rejecting follower, against any log that matches it: if the follower has another term
  than the leader at the previous index, the leader has no entry of that term from there on.
\<close>

lemma hint_below:
  assumes "log_ok h f" and "log_ok h l" and "i < length f" and "0 < i" and "trm f i \<noteq> trm l i"
    and "j < length l" and "trm l j = trm f i"
  shows "j < i"
proof (rule ccontr)
  assume "\<not> j < i"
  then have "agree j l (h_lead h (trm f i))" using log_okD(4) [OF assms(2), of j] assms(4,6,7) by simp
  then have "l ! i = h_lead h (trm f i) ! i" by (rule agree_nth) (use \<open>\<not> j < i\<close> in simp)
  moreover have "f ! i = h_lead h (trm f i) ! i"
    using log_okD(4) [OF assms(1,4,3)] by (rule agree_nth) simp
  ultimately show False using assms(5) by simp
qed

lemma reject_cases:
  assumes "HandleAppendEntries_locked ops r args = (reply, r', ap)" and "\<not> aer_Success reply"
    and "currentTerm r \<le> aea_Term args" and "logOffset r = 0" and "0 \<le> aea_PrevLogIndex args"
  obtains (short) "lastLogIndex r < aea_PrevLogIndex args" "aer_ConflictTerm reply = 0"
      "aer_ConflictIndex reply = lastLogIndex r + 1" "aer_Term reply = currentTerm r"
  | (conflict) "aea_PrevLogIndex args \<le> lastLogIndex r" "aer_Term reply = currentTerm r"
      "termAt r (aea_PrevLogIndex args) \<noteq> aea_PrevLogTerm args"
      "aer_ConflictTerm reply = termAt r (aea_PrevLogIndex args)"
      "0 \<le> aer_ConflictIndex reply" "aer_ConflictIndex reply \<le> aea_PrevLogIndex args"
      "0 < aea_PrevLogIndex args \<Longrightarrow> termAt r 0 \<noteq> termAt r (aea_PrevLogIndex args) \<Longrightarrow> 0 < aer_ConflictIndex reply"
proof (cases "lastLogIndex r < aea_PrevLogIndex args")
  case True
  then show thesis using assms by (intro short) (auto simp: HandleAppendEntries_locked_def Let_def)
next
  case False
  let ?r1 = "followLeader ops (aea_Term args) (aea_LeaderID args) r" and ?p = "aea_PrevLogIndex args"
  let ?c = "conflictLoop ?r1 (termAt r ?p) ?p"
  have spec: "0 \<le> ?c" "?c \<le> ?p" "?c \<le> 0 \<Longrightarrow> 0 < ?p \<Longrightarrow> termAt r 0 = termAt r ?p"
    using conflictLoop_spec [of ?r1 ?p "termAt r ?p"] assms(4,5) by simp_all
  have ne: "termAt r ?p \<noteq> aea_PrevLogTerm args"
    using HandleAppendEntries_accepted(1) [OF assms(1)] assms(2-5) False by (auto simp: acceptsAppend_def)
  have "HandleAppendEntries_locked ops r args =
      (\<lparr>aer_Term = currentTerm r, aer_Success = False, aer_ConflictIndex = ?c, aer_ConflictTerm = termAt r ?p\<rparr>,
       ?r1, False)"
    using assms(3-5) False ne by (simp add: HandleAppendEntries_locked_def Let_def)
  with assms(1) have rep: "aer_ConflictTerm reply = termAt r ?p" "aer_Term reply = currentTerm r"
      "aer_ConflictIndex reply = ?c" by auto
  show thesis
  proof (rule conflict)
    assume "0 < ?p" "termAt r 0 \<noteq> termAt r ?p"
    with spec(3) show "0 < aer_ConflictIndex reply" unfolding rep(3) by linarith
  qed (use False ne rep spec(1,2) in simp_all)
qed

text \<open>How a leader reacts to a rejection.\<close>

lemma rejected_backs_off:
  assumes "valid_ids ids" and "reachable False ids s" and "cluster_run False ids evs s = Some s'"
    and "AppendReq p args \<in> set (msgs s)" and "currentTerm (nodes s p) \<le> aea_Term args"
    and "HandleAppendEntries_locked memory_ops (nodes s p) args = (reply, r', ap)" and "\<not> aer_Success reply"
    and "n = aea_LeaderID args" and "state (nodes s' n) = Leader" and "currentTerm (nodes s' n) = aea_Term args"
  shows "let next = int_at (nextIndex (fst (handleAppendEntriesReply_locked memory_ops p args reply (nodes s' n)))) p
    in 1 \<le> next \<and> next \<le> aea_PrevLogIndex args"
proof -
  obtain h h' where h: "linked ids s h" "linked ids s' h'" "later h h'" using assms(1-3) by (rule two_points)
  have ids: "p \<in> set ids" "n \<in> set ids"
    using election_invD(2) [OF reachable_election_inv [OF assms(2,1)] assms(4)] assms(8) by simp_all
  define i where "i = nat (aea_PrevLogIndex args)"
  let ?f = "raft_log (nodes s p)" and ?l = "raft_log (nodes s' n)"
  note F = linked_log [OF h(1) ids(1)] and N = linked_log [OF h(2) ids(2)]
  have okf: "log_ok h' ?f" using h(3) F(1) by (rule later_log_ok)
  have al: "append_link ids h' args" using append_link_later [OF h(3)] linkedD(3) [OF h(1) assms(4)] by simp
  have "h_lead h' (aea_Term args) = ?l"
    using node_linkD(6) [OF linkedD(2) [OF h(2) ids(2)]] assms(9,10) by (simp add: leads_def)
  with al have a: "aea_PrevLogIndex args = int i" "i < length ?l" "aea_PrevLogTerm args = trm ?l i"
    by (auto simp: append_link_def Let_def i_def)
  have react: "int_at (nextIndex (fst (handleAppendEntriesReply_locked memory_ops p args reply (nodes s' n)))) p =
      (if aer_ConflictTerm reply \<noteq> 0
       then let lastIdx = lastIndexOfTerm (nodes s' n) (aer_ConflictTerm reply)
            in if lastIdx > 0 then lastIdx + 1 else aer_ConflictIndex reply
       else aer_ConflictIndex reply)"
    if "aer_Term reply = currentTerm (nodes s p)" "aer_ConflictTerm reply \<noteq> 0 \<or> 0 < aer_ConflictIndex reply"
    using that assms(5,7,9,10) by (simp add: handleAppendEntriesReply_locked_def Let_def)
  have nonneg: "0 \<le> aea_PrevLogIndex args" using a(1) by simp
  from assms(6,7,5) plainD(3) [OF F(2)] nonneg show ?thesis
  proof (cases rule: reject_cases)
    case short
    then show ?thesis using react plainD(4,7) [OF F(2)] by (cases ?f) simp_all
  next
    case conflict
    have fi: "i < length ?f" "termAt (nodes s p) (aea_PrevLogIndex args) = trm ?f i"
      using conflict(1) plainD(7) [OF F(2)] plain_termAt [OF F(2), of "int i"] a(1) by simp_all
    have zero: "trm ?f 0 = 0" "trm ?l 0 = 0" using log_okD(2) [OF F(1)] log_okD(2) [OF N(1)] by simp_all
    have ne: "trm ?f i \<noteq> trm ?l i" using conflict(3) fi(2) a(3) by simp
    then have pos: "0 < i" using zero by (cases i) auto
    have ct: "0 < trm ?f i" using log_okD(3) [OF F(1) pos fi(1)] .
    have ci: "0 < aer_ConflictIndex reply" "aer_ConflictIndex reply \<le> int i"
      using conflict(6,7) plain_termAt [OF F(2), of 0] plainD(4) [OF F(2)] fi(2) zero(1) ct pos a(1) by auto
    define j where "j = lastIndexOfTerm (nodes s' n) (trm ?f i)"
    have "j < int i" if "0 < j"
    proof (cases rule: lastIndexOfTerm_cases [of "nodes s' n" "trm ?f i"])
      case 1
      with that show ?thesis by (simp add: j_def)
    next
      case 2
      then have "nat j < length ?l" "trm ?l (nat j) = trm ?f i"
        using that plainD(7) [OF N(2)] plain_termAt [OF N(2), of j] by (auto simp: j_def)
      from hint_below [OF okf N(1) fi(1) pos ne this] that show ?thesis by simp
    qed
    then show ?thesis
      using react conflict(2,4) fi(2) ct ci a(1) by (simp add: j_def Let_def add_strict_increasing zless_imp_add1_zle)
  qed
qed

subsection \<open>A run of three nodes\<close>

text \<open>The first node is elected, appends a command, replicates and commits it, and tells the second.\<close>

definition first_append :: AppendEntriesArgs where
  "first_append = append_a\<lparr>aea_LeaderCommit := 0\<rparr>"

definition commit_append :: AppendEntriesArgs where
  "commit_append = append_a\<lparr>aea_PrevLogIndex := 1, aea_PrevLogTerm := 1, aea_Entries := []\<rparr>"

definition accepted_reply :: AppendEntriesReply where
  "accepted_reply = \<lparr>aer_Term = 1, aer_Success = True, aer_ConflictIndex = 0, aer_ConflictTerm = 0\<rparr>"

definition commit_run :: "ClusterEvent list" where
  "commit_run = election_run @ [ClientStart ''n1'' ''a'', SendAppend ''n1'' ''n2'',
     DeliverAppendReq ''n2'' first_append, DeliverAppendRep ''n2'' first_append accepted_reply,
     AdvanceCommit ''n1'']"

definition tell_run :: "ClusterEvent list" where
  "tell_run = [SendAppend ''n1'' ''n2'', DeliverAppendReq ''n2'' commit_append, CrashRestart ''n2'']"

definition committed_cluster :: cluster where
  "committed_cluster = after_run commit_run"

definition told_cluster :: cluster where
  "told_cluster = the (cluster_run False trio tell_run committed_cluster)"

lemma trio_valid: "valid_ids trio"
  by code_simp

lemma committed_cluster_reachable: "reachable False trio committed_cluster"
proof -
  have "cluster_run False trio commit_run (init_cluster trio) \<noteq> None" by code_simp
  then show ?thesis unfolding committed_cluster_def by (rule after_run_reachable)
qed

lemma told_cluster_run: "cluster_run False trio tell_run committed_cluster = Some told_cluster"
proof -
  have "cluster_run False trio tell_run committed_cluster \<noteq> None" by code_simp
  then show ?thesis by (auto simp: told_cluster_def)
qed

lemma committed_cluster_node:
  "''n1'' \<in> set trio \<and> state (nodes committed_cluster ''n1'') = Leader \<and>
   currentTerm (nodes committed_cluster ''n1'') = 1 \<and> commitIndex (nodes committed_cluster ''n1'') = 1 \<and>
   lastLogIndex (nodes committed_cluster ''n1'') = 1 \<and> termAt (nodes committed_cluster ''n1'') 1 = 1"
  by code_simp

lemma told_cluster_node:
  "''n2'' \<in> set trio \<and> commitIndex (nodes told_cluster ''n2'') = 1 \<and>
   lastLogIndex (nodes told_cluster ''n2'') = 1 \<and> termAt (nodes told_cluster ''n2'') 1 = 1 \<and>
   state (nodes told_cluster ''n1'') = Leader \<and> currentTerm (nodes told_cluster ''n1'') = 1"
  by code_simp

theorem state_machine_safety_witness:
  "take 2 (raft_log (nodes committed_cluster ''n1'')) = take 2 (raft_log (nodes told_cluster ''n2''))"
  using state_machine_safety [OF trio_valid committed_cluster_reachable told_cluster_run, of "''n1''" "''n2''" 1]
    committed_cluster_node told_cluster_node by (simp add: numeral_2_eq_2)

theorem leader_completeness_witness:
  "take 2 (raft_log (nodes told_cluster ''n1'')) = take 2 (raft_log (nodes committed_cluster ''n1''))"
  using leader_completeness [OF trio_valid committed_cluster_reachable told_cluster_run, of "''n1''" "''n1''"]
    committed_cluster_node told_cluster_node by (simp add: numeral_2_eq_2)

theorem cluster_log_matching_witness:
  "take 2 (raft_log (nodes committed_cluster ''n1'')) = take 2 (raft_log (nodes committed_cluster ''n2''))"
proof -
  have "''n2'' \<in> set trio \<and> lastLogIndex (nodes committed_cluster ''n2'') = 1 \<and>
      termAt (nodes committed_cluster ''n2'') 1 = 1" by code_simp
  with cluster_log_matching [OF trio_valid committed_cluster_reachable, of "[]" _ "''n1''" "''n2''" 1]
    committed_cluster_node show ?thesis by (simp add: numeral_2_eq_2)
qed

theorem leader_append_only_witness:
  "prefix (raft_log (nodes committed_cluster ''n1'')) (raft_log (nodes told_cluster ''n1''))"
  using leader_append_only [OF trio_valid committed_cluster_reachable told_cluster_run, of "''n1''"]
    committed_cluster_node told_cluster_node by simp

theorem cluster_never_panics_witness:
  "\<exists>r'. applyCommitted (nodes committed_cluster ''n1'') = Some r' \<and> lastApplied r' = 1"
  using cluster_never_panics [OF trio_valid committed_cluster_reachable, of "''n1''"] committed_cluster_node
  by simp

text \<open>The second node takes over and finds that the third has missed the entry.\<close>

definition takeover_run :: "ClusterEvent list" where
  "takeover_run = commit_run @ [Timeout ''n2'',
     DeliverVoteReq ''n1'' \<lparr>rva_Term = 2, rva_CandidateID = ''n2'', rva_LastLogIndex = 1, rva_LastLogTerm = 1\<rparr>,
     DeliverVoteRep ''n2'' 2 ''n1'' \<lparr>rvr_Term = 2, rvr_VoteGranted = True\<rparr>, SendAppend ''n2'' ''n3'']"

definition takeover_cluster :: cluster where
  "takeover_cluster = after_run takeover_run"

end
