(* ===== verification/Kv_Store.thy ===== *)
theory Kv_Store
  imports Json_Structs "HOL-Library.List_Lexorder" "HOL-Library.Char_ord"
begin

text \<open>
  The key-value store of \<^verbatim>\<open>src/kv/store.go\<close>: the commands, their JSON encoding, the store and its
  snapshots.  The store's map may be nil (a snapshot holding \<^verbatim>\<open>null\<close> restores it so), which is
  \<^term>\<open>None\<close>; writing to a nil map panics, so \<open>Apply\<close> returns an option.
\<close>

subsection \<open>Commands\<close>

definition OpSet :: string where "OpSet = ''set''"
definition OpInsert :: string where "OpInsert = ''insert''"
definition OpDelete :: string where "OpDelete = ''delete''"

datatype kv_error =
    ErrKeyNotFound
  | ErrKeyExists
  | ErrUnknownOp
  | ErrJSON

text \<open>\<open>jsonText\<close> is the text of the decoding error, which depends on the input.\<close>

fun kv_error_Error :: "string \<Rightarrow> kv_error \<Rightarrow> string" where
  "kv_error_Error jsonText ErrKeyNotFound = ''key not found''"
| "kv_error_Error jsonText ErrKeyExists = ''key exists''"
| "kv_error_Error jsonText ErrUnknownOp = ''unknown operation''"
| "kv_error_Error jsonText ErrJSON = jsonText"

record Command =
  Op :: string
  Key :: string
  Value :: string

definition zero_Command :: Command where
  "zero_Command = \<lparr>Op = [], Key = [], Value = []\<rparr>"

definition EncodeCommand :: "Command \<Rightarrow> bytes" where
  "EncodeCommand cmd =
     Marshal (JObj ([(''op'', JStr (Op cmd)), (''key'', JStr (Key cmd))] @
       (if Value cmd = [] then [] else [(''value'', JStr (Value cmd))])))"

definition set_field :: "string \<Rightarrow> string \<Rightarrow> Command \<Rightarrow> Command" where
  "set_field name s cmd =
     (if name = ''op'' then cmd\<lparr>Op := s\<rparr> else if name = ''key'' then cmd\<lparr>Key := s\<rparr> else cmd\<lparr>Value := s\<rparr>)"

text \<open>
  A member of another type than string is an \<^verbatim>\<open>UnmarshalTypeError\<close>, \<^verbatim>\<open>null\<close> leaves the field alone and
  an unknown member is skipped.
\<close>

fun decode_fields :: "(string \<times> json) list \<Rightarrow> Command \<Rightarrow> kv_error + Command" where
  "decode_fields [] cmd = Inr cmd"
| "decode_fields ((k, v) # ps) cmd =
     (case fieldFor [''op'', ''key'', ''value''] k of
        None \<Rightarrow> decode_fields ps cmd
      | Some name \<Rightarrow>
          (case v of
             JStr s \<Rightarrow> decode_fields ps (set_field name s cmd)
           | JNull \<Rightarrow> decode_fields ps cmd
           | _ \<Rightarrow> Inl ErrJSON))"

definition DecodeCommand :: "bytes \<Rightarrow> kv_error + Command" where
  "DecodeCommand d =
     (case parse d of
        None \<Rightarrow> Inl ErrJSON
      | Some JNull \<Rightarrow> Inr zero_Command
      | Some (JObj ps) \<Rightarrow> decode_fields ps zero_Command
      | Some _ \<Rightarrow> Inl ErrJSON)"

subsection \<open>The store\<close>

record Store =
  store_data :: "(string, string) gomap option"

definition NewStore :: Store where
  "NewStore = \<lparr>store_data = Some []\<rparr>"

definition lookup :: "Store \<Rightarrow> string \<Rightarrow> string option" where
  "lookup s k = (case store_data s of None \<Rightarrow> None | Some m \<Rightarrow> map_of m k)"

definition Get :: "Store \<Rightarrow> string \<Rightarrow> string \<times> bool" where
  "Get s key = (case lookup s key of None \<Rightarrow> ([], False) | Some v \<Rightarrow> (v, True))"

text \<open>Assignment to a map element: \<^term>\<open>None\<close> is the panic of a nil map.\<close>

definition assign :: "string \<Rightarrow> string \<Rightarrow> Store \<Rightarrow> Store option" where
  "assign k v s = map_option (\<lambda>m. s\<lparr>store_data := Some (AList.update k v m)\<rparr>) (store_data s)"

definition Apply :: "Command \<Rightarrow> Store \<Rightarrow> (kv_error option \<times> Store) option" where
  "Apply cmd s =
     (if Op cmd = OpSet then map_option (Pair None) (assign (Key cmd) (Value cmd) s)
      else if Op cmd = OpInsert then
        (if lookup s (Key cmd) \<noteq> None then Some (Some ErrKeyExists, s)
         else map_option (Pair None) (assign (Key cmd) (Value cmd) s))
      else if Op cmd = OpDelete then
        (if lookup s (Key cmd) = None then Some (Some ErrKeyNotFound, s)
         else Some (None, s\<lparr>store_data := map_option (AList.delete (Key cmd)) (store_data s)\<rparr>))
      else Some (Some ErrUnknownOp, s))"

subsection \<open>Snapshots\<close>

text \<open>\<^verbatim>\<open>json.Marshal\<close> writes the members of a map in the order of their keys, and a nil map as \<^verbatim>\<open>null\<close>.\<close>

definition StoreSnapshot :: "Store \<Rightarrow> bytes" where
  "StoreSnapshot s =
     Marshal (case store_data s of
       None \<Rightarrow> JNull
     | Some m \<Rightarrow> JObj (map (\<lambda>p. (fst p, JStr (snd p))) (sort_key fst m)))"

fun decode_map :: "(string \<times> json) list \<Rightarrow> (string, string) gomap \<Rightarrow> kv_error + (string, string) gomap" where
  "decode_map [] m = Inr m"
| "decode_map ((k, v) # ps) m =
     (case v of
        JStr s \<Rightarrow> decode_map ps (AList.update k s m)
      | JNull \<Rightarrow> decode_map ps (AList.update k [] m)
      | _ \<Rightarrow> Inl ErrJSON)"

definition unmarshal_map :: "bytes \<Rightarrow> kv_error + (string, string) gomap option" where
  "unmarshal_map d =
     (case parse d of
        None \<Rightarrow> Inl ErrJSON
      | Some JNull \<Rightarrow> Inr None
      | Some (JObj ps) \<Rightarrow> (case decode_map ps [] of Inl e \<Rightarrow> Inl e | Inr m \<Rightarrow> Inr (Some m))
      | Some _ \<Rightarrow> Inl ErrJSON)"

definition RestoreSnapshot :: "bytes \<Rightarrow> Store \<Rightarrow> kv_error option \<times> Store" where
  "RestoreSnapshot d s =
     (if d = [] then (None, s\<lparr>store_data := Some []\<rparr>)
      else case unmarshal_map d of
             Inl e \<Rightarrow> (Some e, s)
           | Inr m \<Rightarrow> (None, s\<lparr>store_data := m\<rparr>))"

subsection \<open>Encoding and decoding commands\<close>

lemma sanitize_names [simp]:
  "sanitize ''op'' = ''op''" "sanitize ''key'' = ''key''" "sanitize ''value'' = ''value''"
  by (simp_all add: sanitize_ascii)

lemma DecodeCommand_EncodeCommand:
  "DecodeCommand (EncodeCommand cmd) =
     Inr \<lparr>Op = sanitize (Op cmd), Key = sanitize (Key cmd), Value = sanitize (Value cmd)\<rparr>"
  by (simp add: DecodeCommand_def EncodeCommand_def parse_Marshal max_depth_def fieldFor_def set_field_def
      zero_Command_def)

subsection \<open>The abstract store\<close>

text \<open>What the store promises: a finite map with set, insert and delete.\<close>

definition kv_spec :: "Command \<Rightarrow> (string \<rightharpoonup> string) \<Rightarrow> kv_error option \<times> (string \<rightharpoonup> string)" where
  "kv_spec cmd m =
     (if Op cmd = ''set'' then (None, m(Key cmd \<mapsto> Value cmd))
      else if Op cmd = ''insert'' then
        (if Key cmd \<in> dom m then (Some ErrKeyExists, m) else (None, m(Key cmd \<mapsto> Value cmd)))
      else if Op cmd = ''delete'' then
        (if Key cmd \<in> dom m then (None, m(Key cmd := None)) else (Some ErrKeyNotFound, m))
      else (Some ErrUnknownOp, m))"

lemma lookup_update [simp]:
  "lookup (s\<lparr>store_data := Some (AList.update k v m)\<rparr>) = (map_of m)(k \<mapsto> v)"
  "lookup (s\<lparr>store_data := Some (AList.delete k m)\<rparr>) = (map_of m)(k := None)"
  by (auto simp: lookup_def)

lemma lookup_Some: "store_data s = Some m \<Longrightarrow> lookup s = map_of m"
  by (auto simp: lookup_def)

lemma Apply_refines:
  assumes "store_data s \<noteq> None"
  obtains s' where "Apply cmd s = Some (fst (kv_spec cmd (lookup s)), s')"
    and "lookup s' = snd (kv_spec cmd (lookup s))" and "store_data s' \<noteq> None"
proof -
  obtain m where m: "store_data s = Some m" using assms by auto
  have "\<exists>s'. Apply cmd s = Some (fst (kv_spec cmd (lookup s)), s') \<and>
      lookup s' = snd (kv_spec cmd (lookup s)) \<and> store_data s' \<noteq> None"
    using m by (auto simp: Apply_def kv_spec_def assign_def lookup_Some [OF m] OpSet_def OpInsert_def
        OpDelete_def domIff)
  then show thesis using that by blast
qed

subsection \<open>Snapshots restore the store\<close>

definition store_ok :: "Store \<Rightarrow> bool" where
  "store_ok s \<longleftrightarrow> (case store_data s of
     None \<Rightarrow> False
   | Some m \<Rightarrow> distinct (map fst m) \<and> list_all (\<lambda>p. valid_utf8 (fst p) \<and> valid_utf8 (snd p)) m)"

definition command_ok :: "Command \<Rightarrow> bool" where
  "command_ok cmd \<longleftrightarrow> valid_utf8 (Op cmd) \<and> valid_utf8 (Key cmd) \<and> valid_utf8 (Value cmd)"

definition same_store :: "Store \<Rightarrow> Store \<Rightarrow> bool" where
  "same_store s t \<longleftrightarrow> store_data s \<noteq> None \<and> store_data t \<noteq> None \<and> lookup s = lookup t"

lemma decode_map_strings:
  "decode_map (map (\<lambda>p. (fst p, JStr (snd p))) ps) m = Inr (fold (\<lambda>p. AList.update (fst p) (snd p)) ps m)"
  by (induction ps arbitrary: m) auto

lemma clean_strings:
  assumes "list_all (\<lambda>p. valid_utf8 (fst p) \<and> valid_utf8 (snd p)) ps"
  shows "clean (JObj (map (\<lambda>p. (fst p, JStr (snd p))) ps)) = JObj (map (\<lambda>p. (fst p, JStr (snd p))) ps)"
  using assms by (auto simp: list_all_iff sanitize_valid)

lemma depth_strings: "depth (JObj (map (\<lambda>p. (fst p, JStr (snd p))) ps)) \<le> max_depth"
proof -
  have "foldr max (map (\<lambda>p. depth (snd p)) (map (\<lambda>p. (fst p, JStr (snd p))) ps)) 0 = 0"
    by (induction ps) simp_all
  then show ?thesis by (simp add: max_depth_def)
qed

lemma StoreSnapshot_nonempty: "StoreSnapshot s \<noteq> []"
  by (auto simp: StoreSnapshot_def Marshal_def split: option.splits)

lemma restore_snapshot:
  assumes "store_ok s"
  shows "\<exists>t'. RestoreSnapshot (StoreSnapshot s) t = (None, t') \<and> same_store t' s"
proof -
  obtain m where m: "store_data s = Some m" "distinct (map fst m)"
      "list_all (\<lambda>p. valid_utf8 (fst p) \<and> valid_utf8 (snd p)) m"
    using assms by (auto simp: store_ok_def split: option.splits)
  let ?ps = "sort_key fst m"
  let ?m' = "fold (\<lambda>p. AList.update (fst p) (snd p)) ?ps []"
  have ok: "list_all (\<lambda>p. valid_utf8 (fst p) \<and> valid_utf8 (snd p)) ?ps" using m(3) by (simp add: list_all_iff)
  have dist: "distinct (map fst ?ps)" using m(2) by (simp add: distinct_map)
  have "parse (StoreSnapshot s) = Some (JObj (map (\<lambda>p. (fst p, JStr (snd p))) ?ps))"
    using clean_strings [OF ok] parse_Marshal [OF _ depth_strings [of ?ps]]
    by (simp add: StoreSnapshot_def m(1) list_all_iff)
  then have "RestoreSnapshot (StoreSnapshot s) t = (None, t\<lparr>store_data := Some ?m'\<rparr>)"
    using StoreSnapshot_nonempty [of s] by (simp add: RestoreSnapshot_def unmarshal_map_def decode_map_strings)
  moreover have "map_of ?m' = map_of m"
    using map_of_fold_update [OF dist, of "[]"] map_of_inject_set [OF dist m(2)] by simp
  ultimately show ?thesis by (simp add: same_store_def lookup_Some m(1))
qed

subsection \<open>Replaying a log\<close>

text \<open>
  The interface log compaction relies on: a state machine whose state can be written to a snapshot and
  restored.  A client may then replace any prefix of the log by a snapshot.
\<close>

locale snapshotable =
  fixes step :: "'c \<Rightarrow> 's \<Rightarrow> 's" and snap :: "'s \<Rightarrow> 'b" and restore :: "'b \<Rightarrow> 's \<Rightarrow> 's"
    and ok :: "'s \<Rightarrow> bool" and okc :: "'c \<Rightarrow> bool" and eqv :: "'s \<Rightarrow> 's \<Rightarrow> bool"
  assumes step_ok: "ok s \<Longrightarrow> okc c \<Longrightarrow> ok (step c s)"
    and step_eqv: "eqv s t \<Longrightarrow> eqv (step c s) (step c t)"
    and restore_snap: "ok s \<Longrightarrow> eqv (restore (snap s) t) s"
begin

lemma fold_ok: "ok s \<Longrightarrow> list_all okc cs \<Longrightarrow> ok (fold step cs s)"
  by (induction cs arbitrary: s) (auto intro: step_ok)

lemma fold_eqv: "eqv s t \<Longrightarrow> eqv (fold step cs s) (fold step cs t)"
  by (induction cs arbitrary: s t) (auto intro: step_eqv)

lemma replay_from_snapshot:
  assumes "ok s" and "list_all okc xs"
  shows "eqv (fold step ys (restore (snap (fold step xs s)) t)) (fold step (xs @ ys) s)"
  using restore_snap [OF fold_ok [OF assms], of t] by (auto dest: fold_eqv [of _ _ ys])

end

definition apply_step :: "Command \<Rightarrow> Store \<Rightarrow> Store" where
  "apply_step cmd s = (case Apply cmd s of None \<Rightarrow> s | Some (_, s') \<Rightarrow> s')"

definition restore_step :: "bytes \<Rightarrow> Store \<Rightarrow> Store" where
  "restore_step d s = snd (RestoreSnapshot d s)"

lemma apply_step_lookup:
  "store_data s \<noteq> None \<Longrightarrow> store_data (apply_step cmd s) \<noteq> None \<and>
     lookup (apply_step cmd s) = snd (kv_spec cmd (lookup s))"
  by (rule Apply_refines [of s cmd]) (auto simp: apply_step_def)

lemma apply_step_ok:
  assumes "store_ok s" and "command_ok cmd"
  shows "store_ok (apply_step cmd s)"
proof -
  obtain m where m: "store_data s = Some m" "distinct (map fst m)"
      "list_all (\<lambda>p. valid_utf8 (fst p) \<and> valid_utf8 (snd p)) m"
    using assms(1) by (auto simp: store_ok_def split: option.splits)
  have "list_all (\<lambda>p. valid_utf8 (fst p) \<and> valid_utf8 (snd p)) (AList.update (Key cmd) (Value cmd) m)"
    using m(3) assms(2) by (induction m) (auto simp: command_ok_def)
  moreover have "list_all (\<lambda>p. valid_utf8 (fst p) \<and> valid_utf8 (snd p)) (AList.delete (Key cmd) m)"
    using m(3) by (auto simp: list_all_iff AList.delete_eq)
  ultimately show ?thesis
    using m by (auto simp: apply_step_def Apply_def assign_def store_ok_def distinct_update distinct_delete
        split: option.splits)
qed

interpretation kv: snapshotable apply_step StoreSnapshot restore_step store_ok command_ok same_store
proof unfold_locales
  show "store_ok s \<Longrightarrow> command_ok c \<Longrightarrow> store_ok (apply_step c s)" for s c
    by (rule apply_step_ok)
  show "same_store s t \<Longrightarrow> same_store (apply_step c s) (apply_step c t)" for s t c
    using apply_step_lookup by (simp add: same_store_def)
  show "store_ok s \<Longrightarrow> same_store (restore_step (StoreSnapshot s) t) s" for s t
    using restore_snapshot [of s t] by (auto simp: restore_step_def)
qed

subsection \<open>Properties\<close>

text \<open>
  C17.  The store implements its specification: on a store with a map, \<^verbatim>\<open>Apply\<close> never panics, reports
  exactly the error of the specification (key exists, key not found, unknown operation), and changes
  exactly the binding the command names, or nothing when it reports an error.
\<close>

theorem store_refines_spec:
  assumes "store_data s \<noteq> None"
  shows "\<exists>s'. Apply cmd s = Some (fst (kv_spec cmd (lookup s)), s') \<and>
     lookup s' = snd (kv_spec cmd (lookup s)) \<and> store_data s' \<noteq> None \<and>
     (fst (kv_spec cmd (lookup s)) \<noteq> None \<longrightarrow> lookup s' = lookup s) \<and>
     (\<forall>k. k \<noteq> Key cmd \<longrightarrow> lookup s' k = lookup s k)"
  by (rule Apply_refines [OF assms, of cmd]) (auto simp: kv_spec_def)

theorem store_refines_spec_witness:
  "\<exists>s'. Apply \<lparr>Op = ''delete'', Key = ''x'', Value = []\<rparr> NewStore = Some (Some ErrKeyNotFound, s')"
proof -
  let ?c = "\<lparr>Op = ''delete'', Key = ''x'', Value = []\<rparr>"
  have "fst (kv_spec ?c (lookup NewStore)) = Some ErrKeyNotFound" and "store_data NewStore \<noteq> None"
    by (simp_all add: kv_spec_def NewStore_def lookup_def dom_def)
  with store_refines_spec [of NewStore ?c] show ?thesis by auto
qed

text \<open>
  C26.  A command that goes through the log arrives as it was sent: decoding the encoded command gives
  the command back, with every byte that is not valid UTF-8 replaced by U+FFFD, so unchanged when its
  strings are valid UTF-8.
\<close>

theorem command_roundtrip:
  "DecodeCommand (EncodeCommand cmd) =
     Inr \<lparr>Op = sanitize (Op cmd), Key = sanitize (Key cmd), Value = sanitize (Value cmd)\<rparr> \<and>
   (command_ok cmd \<longrightarrow> DecodeCommand (EncodeCommand cmd) = Inr cmd)"
  by (simp add: DecodeCommand_EncodeCommand command_ok_def sanitize_valid)

theorem command_roundtrip_witness:
  "DecodeCommand (EncodeCommand \<lparr>Op = ''set'', Key = ''k'', Value = ''a b''\<rparr>) =
     Inr \<lparr>Op = ''set'', Key = ''k'', Value = ''a b''\<rparr>"
proof -
  have "command_ok \<lparr>Op = ''set'', Key = ''k'', Value = ''a b''\<rparr>"
    by (simp add: command_ok_def valid_utf8.simps)
  with command_roundtrip show ?thesis by blast
qed

text \<open>
  A value that is not valid UTF-8 is altered on its way through the log: a set of the byte
  \<^verbatim>\<open>0xFF\<close> stores the three bytes of U+FFFD.
\<close>

lemma invalid_utf8_altered:
  "DecodeCommand (EncodeCommand \<lparr>Op = ''set'', Key = ''k'', Value = [CHR 0xFF]\<rparr>) =
     Inr \<lparr>Op = ''set'', Key = ''k'', Value = [CHR 0xEF, CHR 0xBF, CHR 0xBD]\<rparr>"
  by (simp add: DecodeCommand_EncodeCommand sanitize.simps rune_len.simps replacement_def)

text \<open>
  C18.  Compaction is invisible to the store: replacing a prefix of the command log by a snapshot of
  the store after it, and restoring that snapshot into any store before applying the rest of the log,
  gives a store with the same contents as applying the whole log.
\<close>

theorem snapshot_replaces_prefix:
  assumes "store_ok s" and "list_all command_ok xs"
  shows "lookup (fold apply_step ys (restore_step (StoreSnapshot (fold apply_step xs s)) t)) =
     lookup (fold apply_step (xs @ ys) s)"
  using kv.replay_from_snapshot [OF assms, of ys t] by (simp add: same_store_def)

theorem snapshot_replaces_prefix_witness:
  "lookup (restore_step (StoreSnapshot (fold apply_step [\<lparr>Op = ''set'', Key = ''k'', Value = ''v''\<rparr>] NewStore)) NewStore) ''k''
     = Some ''v''"
proof -
  have "store_ok NewStore" "list_all command_ok [\<lparr>Op = ''set'', Key = ''k'', Value = ''v''\<rparr>]"
    by (simp_all add: store_ok_def NewStore_def command_ok_def valid_utf8.simps)
  from snapshot_replaces_prefix [OF this, of "[]" NewStore] show ?thesis
    by (simp add: apply_step_def Apply_def assign_def NewStore_def OpSet_def lookup_def)
qed

end
