(* ===== verification/Server.thy ===== *)
theory Server
  imports Kv_Store Raft_Invariants
begin

text \<open>
  The server of \<^verbatim>\<open>src/server/server.go\<close>: it owns a Raft node and a store, turns client requests into
  commands for the log, applies what the node delivers on \<^verbatim>\<open>applyCh\<close>, hands each result to the request
  that waits for it, and compacts the log.

  A waiter's channel (buffered, one value) is a number; \<open>waiterVals\<close> holds the values sent on them.  A
  blocking function is split at its \<^verbatim>\<open>select\<close>: a \<open>begin\<close> part up to it and a \<open>select\<close> part, between which
  other goroutines run.  \<^term>\<open>None\<close> is a panic, or a select that still blocks.
\<close>

subsection \<open>State\<close>

record ServerConfig =
  sc_ID :: node_id
  sc_Addr :: string
  sc_Peers :: "(node_id, string) gomap"
  sc_DataDir :: string
  sc_SnapshotThreshold :: int
  sc_Debug :: bool
  sc_Verbose :: bool

datatype srv_error =
    KvErr kv_error
  | RaftErr raft_error
  | ErrServerID
  | ErrServerAddr

record 's Server =
  srv_id :: node_id
  srv_addr :: string
  srv_peers :: "(node_id, string) gomap"
  srv_store :: Store
  srv_raft :: "'s Raft"
  snapshotThreshold :: int
  srv_debug :: bool
  srv_verbose :: bool
  applyWaiters :: "(int, nat) gomap"
  applyResults :: "(int, kv_error option) gomap"
  waiterCount :: nat
  waiterVals :: "(nat, kv_error option) gomap"

subsection \<open>Construction\<close>

definition restoreSnapshot :: "'s Server \<Rightarrow> kv_error option \<times> 's Server" where
  "restoreSnapshot s =
     (let snap = SnapshotState (srv_raft s)
      in if snap_LastIncludedIndex snap = 0 then (None, s)
         else let (err, st) = RestoreSnapshot (snap_Data snap) (srv_store s) in (err, s\<lparr>srv_store := st\<rparr>))"

definition allPeers :: "ServerConfig \<Rightarrow> (node_id, string) gomap" where
  "allPeers cfg = AList.update (sc_ID cfg) (sc_Addr cfg) (sc_Peers cfg)"

definition raftPeers :: "ServerConfig \<Rightarrow> (node_id, string) gomap" where
  "raftPeers cfg = filter (\<lambda>p. fst p \<noteq> sc_ID cfg) (allPeers cfg)"

text \<open>\<open>store_at dir id\<close> is the file storage at \<^verbatim>\<open>dir/id/raft.json\<close>.\<close>

definition NewServer ::
    "'s StorageOps \<Rightarrow> (string \<Rightarrow> string \<Rightarrow> 's) \<Rightarrow> 's \<Rightarrow> ServerConfig \<Rightarrow> srv_error + 's Server" where
  "NewServer ops store_at newMem cfg =
     (if sc_ID cfg = [] then Inl ErrServerID
      else if sc_Addr cfg = [] then Inl ErrServerAddr
      else
        let cfg = (if sc_DataDir cfg = [] then cfg\<lparr>sc_DataDir := ''data''\<rparr> else cfg);
            cfg = (if sc_SnapshotThreshold cfg = 0 then cfg\<lparr>sc_SnapshotThreshold := 100\<rparr> else cfg)
        in case NewRaft ops newMem
             \<lparr>cfg_ID = sc_ID cfg, cfg_Peers = raftPeers cfg, cfg_hasTransport = True,
              cfg_Storage = Some (store_at (sc_DataDir cfg) (sc_ID cfg)), cfg_ElectionTimeout = 0,
              cfg_HeartbeatInterval = 0, cfg_Debug = sc_Debug cfg \<or> sc_Verbose cfg,
              cfg_Verbose = sc_Verbose cfg\<rparr> of
             Inl e \<Rightarrow> Inl (RaftErr e)
           | Inr r \<Rightarrow>
               let s = \<lparr>srv_id = sc_ID cfg, srv_addr = sc_Addr cfg, srv_peers = allPeers cfg,
                        srv_store = NewStore, srv_raft = r,
                        snapshotThreshold = sc_SnapshotThreshold cfg,
                        srv_debug = sc_Debug cfg \<or> sc_Verbose cfg, srv_verbose = sc_Verbose cfg,
                        applyWaiters = [], applyResults = [], waiterCount = 0, waiterVals = []\<rparr>
               in case restoreSnapshot s of
                    (Some e, _) \<Rightarrow> Inl (KvErr e)
                  | (None, s) \<Rightarrow> Inr s)"

subsection \<open>Applying what the log delivers\<close>

definition send_result :: "nat \<Rightarrow> kv_error option \<Rightarrow> 's Server \<Rightarrow> 's Server" where
  "send_result ch res s = s\<lparr>waiterVals := (ch, res) # waiterVals s\<rparr>"

definition maybeSnapshot :: "'s StorageOps \<Rightarrow> int \<Rightarrow> 's Server \<Rightarrow> 's Server" where
  "maybeSnapshot ops index s =
     (if snapshotThreshold s \<le> 0 then s
      else if index - LogOffset (srv_raft s) < snapshotThreshold s then s
      else s\<lparr>srv_raft := snd (takeSnapshot ops (srv_raft s) index (StoreSnapshot (srv_store s)))\<rparr>)"

definition applySnapshot :: "ApplyMsg \<Rightarrow> 's Server \<Rightarrow> 's Server" where
  "applySnapshot msg s =
     (let (err, st) = RestoreSnapshot (am_SnapshotData msg) (srv_store s);
          woken = filter (\<lambda>p. fst p \<le> am_SnapshotIndex msg) (applyWaiters s)
      in fold (\<lambda>p. send_result (snd p) err) woken
           (s\<lparr>srv_store := st, applyWaiters := filter (\<lambda>p. \<not> fst p \<le> am_SnapshotIndex msg) (applyWaiters s)\<rparr>))"

text \<open>The command of a message, decoded and applied: the error it reports and the store.\<close>

definition applyMsgCommand :: "bytes \<Rightarrow> Store \<Rightarrow> (kv_error option \<times> Store) option" where
  "applyMsgCommand data st =
     (case DecodeCommand data of
        Inl e \<Rightarrow> Some (Some e, st)
      | Inr cmd \<Rightarrow> Apply cmd st)"

text \<open>The section under \<^verbatim>\<open>applyMu\<close> that hands over a result.\<close>

definition deliverResult :: "int \<Rightarrow> kv_error option \<Rightarrow> 's Server \<Rightarrow> 's Server" where
  "deliverResult index applyErr s =
     (case map_of (applyWaiters s) index of
        Some ch \<Rightarrow> send_result ch applyErr (s\<lparr>applyWaiters := AList.delete index (applyWaiters s)\<rparr>)
      | None \<Rightarrow>
          if snd (RaftState (srv_raft s))
          then s\<lparr>applyResults := AList.update index applyErr (applyResults s)\<rparr> else s)"

text \<open>One iteration of \<^verbatim>\<open>applyLoop\<close>.\<close>

definition applyLoop_msg :: "'s StorageOps \<Rightarrow> ApplyMsg \<Rightarrow> 's Server \<Rightarrow> 's Server option" where
  "applyLoop_msg ops msg s =
     (if am_Snapshot msg then Some (applySnapshot msg s)
      else case applyMsgCommand (am_Command msg) (srv_store s) of
             None \<Rightarrow> None
           | Some (applyErr, st) \<Rightarrow>
               Some (maybeSnapshot ops (am_Index msg)
                 (deliverResult (am_Index msg) applyErr (s\<lparr>srv_store := st\<rparr>))))"

fun applyLoop :: "'s StorageOps \<Rightarrow> ApplyMsg list \<Rightarrow> 's Server \<Rightarrow> 's Server option" where
  "applyLoop ops [] s = Some s"
| "applyLoop ops (msg # msgs) s =
     (case applyLoop_msg ops msg s of None \<Rightarrow> None | Some s' \<Rightarrow> applyLoop ops msgs s')"

subsection \<open>Serving a request\<close>

definition leaderAddr :: "'s Server \<Rightarrow> string" where
  "leaderAddr s =
     (let leader = LeaderID (srv_raft s)
      in if leader = [] \<or> leader = srv_id s then []
         else case map_of (srv_peers s) leader of None \<Rightarrow> [] | Some addr \<Rightarrow> addr)"

text \<open>The value, the leader's address and the error.\<close>

definition getValueInternal :: "string \<Rightarrow> 's Server \<Rightarrow> string \<times> string \<times> srv_error option" where
  "getValueInternal key s =
     (if \<not> snd (RaftState (srv_raft s)) then ([], leaderAddr s, Some (RaftErr ErrNotLeader))
      else
        let (v, found) = Get (srv_store s) key
        in if \<not> found then ([], [], Some (KvErr ErrKeyNotFound)) else (v, [], None))"

definition waitForApply_begin :: "int \<Rightarrow> 's Server \<Rightarrow> (kv_error option + nat) \<times> 's Server" where
  "waitForApply_begin index s =
     (case map_of (applyResults s) index of
        Some result \<Rightarrow> (Inl result, s\<lparr>applyResults := AList.delete index (applyResults s)\<rparr>)
      | None \<Rightarrow>
          (Inr (waiterCount s),
           s\<lparr>applyWaiters := AList.update index (waiterCount s) (applyWaiters s),
             waiterCount := Suc (waiterCount s)\<rparr>))"

definition waitForApply_select ::
    "raft_error option \<Rightarrow> bool \<Rightarrow> nat \<Rightarrow> int \<Rightarrow> 's Server \<Rightarrow> (srv_error option \<times> 's Server) option" where
  "waitForApply_select ctxErr pickDone ch index s =
     (case (map_of (waiterVals s) ch, ctxErr) of
        (Some res, None) \<Rightarrow> Some (map_option KvErr res, s)
      | (Some res, Some e) \<Rightarrow>
          if pickDone
          then Some (Some (RaftErr e),
            if map_of (applyWaiters s) index = Some ch
            then s\<lparr>applyWaiters := AList.delete index (applyWaiters s)\<rparr> else s)
          else Some (map_option KvErr res, s)
      | (None, Some e) \<Rightarrow>
          Some (Some (RaftErr e),
            if map_of (applyWaiters s) index = Some ch
            then s\<lparr>applyWaiters := AList.delete index (applyWaiters s)\<rparr> else s)
      | (None, None) \<Rightarrow> None)"

text \<open>
  What other goroutines do around a blocking call: their effect on the server before the call takes
  its lock and while it blocks, the state of the context when its select is decided, and Go's choice if
  both cases are ready then.
\<close>

record 's Blocking =
  bl_before :: "'s Server \<Rightarrow> 's Server"
  bl_env :: "'s Server \<Rightarrow> 's Server"
  bl_ctx :: "raft_error option"
  bl_pick :: bool

datatype 's Outcome =
    Panics
  | Blocked
  | Done "srv_error option" string "srv_error option" "'s Server"

definition waitForApply :: "'s Blocking \<Rightarrow> int \<Rightarrow> 's Server \<Rightarrow> (srv_error option \<times> 's Server) option" where
  "waitForApply b index s =
     (case waitForApply_begin index (bl_before b s) of
        (Inl result, s) \<Rightarrow> Some (map_option KvErr result, s)
      | (Inr ch, s) \<Rightarrow> waitForApply_select (bl_ctx b) (bl_pick b) ch index (bl_env b s))"

text \<open>The error of the commit wait, then the apply wait of \<^verbatim>\<open>applyCommandInternal\<close>.\<close>

definition afterCommit :: "'s Blocking \<Rightarrow> int \<Rightarrow> WaitResult \<Rightarrow> 's Server \<Rightarrow> 's Outcome" where
  "afterCommit b index res s =
     (case res of
        WaitErr e \<Rightarrow>
          if e = ErrNotLeader then Done None (leaderAddr s) (Some (RaftErr ErrNotLeader)) s
          else Done None [] (Some (RaftErr e)) s
      | WaitOn _ \<Rightarrow> Blocked
      | WaitOK \<Rightarrow>
          (case waitForApply b index s of
             None \<Rightarrow> Blocked
           | Some (applyErr, s) \<Rightarrow> Done applyErr [] None s))"

text \<open>\<open>env\<close> is what runs between the check of the role and \<^verbatim>\<open>Start\<close>.\<close>

definition applyCommandInternal ::
    "'s StorageOps \<Rightarrow> ('s Server \<Rightarrow> 's Server) \<Rightarrow> 's Blocking \<Rightarrow> 's Blocking \<Rightarrow> Command \<Rightarrow> 's Server \<Rightarrow> 's Outcome" where
  "applyCommandInternal ops env b1 b2 cmd s =
     (if \<not> snd (RaftState (srv_raft s)) then Done None (leaderAddr s) (Some (RaftErr ErrNotLeader)) s
      else
        let s = env s
        in case Start ops (srv_raft s) (EncodeCommand cmd) of
             None \<Rightarrow> Panics
           | Some ((index, trm, ok), r, _) \<Rightarrow>
               let s = s\<lparr>srv_raft := r\<rparr>
               in if \<not> ok then Done None (leaderAddr s) (Some (RaftErr ErrNotLeader)) s
                  else
                    let s = bl_before b1 s
                    in case WaitForCommit_begin (srv_raft s) index trm of
                         (WaitOn ch, r) \<Rightarrow>
                           let s = bl_env b1 (s\<lparr>srv_raft := r\<rparr>)
                           in (case WaitForCommit_select (bl_ctx b1) (bl_pick b1) ch index (srv_raft s) of
                                 None \<Rightarrow> Blocked
                               | Some (res, r) \<Rightarrow> afterCommit b2 index res (s\<lparr>srv_raft := r\<rparr>))
                       | (res, r) \<Rightarrow> afterCommit b2 index res (s\<lparr>srv_raft := r\<rparr>))"

subsection \<open>HTTP\<close>

record Response =
  rsp_Status :: nat
  rsp_Body :: string
  rsp_Location :: string

definition reply_with :: "nat \<Rightarrow> string \<Rightarrow> Response" where
  "reply_with status body = \<lparr>rsp_Status = status, rsp_Body = body, rsp_Location = []\<rparr>"

text \<open>\<^verbatim>\<open>http.Redirect\<close> percent-encodes the bytes of the target that are not ASCII; its HTML body is left out.\<close>

definition hexEscapeNonASCII :: "string \<Rightarrow> string" where
  "hexEscapeNonASCII s =
     concat (map (\<lambda>c. if byte c < 0x80 then [c]
       else CHR ''%'' # [hex_digit (byte c div 16), hex_digit (byte c mod 16)]) s)"

definition redirectToLeader :: "string \<Rightarrow> string \<Rightarrow> Response" where
  "redirectToLeader uri addr =
     (if addr = [] then reply_with 503 ''leader unknown''
      else \<lparr>rsp_Status = 307, rsp_Body = [], rsp_Location = hexEscapeNonASCII (''http://'' @ addr @ uri)\<rparr>)"

definition redirectIfNotLeader :: "string \<Rightarrow> 's Server \<Rightarrow> Response option" where
  "redirectIfNotLeader uri s =
     (if snd (RaftState (srv_raft s)) then None else Some (redirectToLeader uri (leaderAddr s)))"

definition pingHandler :: Response where
  "pingHandler = reply_with 200 ''pong!''"

definition getHandler :: "string \<Rightarrow> string \<Rightarrow> 's Server \<Rightarrow> Response" where
  "getHandler uri key s =
     (let (v, addr, err) = getValueInternal key s
      in case err of
           Some (RaftErr ErrNotLeader) \<Rightarrow> redirectToLeader uri addr
         | Some (KvErr ErrKeyNotFound) \<Rightarrow> reply_with 404 (''key '' @ key @ '' not found'')
         | Some _ \<Rightarrow> reply_with 500 ''server error''
         | None \<Rightarrow> reply_with 200 v)"

definition writeApplyError :: "srv_error \<Rightarrow> Response" where
  "writeApplyError err =
     (case err of
        KvErr ErrKeyExists \<Rightarrow> reply_with 409 ''key exists''
      | KvErr ErrKeyNotFound \<Rightarrow> reply_with 404 ''key not found''
      | _ \<Rightarrow> reply_with 500 ''apply error'')"

definition commandResponse :: "string \<Rightarrow> srv_error option \<Rightarrow> string \<Rightarrow> srv_error option \<Rightarrow> Response" where
  "commandResponse uri applyErr addr err =
     (case err of
        Some (RaftErr ErrNotLeader) \<Rightarrow> redirectToLeader uri addr
      | Some (RaftErr ErrDeadlineExceeded) \<Rightarrow> reply_with 504 ''commit timeout''
      | Some _ \<Rightarrow> reply_with 500 ''server error''
      | None \<Rightarrow> (case applyErr of Some e \<Rightarrow> writeApplyError e | None \<Rightarrow> reply_with 200 []))"

definition applyCommand ::
    "'s StorageOps \<Rightarrow> ('s Server \<Rightarrow> 's Server) \<Rightarrow> 's Blocking \<Rightarrow> 's Blocking \<Rightarrow> string \<Rightarrow> Command
      \<Rightarrow> 's Server \<Rightarrow> (Response \<times> 's Server) option" where
  "applyCommand ops env b1 b2 uri cmd s =
     (case applyCommandInternal ops env b1 b2 cmd s of
        Done applyErr addr err s \<Rightarrow> Some (commandResponse uri applyErr addr err, s)
      | _ \<Rightarrow> None)"

text \<open>\<open>body\<close> is what \<^verbatim>\<open>readBody\<close> returned, \<^term>\<open>None\<close> an error.\<close>

definition postHandler ::
    "'s StorageOps \<Rightarrow> ('s Server \<Rightarrow> 's Server) \<Rightarrow> 's Blocking \<Rightarrow> 's Blocking \<Rightarrow> string \<Rightarrow> string
      \<Rightarrow> string option \<Rightarrow> 's Server \<Rightarrow> (Response \<times> 's Server) option" where
  "postHandler ops env b1 b2 uri key body s =
     (case body of
        None \<Rightarrow> Some (reply_with 500 ''server error'', s)
      | Some v \<Rightarrow> applyCommand ops env b1 b2 uri \<lparr>Op = OpSet, Key = key, Value = v\<rparr> s)"

definition putHandler ::
    "'s StorageOps \<Rightarrow> ('s Server \<Rightarrow> 's Server) \<Rightarrow> 's Blocking \<Rightarrow> 's Blocking \<Rightarrow> string \<Rightarrow> string
      \<Rightarrow> string option \<Rightarrow> 's Server \<Rightarrow> (Response \<times> 's Server) option" where
  "putHandler ops env b1 b2 uri key body s =
     (case body of
        None \<Rightarrow> Some (reply_with 500 ''server error'', s)
      | Some v \<Rightarrow> applyCommand ops env b1 b2 uri \<lparr>Op = OpInsert, Key = key, Value = v\<rparr> s)"

definition deleteHandler ::
    "'s StorageOps \<Rightarrow> ('s Server \<Rightarrow> 's Server) \<Rightarrow> 's Blocking \<Rightarrow> 's Blocking \<Rightarrow> string \<Rightarrow> string
      \<Rightarrow> 's Server \<Rightarrow> (Response \<times> 's Server) option" where
  "deleteHandler ops env b1 b2 uri key s =
     applyCommand ops env b1 b2 uri \<lparr>Op = OpDelete, Key = key, Value = []\<rparr> s"

definition writeJSON :: "json \<Rightarrow> Response" where
  "writeJSON v = reply_with 200 (Encode v)"

text \<open>The Raft endpoints decode the body, run the node's handler and send its reply.\<close>

definition requestVoteHandler ::
    "'s StorageOps \<Rightarrow> string \<Rightarrow> 's Server \<Rightarrow> Response \<times> 's Server" where
  "requestVoteHandler ops body s =
     (case Option.bind (decode_first body) decode_RequestVoteArgs of
        None \<Rightarrow> (reply_with 400 ''bad request'', s)
      | Some args \<Rightarrow>
          let (reply, r) = HandleRequestVote ops (srv_raft s) args
          in (writeJSON (json_RequestVoteReply reply), s\<lparr>srv_raft := r\<rparr>))"

definition appendEntriesHandler ::
    "'s StorageOps \<Rightarrow> string \<Rightarrow> 's Server \<Rightarrow> (Response \<times> 's Server) option" where
  "appendEntriesHandler ops body s =
     (case Option.bind (decode_first body) decode_AppendEntriesArgs of
        None \<Rightarrow> Some (reply_with 400 ''bad request'', s)
      | Some args \<Rightarrow>
          (case HandleAppendEntries ops (srv_raft s) args of
             None \<Rightarrow> None
           | Some (reply, r) \<Rightarrow> Some (writeJSON (json_AppendEntriesReply reply), s\<lparr>srv_raft := r\<rparr>)))"

definition installSnapshotHandler ::
    "'s StorageOps \<Rightarrow> string \<Rightarrow> 's Server \<Rightarrow> Response \<times> 's Server" where
  "installSnapshotHandler ops body s =
     (case Option.bind (decode_first body) decode_InstallSnapshotArgs of
        None \<Rightarrow> (reply_with 400 ''bad request'', s)
      | Some args \<Rightarrow>
          let (reply, r) = HandleInstallSnapshot ops (srv_raft s) args
          in (writeJSON (json_InstallSnapshotReply reply), s\<lparr>srv_raft := r\<rparr>))"

definition healthHandler :: "'s Server \<Rightarrow> Response" where
  "healthHandler s = writeJSON (json_Status (RaftStatus (srv_raft s)))"

end
