(* ===== verification/Server_RPC.thy ===== *)
theory Server_RPC
  imports Server
begin

text \<open>
  The \<^verbatim>\<open>net/rpc\<close> services of \<^verbatim>\<open>src/server/rpc_handlers.go\<close> with the arguments and replies of
  \<^verbatim>\<open>src/rpcapi/rpcapi.go\<close>, and how a request finds its method.  A method fills a reply that starts with zero
  values and always returns a nil error, so a method is a function to its reply.
\<close>

subsection \<open>Arguments and replies\<close>

definition RPCPath :: string where "RPCPath = ''/rpc''"
definition KVServiceName :: string where "KVServiceName = ''KVService''"
definition RaftServiceName :: string where "RaftServiceName = ''RaftService''"
definition rpc_ErrNotLeader :: string where "rpc_ErrNotLeader = ''not leader''"
definition rpc_ErrLeaderUnknown :: string where "rpc_ErrLeaderUnknown = ''leader unknown''"

datatype PingArgs = PingArgs

record PingReply =
  pr_Message :: string
  pr_Error :: string

record GetArgs =
  ga_Key :: string

record GetReply =
  gr_Value :: string
  gr_Found :: bool
  gr_Error :: string
  gr_LeaderAddr :: string

record SetArgs =
  sa_Key :: string
  sa_Value :: string

record InsertArgs =
  ia_Key :: string
  ia_Value :: string

record DeleteArgs =
  da_Key :: string

record MutateReply =
  mr_Error :: string
  mr_LeaderAddr :: string

datatype HealthArgs = HealthArgs

record HealthStatus =
  hs_ID :: node_id
  hs_Term :: int
  hs_State :: string
  hs_LeaderID :: node_id
  hs_CommitIndex :: int
  hs_LastApplied :: int
  hs_LastLogIndex :: int

record HealthReply =
  hr_Status :: HealthStatus
  hr_Error :: string

subsection \<open>The methods\<close>

text \<open>\<open>errText\<close> gives the text of an error that is not one of the package variables.\<close>

fun srv_error_Error :: "string \<Rightarrow> srv_error \<Rightarrow> string" where
  "srv_error_Error errText (KvErr e) = kv_error_Error errText e"
| "srv_error_Error errText (RaftErr ErrNotLeader) = ''raft: not leader''"
| "srv_error_Error errText (RaftErr ErrSnapshotNotCommitted) = ''raft: snapshot index not committed''"
| "srv_error_Error errText (RaftErr ErrDeadlineExceeded) = ''context deadline exceeded''"
| "srv_error_Error errText (RaftErr ErrCanceled) = ''context canceled''"
| "srv_error_Error errText (RaftErr ErrIDRequired) = ''raft: ID is required''"
| "srv_error_Error errText (RaftErr (ErrStorage e)) = e"
| "srv_error_Error errText (RaftErr ErrDecode) = errText"
| "srv_error_Error errText ErrServerID = ''server: id is required''"
| "srv_error_Error errText ErrServerAddr = ''server: addr is required''"

definition Ping :: "PingArgs \<Rightarrow> PingReply" where
  "Ping args = \<lparr>pr_Message = ''pong!'', pr_Error = []\<rparr>"

text \<open>\<^verbatim>\<open>populateLeaderError\<close>: the error and the leader's address.\<close>

definition populateLeaderError :: "string \<Rightarrow> string \<times> string" where
  "populateLeaderError addr =
     (if addr = [] then (rpc_ErrLeaderUnknown, []) else (rpc_ErrNotLeader, addr))"

definition rpcGet :: "string \<Rightarrow> GetArgs \<Rightarrow> 's Server \<Rightarrow> GetReply" where
  "rpcGet errText args s =
     (let (v, addr, err) = getValueInternal (ga_Key args) s
      in case err of
           Some e \<Rightarrow>
             if e = RaftErr ErrNotLeader
             then let (m, l) = populateLeaderError addr
                  in \<lparr>gr_Value = [], gr_Found = False, gr_Error = m, gr_LeaderAddr = l\<rparr>
             else \<lparr>gr_Value = [], gr_Found = False, gr_Error = srv_error_Error errText e, gr_LeaderAddr = []\<rparr>
         | None \<Rightarrow> \<lparr>gr_Value = v, gr_Found = True, gr_Error = [], gr_LeaderAddr = []\<rparr>)"

definition mutateReply :: "string \<Rightarrow> srv_error option \<Rightarrow> string \<Rightarrow> srv_error option \<Rightarrow> MutateReply" where
  "mutateReply errText applyErr addr err =
     (case err of
        Some e \<Rightarrow>
          if e = RaftErr ErrNotLeader
          then let (m, l) = populateLeaderError addr in \<lparr>mr_Error = m, mr_LeaderAddr = l\<rparr>
          else \<lparr>mr_Error = srv_error_Error errText e, mr_LeaderAddr = []\<rparr>
      | None \<Rightarrow>
          (case applyErr of
             Some e \<Rightarrow> \<lparr>mr_Error = srv_error_Error errText e, mr_LeaderAddr = []\<rparr>
           | None \<Rightarrow> \<lparr>mr_Error = [], mr_LeaderAddr = []\<rparr>))"

definition rpcMutate ::
    "'s StorageOps \<Rightarrow> ('s Server \<Rightarrow> 's Server) \<Rightarrow> 's Blocking \<Rightarrow> 's Blocking \<Rightarrow> string \<Rightarrow> Command
      \<Rightarrow> 's Server \<Rightarrow> (MutateReply \<times> 's Server) option" where
  "rpcMutate ops env b1 b2 errText cmd s =
     (case applyCommandInternal ops env b1 b2 cmd s of
        Done applyErr addr err s \<Rightarrow> Some (mutateReply errText applyErr addr err, s)
      | _ \<Rightarrow> None)"

definition rpcSet ::
    "'s StorageOps \<Rightarrow> ('s Server \<Rightarrow> 's Server) \<Rightarrow> 's Blocking \<Rightarrow> 's Blocking \<Rightarrow> string \<Rightarrow> SetArgs
      \<Rightarrow> 's Server \<Rightarrow> (MutateReply \<times> 's Server) option" where
  "rpcSet ops env b1 b2 errText args s =
     rpcMutate ops env b1 b2 errText \<lparr>Op = OpSet, Key = sa_Key args, Value = sa_Value args\<rparr> s"

definition rpcInsert ::
    "'s StorageOps \<Rightarrow> ('s Server \<Rightarrow> 's Server) \<Rightarrow> 's Blocking \<Rightarrow> 's Blocking \<Rightarrow> string \<Rightarrow> InsertArgs
      \<Rightarrow> 's Server \<Rightarrow> (MutateReply \<times> 's Server) option" where
  "rpcInsert ops env b1 b2 errText args s =
     rpcMutate ops env b1 b2 errText \<lparr>Op = OpInsert, Key = ia_Key args, Value = ia_Value args\<rparr> s"

definition rpcDelete ::
    "'s StorageOps \<Rightarrow> ('s Server \<Rightarrow> 's Server) \<Rightarrow> 's Blocking \<Rightarrow> 's Blocking \<Rightarrow> string \<Rightarrow> DeleteArgs
      \<Rightarrow> 's Server \<Rightarrow> (MutateReply \<times> 's Server) option" where
  "rpcDelete ops env b1 b2 errText args s =
     rpcMutate ops env b1 b2 errText \<lparr>Op = OpDelete, Key = da_Key args, Value = []\<rparr> s"

definition rpcHealth :: "HealthArgs \<Rightarrow> 's Server \<Rightarrow> HealthReply" where
  "rpcHealth args s =
     (let status = RaftStatus (srv_raft s)
      in \<lparr>hr_Status = \<lparr>hs_ID = st_ID status, hs_Term = st_Term status, hs_State = st_State status,
            hs_LeaderID = st_LeaderID status, hs_CommitIndex = st_CommitIndex status,
            hs_LastApplied = st_LastApplied status, hs_LastLogIndex = st_LastLogIndex status\<rparr>,
          hr_Error = []\<rparr>)"

definition rpcRequestVote ::
    "'s StorageOps \<Rightarrow> RequestVoteArgs \<Rightarrow> 's Server \<Rightarrow> RequestVoteReply \<times> 's Server" where
  "rpcRequestVote ops args s =
     (let (reply, r) = HandleRequestVote ops (srv_raft s) args in (reply, s\<lparr>srv_raft := r\<rparr>))"

definition rpcAppendEntries ::
    "'s StorageOps \<Rightarrow> AppendEntriesArgs \<Rightarrow> 's Server \<Rightarrow> (AppendEntriesReply \<times> 's Server) option" where
  "rpcAppendEntries ops args s =
     map_option (\<lambda>(reply, r). (reply, s\<lparr>srv_raft := r\<rparr>)) (HandleAppendEntries ops (srv_raft s) args)"

definition rpcInstallSnapshot ::
    "'s StorageOps \<Rightarrow> InstallSnapshotArgs \<Rightarrow> 's Server \<Rightarrow> InstallSnapshotReply \<times> 's Server" where
  "rpcInstallSnapshot ops args s =
     (let (reply, r) = HandleInstallSnapshot ops (srv_raft s) args in (reply, s\<lparr>srv_raft := r\<rparr>))"

subsection \<open>Registration and dispatch\<close>

text \<open>The values that go through \<^verbatim>\<open>net/rpc\<close> as \<^verbatim>\<open>interface{}\<close>.\<close>

datatype RpcArgs =
    APing PingArgs
  | AGet GetArgs
  | ASet SetArgs
  | AInsert InsertArgs
  | ADelete DeleteArgs
  | AHealth HealthArgs
  | ARequestVote RequestVoteArgs
  | AAppendEntries AppendEntriesArgs
  | AInstallSnapshot InstallSnapshotArgs

datatype RpcReply =
    RPing PingReply
  | RGet GetReply
  | RMutate MutateReply
  | RHealth HealthReply
  | RRequestVote RequestVoteReply
  | RAppendEntries AppendEntriesReply
  | RInstallSnapshot InstallSnapshotReply

text \<open>
  The two receivers.  \<^verbatim>\<open>net/rpc\<close> offers the exported methods of a receiver, so not \<^verbatim>\<open>populateLeaderError\<close>,
  and refuses a second service of the same name.
\<close>

datatype Receiver = kvRPC | raftRPC

fun exported :: "Receiver \<Rightarrow> string list" where
  "exported kvRPC = [''Ping'', ''Get'', ''Set'', ''Insert'', ''Delete'', ''Health'']"
| "exported raftRPC = [''RequestVote'', ''AppendEntries'', ''InstallSnapshot'']"

type_synonym services = "(string \<times> Receiver) list"

definition RegisterName :: "string \<Rightarrow> Receiver \<Rightarrow> services \<Rightarrow> string + services" where
  "RegisterName name rcvr svcs =
     (if name \<in> fst ` set svcs then Inl (''rpc: service already defined: '' @ name) else Inr (svcs @ [(name, rcvr)]))"

definition registerRPC :: "string + services" where
  "registerRPC =
     (case RegisterName KVServiceName kvRPC [] of
        Inl e \<Rightarrow> Inl e
      | Inr svcs \<Rightarrow> RegisterName RaftServiceName raftRPC svcs)"

text \<open>
  A request names its method as \<^verbatim>\<open>Service.Method\<close>, split at the last dot.  A value goes over the wire with
  \<^verbatim>\<open>encoding/gob\<close>, which gives the receiver the same struct; \<open>takenBy\<close> is the method whose argument has the type of
  a value, and a value of another type counts as one that cannot be decoded.  \<^term>\<open>None\<close> is a method that
  does not return.
\<close>

definition split_method :: "string \<Rightarrow> (string \<times> string) option" where
  "split_method serviceMethod =
     (let rest = dropWhile (\<lambda>c. c \<noteq> CHR ''.'') (rev serviceMethod)
      in if rest = [] then None
         else Some (rev (tl rest), rev (takeWhile (\<lambda>c. c \<noteq> CHR ''.'') (rev serviceMethod))))"

fun takenBy :: "RpcArgs \<Rightarrow> string" where
  "takenBy (APing a) = ''Ping''"
| "takenBy (AGet a) = ''Get''"
| "takenBy (ASet a) = ''Set''"
| "takenBy (AInsert a) = ''Insert''"
| "takenBy (ADelete a) = ''Delete''"
| "takenBy (AHealth a) = ''Health''"
| "takenBy (ARequestVote a) = ''RequestVote''"
| "takenBy (AAppendEntries a) = ''AppendEntries''"
| "takenBy (AInstallSnapshot a) = ''InstallSnapshot''"

fun invokeMethod ::
    "'s StorageOps \<Rightarrow> ('s Server \<Rightarrow> 's Server) \<Rightarrow> 's Blocking \<Rightarrow> 's Blocking \<Rightarrow> string \<Rightarrow> RpcArgs
      \<Rightarrow> 's Server \<Rightarrow> (RpcReply \<times> 's Server) option" where
  "invokeMethod ops env b1 b2 errText (APing a) s = Some (RPing (Ping a), s)"
| "invokeMethod ops env b1 b2 errText (AGet a) s = Some (RGet (rpcGet errText a s), s)"
| "invokeMethod ops env b1 b2 errText (ASet a) s = map_option (map_prod RMutate id) (rpcSet ops env b1 b2 errText a s)"
| "invokeMethod ops env b1 b2 errText (AInsert a) s =
     map_option (map_prod RMutate id) (rpcInsert ops env b1 b2 errText a s)"
| "invokeMethod ops env b1 b2 errText (ADelete a) s =
     map_option (map_prod RMutate id) (rpcDelete ops env b1 b2 errText a s)"
| "invokeMethod ops env b1 b2 errText (AHealth a) s = Some (RHealth (rpcHealth a s), s)"
| "invokeMethod ops env b1 b2 errText (ARequestVote a) s = Some (map_prod RRequestVote id (rpcRequestVote ops a s))"
| "invokeMethod ops env b1 b2 errText (AAppendEntries a) s =
     map_option (map_prod RAppendEntries id) (rpcAppendEntries ops a s)"
| "invokeMethod ops env b1 b2 errText (AInstallSnapshot a) s =
     Some (map_prod RInstallSnapshot id (rpcInstallSnapshot ops a s))"

definition dispatch ::
    "'s StorageOps \<Rightarrow> ('s Server \<Rightarrow> 's Server) \<Rightarrow> 's Blocking \<Rightarrow> 's Blocking \<Rightarrow> string \<Rightarrow> services \<Rightarrow> string \<Rightarrow> RpcArgs
      \<Rightarrow> 's Server \<Rightarrow> ((string + RpcReply) \<times> 's Server) option" where
  "dispatch ops env b1 b2 errText svcs serviceMethod args s =
     (case split_method serviceMethod of
        None \<Rightarrow> Some (Inl (''rpc: service/method request ill-formed: '' @ serviceMethod), s)
      | Some (service, meth) \<Rightarrow>
          (case map_of svcs service of
             None \<Rightarrow> Some (Inl (''rpc: can'' @ [CHR 0x27] @ ''t find service '' @ serviceMethod), s)
           | Some rcvr \<Rightarrow>
               if meth \<notin> set (exported rcvr)
               then Some (Inl (''rpc: can'' @ [CHR 0x27] @ ''t find method '' @ serviceMethod), s)
               else if takenBy args \<noteq> meth then Some (Inl ''gob: type mismatch'', s)
               else map_option (map_prod Inr id) (invokeMethod ops env b1 b2 errText args s)))"

end
