(* ===== verification/Client.thy ===== *)
theory Client
  imports Server_RPC
begin

text \<open>
  The clients of \<^verbatim>\<open>src/client\<close>: the RPC client, the HTTP client and the paths they build.  What a call
  does to the servers is a function of the world \<open>'w\<close> they run in, an argument of the client operations;
  an error is its text.
\<close>

definition defaultServerAddr :: string where
  "defaultServerAddr = ''localhost:15213''"

definition maxRedirects :: nat where
  "maxRedirects = 3"

definition tooManyRedirects :: string where
  "tooManyRedirects = ''too many redirects''"

subsection \<open>Paths\<close>

definition PathWithKey :: "string \<Rightarrow> string \<Rightarrow> string" where
  "PathWithKey url key = url @ ''/key/'' @ key"

definition PathWithHttp :: "string \<Rightarrow> string" where
  "PathWithHttp url = ''http://'' @ url"

definition PathWithPing :: "string \<Rightarrow> string" where
  "PathWithPing url = url @ ''/ping''"

subsection \<open>The RPC client\<close>

record RPCClient =
  rc_addr :: string

definition NewRPCClient :: "string \<Rightarrow> RPCClient" where
  "NewRPCClient addr = \<lparr>rc_addr = (if addr = [] then defaultServerAddr else addr)\<rparr>"

text \<open>A call: an address, the name of a method, its arguments; \<open>'r\<close> is the type of the reply the caller decodes.\<close>

type_synonym ('r, 'w) rpc = "string \<Rightarrow> string \<Rightarrow> RpcArgs \<Rightarrow> 'w \<Rightarrow> (string + 'r) \<times> 'w"

text \<open>The loop of \<^verbatim>\<open>Ping\<close> always returns in its first round.\<close>

definition RPCClient_Ping :: "(PingReply, 'w) rpc \<Rightarrow> RPCClient \<Rightarrow> 'w \<Rightarrow> (string + string) \<times> 'w" where
  "RPCClient_Ping call c w =
     (case call (rc_addr c) (KVServiceName @ ''.Ping'') (APing PingArgs) w of
        (Inl e, w) \<Rightarrow> (Inl e, w)
      | (Inr reply, w) \<Rightarrow>
          if pr_Error reply \<noteq> [] then (Inl (pr_Error reply), w) else (Inr (pr_Message reply), w))"

fun getLoop :: "nat \<Rightarrow> (GetReply, 'w) rpc \<Rightarrow> string \<Rightarrow> string \<Rightarrow> 'w \<Rightarrow> (string + string) \<times> 'w" where
  "getLoop 0 call addr key w = (Inl tooManyRedirects, w)"
| "getLoop (Suc n) call addr key w =
     (case call addr (KVServiceName @ ''.Get'') (AGet \<lparr>ga_Key = key\<rparr>) w of
        (Inl e, w) \<Rightarrow> (Inl e, w)
      | (Inr reply, w) \<Rightarrow>
          if gr_Error reply = rpc_ErrNotLeader \<and> gr_LeaderAddr reply \<noteq> []
          then getLoop n call (gr_LeaderAddr reply) key w
          else if gr_Error reply \<noteq> [] then (Inl (gr_Error reply), w)
          else if \<not> gr_Found reply then (Inl ''key not found'', w)
          else (Inr (gr_Value reply), w))"

definition RPCClient_Get :: "(GetReply, 'w) rpc \<Rightarrow> RPCClient \<Rightarrow> string \<Rightarrow> 'w \<Rightarrow> (string + string) \<times> 'w" where
  "RPCClient_Get call c key w = getLoop maxRedirects call (rc_addr c) key w"

text \<open>A mutation returns its error, if any.\<close>

fun mutateLoop :: "nat \<Rightarrow> (MutateReply, 'w) rpc \<Rightarrow> string \<Rightarrow> string \<Rightarrow> RpcArgs \<Rightarrow> 'w \<Rightarrow> string option \<times> 'w" where
  "mutateLoop 0 call addr meth args w = (Some tooManyRedirects, w)"
| "mutateLoop (Suc n) call addr meth args w =
     (case call addr meth args w of
        (Inl e, w) \<Rightarrow> (Some e, w)
      | (Inr reply, w) \<Rightarrow>
          if mr_Error reply = rpc_ErrNotLeader \<and> mr_LeaderAddr reply \<noteq> []
          then mutateLoop n call (mr_LeaderAddr reply) meth args w
          else if mr_Error reply \<noteq> [] then (Some (mr_Error reply), w)
          else (None, w))"

definition doMutate :: "(MutateReply, 'w) rpc \<Rightarrow> RPCClient \<Rightarrow> string \<Rightarrow> RpcArgs \<Rightarrow> 'w \<Rightarrow> string option \<times> 'w" where
  "doMutate call c meth args w = mutateLoop maxRedirects call (rc_addr c) meth args w"

definition RPCClient_Set :: "(MutateReply, 'w) rpc \<Rightarrow> RPCClient \<Rightarrow> string \<Rightarrow> string \<Rightarrow> 'w \<Rightarrow> string option \<times> 'w" where
  "RPCClient_Set call c key v w = doMutate call c (KVServiceName @ ''.Set'') (ASet \<lparr>sa_Key = key, sa_Value = v\<rparr>) w"

definition RPCClient_Insert :: "(MutateReply, 'w) rpc \<Rightarrow> RPCClient \<Rightarrow> string \<Rightarrow> string \<Rightarrow> 'w \<Rightarrow> string option \<times> 'w" where
  "RPCClient_Insert call c key v w =
     doMutate call c (KVServiceName @ ''.Insert'') (AInsert \<lparr>ia_Key = key, ia_Value = v\<rparr>) w"

definition RPCClient_Delete :: "(MutateReply, 'w) rpc \<Rightarrow> RPCClient \<Rightarrow> string \<Rightarrow> 'w \<Rightarrow> string option \<times> 'w" where
  "RPCClient_Delete call c key w = doMutate call c (KVServiceName @ ''.Delete'') (ADelete \<lparr>da_Key = key\<rparr>) w"

subsection \<open>The HTTP client\<close>

record HTTPClient =
  hc_addr :: string

definition NewHTTPClient :: "string \<Rightarrow> HTTPClient" where
  "NewHTTPClient addr = \<lparr>hc_addr = (if addr = [] then defaultServerAddr else addr)\<rparr>"

text \<open>
  One request through the \<^verbatim>\<open>http.Client\<close>: building it, sending it and reading the body may each fail.
\<close>

type_synonym 'w http_do = "string \<Rightarrow> string \<Rightarrow> string \<Rightarrow> 'w \<Rightarrow> (string + Response) \<times> 'w"

text \<open>The body, the status and the error of \<^verbatim>\<open>doRequest\<close>.\<close>

fun requestLoop :: "nat \<Rightarrow> 'w http_do \<Rightarrow> string \<Rightarrow> string \<Rightarrow> string \<Rightarrow> 'w \<Rightarrow> (string \<times> nat \<times> string option) \<times> 'w" where
  "requestLoop 0 send meth url body w = (([], 0, Some tooManyRedirects), w)"
| "requestLoop (Suc n) send meth url body w =
     (case send meth url body w of
        (Inl e, w) \<Rightarrow> (([], 0, Some e), w)
      | (Inr res, w) \<Rightarrow>
          if rsp_Status res = 307 \<or> rsp_Status res = 308
          then if rsp_Location res = []
               then ((rsp_Body res, rsp_Status res, Some ''redirect without location''), w)
               else requestLoop n send meth (rsp_Location res) body w
          else ((rsp_Body res, rsp_Status res, None), w))"

definition doRequest :: "'w http_do \<Rightarrow> string \<Rightarrow> string \<Rightarrow> string \<Rightarrow> 'w \<Rightarrow> (string \<times> nat \<times> string option) \<times> 'w" where
  "doRequest send meth url body w = requestLoop maxRedirects send meth url body w"

text \<open>A read returns the body of a 200, everything else is an error; a mutation only reports the error.\<close>

definition httpRead :: "'w http_do \<Rightarrow> string \<Rightarrow> 'w \<Rightarrow> (string + string) \<times> 'w" where
  "httpRead send url w =
     (case doRequest send ''GET'' url [] w of
        ((body, status, Some e), w) \<Rightarrow> (Inl e, w)
      | ((body, status, None), w) \<Rightarrow> if status \<noteq> 200 then (Inl body, w) else (Inr body, w))"

definition httpMutate :: "'w http_do \<Rightarrow> string \<Rightarrow> string \<Rightarrow> string \<Rightarrow> 'w \<Rightarrow> string option \<times> 'w" where
  "httpMutate send meth url body w =
     (case doRequest send meth url body w of
        ((body, status, Some e), w) \<Rightarrow> (Some e, w)
      | ((body, status, None), w) \<Rightarrow> if status \<noteq> 200 then (Some body, w) else (None, w))"

definition HTTPClient_Ping :: "'w http_do \<Rightarrow> HTTPClient \<Rightarrow> 'w \<Rightarrow> (string + string) \<times> 'w" where
  "HTTPClient_Ping send c w = httpRead send (PathWithPing (PathWithHttp (hc_addr c))) w"

definition HTTPClient_Get :: "'w http_do \<Rightarrow> HTTPClient \<Rightarrow> string \<Rightarrow> 'w \<Rightarrow> (string + string) \<times> 'w" where
  "HTTPClient_Get send c key w = httpRead send (PathWithKey (PathWithHttp (hc_addr c)) key) w"

definition HTTPClient_Set :: "'w http_do \<Rightarrow> HTTPClient \<Rightarrow> string \<Rightarrow> string \<Rightarrow> 'w \<Rightarrow> string option \<times> 'w" where
  "HTTPClient_Set send c key v w = httpMutate send ''POST'' (PathWithKey (PathWithHttp (hc_addr c)) key) v w"

definition HTTPClient_Insert :: "'w http_do \<Rightarrow> HTTPClient \<Rightarrow> string \<Rightarrow> string \<Rightarrow> 'w \<Rightarrow> string option \<times> 'w" where
  "HTTPClient_Insert send c key v w = httpMutate send ''PUT'' (PathWithKey (PathWithHttp (hc_addr c)) key) v w"

definition HTTPClient_Delete :: "'w http_do \<Rightarrow> HTTPClient \<Rightarrow> string \<Rightarrow> 'w \<Rightarrow> string option \<times> 'w" where
  "HTTPClient_Delete send c key w = httpMutate send ''DELETE'' (PathWithKey (PathWithHttp (hc_addr c)) key) [] w"

end
