(* ===== verification/Service.thy ===== *)
theory Service
  imports Client Raft_Properties
begin

text \<open>
  The service as a whole: what the apply loop does to the store and to the waiting requests, how a
  request is served by a leader and redirected by the others, how a server comes back from its
  snapshot, and what a client gets.
\<close>

subsection \<open>The apply loop\<close>

text \<open>The effect of a delivered message on the contents of the store.\<close>

definition spec_msg :: "ApplyMsg \<Rightarrow> (string \<rightharpoonup> string) \<Rightarrow> (string \<rightharpoonup> string)" where
  "spec_msg msg m =
     (case DecodeCommand (am_Command msg) of Inl _ \<Rightarrow> m | Inr cmd \<Rightarrow> snd (kv_spec cmd m))"

definition spec_result :: "ApplyMsg \<Rightarrow> (string \<rightharpoonup> string) \<Rightarrow> kv_error option" where
  "spec_result msg m =
     (case DecodeCommand (am_Command msg) of Inl e \<Rightarrow> Some e | Inr cmd \<Rightarrow> fst (kv_spec cmd m))"

lemma applyMsgCommand_spec:
  assumes "store_data st \<noteq> None"
  obtains st' where "applyMsgCommand (am_Command msg) st = Some (spec_result msg (lookup st), st')"
    and "lookup st' = spec_msg msg (lookup st)" and "store_data st' \<noteq> None"
proof (cases "DecodeCommand (am_Command msg)")
  case (Inl e)
  with assms that show ?thesis by (simp add: applyMsgCommand_def spec_msg_def spec_result_def)
next
  case (Inr cmd)
  with assms that show ?thesis
    by (cases rule: Apply_refines [of st cmd]) (simp_all add: applyMsgCommand_def spec_msg_def spec_result_def)
qed

lemma deliverResult_store [simp]:
  "srv_store (deliverResult i e s) = srv_store s" "srv_raft (deliverResult i e s) = srv_raft s"
  "snapshotThreshold (deliverResult i e s) = snapshotThreshold s"
  "srv_id (deliverResult i e s) = srv_id s" "srv_peers (deliverResult i e s) = srv_peers s"
  by (auto simp: deliverResult_def send_result_def split: option.split)

lemma maybeSnapshot_frame [simp]:
  "srv_store (maybeSnapshot ops i s) = srv_store s"
  "applyWaiters (maybeSnapshot ops i s) = applyWaiters s"
  "applyResults (maybeSnapshot ops i s) = applyResults s"
  "waiterVals (maybeSnapshot ops i s) = waiterVals s"
  "waiterCount (maybeSnapshot ops i s) = waiterCount s"
  by (simp_all add: maybeSnapshot_def)

lemma applyLoop_msg_command:
  assumes "\<not> am_Snapshot msg" and "store_data (srv_store s) \<noteq> None"
  obtains st where "applyLoop_msg ops msg s = Some (maybeSnapshot ops (am_Index msg)
      (deliverResult (am_Index msg) (spec_result msg (lookup (srv_store s))) (s\<lparr>srv_store := st\<rparr>)))"
    and "lookup st = spec_msg msg (lookup (srv_store s))" and "store_data st \<noteq> None"
  by (rule applyMsgCommand_spec [OF assms(2), of msg])
    (use assms(1) that in \<open>auto simp: applyLoop_msg_def\<close>)

lemma applyLoop_contents:
  assumes "list_all (\<lambda>msg. \<not> am_Snapshot msg) ms" and "store_data (srv_store s) \<noteq> None"
  shows "\<exists>s'. applyLoop ops ms s = Some s' \<and> store_data (srv_store s') \<noteq> None \<and>
     lookup (srv_store s') = fold spec_msg ms (lookup (srv_store s))"
  using assms
proof (induction ms arbitrary: s)
  case (Cons msg ms)
  then have cmd: "\<not> am_Snapshot msg" by simp
  obtain s1 where "applyLoop_msg ops msg s = Some s1" and "store_data (srv_store s1) \<noteq> None"
    and "lookup (srv_store s1) = spec_msg msg (lookup (srv_store s))"
    by (rule applyLoop_msg_command [OF cmd Cons.prems(2), of ops]) simp
  with Cons.IH [of s1] Cons.prems(1) show ?case by simp
qed simp

text \<open>
  Replicas agree: the contents of the store after a sequence of delivered commands are a function
  of the contents before and of the commands alone.  So two servers that start with the same contents
  and receive the same commands end with the same contents, whatever their roles, waiting requests,
  snapshot thresholds and Raft states; and the loop does not panic.
\<close>

lemma replicas_agree:
  assumes "list_all (\<lambda>msg. \<not> am_Snapshot msg) ms"
    and "store_data (srv_store s) \<noteq> None" and "store_data (srv_store t) \<noteq> None"
    and "lookup (srv_store s) = lookup (srv_store t)"
  shows "\<exists>s' t'. applyLoop ops ms s = Some s' \<and> applyLoop ops' ms t = Some t' \<and>
     lookup (srv_store s') = lookup (srv_store t') \<and>
     lookup (srv_store s') = fold spec_msg ms (lookup (srv_store s))"
  using applyLoop_contents [OF assms(1,2), of ops] applyLoop_contents [OF assms(1,3), of ops'] assms(4)
  by metis

definition demo_server :: "mraft \<Rightarrow> MemoryStorage Server" where
  "demo_server r = \<lparr>srv_id = ''n1'', srv_addr = ''h1:1'', srv_peers = [(''n1'', ''h1:1''), (''n2'', ''h2:1'')],
     srv_store = NewStore, srv_raft = r, snapshotThreshold = 100, srv_debug = False, srv_verbose = False,
     applyWaiters = [], applyResults = [], waiterCount = 0, waiterVals = []\<rparr>"

definition set_k :: Command where
  "set_k = \<lparr>Op = ''set'', Key = ''k'', Value = ''v''\<rparr>"

lemma set_k_ok: "command_ok set_k"
  by (simp add: set_k_def command_ok_def valid_utf8.simps)

lemma decode_ok: "command_ok cmd \<Longrightarrow> DecodeCommand (EncodeCommand cmd) = Inr cmd"
  by (simp add: DecodeCommand_EncodeCommand command_ok_def sanitize_valid)

text \<open>
  C24.  A result reaches the request that waits for it: when the loop applies the command at an index
  that a request waits for, the result of applying it to the contents of the store is sent on the
  channel of that request and on no other, the waiter is removed, and all other waiters stay.  If
  nobody waits, nothing is sent, a leader keeps the result for the request that is about to ask and any
  other server drops it.
\<close>

theorem result_reaches_waiter:
  assumes "\<not> am_Snapshot msg" and "store_data (srv_store s) \<noteq> None"
    and "applyLoop_msg ops msg s = Some s'"
  shows "(\<forall>ch. map_of (applyWaiters s) (am_Index msg) = Some ch \<longrightarrow>
       waiterVals s' = (ch, spec_result msg (lookup (srv_store s))) # waiterVals s \<and>
       applyResults s' = applyResults s) \<and>
     (map_of (applyWaiters s) (am_Index msg) = None \<longrightarrow> waiterVals s' = waiterVals s \<and>
       map_of (applyResults s') (am_Index msg) =
         (if state (srv_raft s) = Leader then Some (spec_result msg (lookup (srv_store s)))
          else map_of (applyResults s) (am_Index msg))) \<and>
     (\<forall>i. map_of (applyWaiters s') i = (if i = am_Index msg then None else map_of (applyWaiters s) i))"
proof (rule applyLoop_msg_command [OF assms(1,2), of ops])
  fix st
  assume "applyLoop_msg ops msg s = Some (maybeSnapshot ops (am_Index msg)
      (deliverResult (am_Index msg) (spec_result msg (lookup (srv_store s))) (s\<lparr>srv_store := st\<rparr>)))"
  with assms(3) have "s' = maybeSnapshot ops (am_Index msg)
      (deliverResult (am_Index msg) (spec_result msg (lookup (srv_store s))) (s\<lparr>srv_store := st\<rparr>))"
    by simp
  then show ?thesis
    by (simp add: deliverResult_def send_result_def RaftState_def split: option.split)
qed

theorem result_reaches_waiter_witness:
  "\<exists>s'. applyLoop_msg memory_ops (command_msg 1 (EncodeCommand set_k))
       ((demo_server leader_one)\<lparr>applyWaiters := [(1, 7), (2, 8)]\<rparr>) = Some s' \<and> waiterVals s' = [(7, None)]"
proof -
  let ?s = "(demo_server leader_one)\<lparr>applyWaiters := [(1, 7), (2, 8)]\<rparr>"
  let ?m = "command_msg 1 (EncodeCommand set_k)"
  have m: "\<not> am_Snapshot ?m" "am_Index ?m = 1" "am_Command ?m = EncodeCommand set_k"
    by (simp_all add: command_msg_def)
  have st: "store_data (srv_store ?s) \<noteq> None" by (simp add: demo_server_def NewStore_def)
  have "spec_result ?m (lookup (srv_store ?s)) = None"
    by (simp add: spec_result_def m decode_ok [OF set_k_ok] kv_spec_def) (simp add: set_k_def)
  moreover obtain st where "applyLoop_msg memory_ops ?m ?s = Some st"
    by (rule applyLoop_msg_command [OF m(1) st, of memory_ops]) blast
  moreover have "map_of (applyWaiters ?s) (am_Index ?m) = Some 7" by (simp add: m)
  moreover have "waiterVals ?s = []" by (simp add: demo_server_def)
  ultimately show ?thesis
    using result_reaches_waiter [OF m(1) st, of memory_ops st] by auto
qed

subsection \<open>Serving requests\<close>

lemma hexEscapeNonASCII_ascii: "\<forall>c \<in> set s. byte c < 0x80 \<Longrightarrow> hexEscapeNonASCII s = s"
  by (induction s) (simp_all add: hexEscapeNonASCII_def)

text \<open>
  C27.  A server that is not leader never touches its state for a client, and serves no data.  If it
  knows a leader that is another node with an address, reads and mutations alike are answered over HTTP
  with status 307 and the same request target at that address (any byte of it that is not ASCII
  percent-encoded), and over RPC with the error \<^verbatim>\<open>not leader\<close> and that address.  Otherwise they are
  answered with status 503, and over RPC with the error \<^verbatim>\<open>leader unknown\<close>.
\<close>

theorem follower_redirects:
  assumes "state (srv_raft s) \<noteq> Leader"
  shows "\<exists>http mut get.
     applyCommand ops env b1 b2 uri cmd s = Some (http, s) \<and> getHandler uri key s = http \<and>
     rpcMutate ops env b1 b2 errText cmd s = Some (mut, s) \<and> rpcGet errText \<lparr>ga_Key = key\<rparr> s = get \<and>
     gr_Value get = [] \<and> \<not> gr_Found get \<and>
     (case map_of (srv_peers s) (leaderID (srv_raft s)) of
        Some (c # addr) \<Rightarrow>
          if leaderID (srv_raft s) \<noteq> [] \<and> leaderID (srv_raft s) \<noteq> srv_id s
          then rsp_Status http = 307 \<and> rsp_Location http = hexEscapeNonASCII (''http://'' @ c # addr @ uri) \<and>
            ((\<forall>x \<in> set (c # addr @ uri). byte x < 0x80) \<longrightarrow> rsp_Location http = ''http://'' @ c # addr @ uri) \<and>
            mr_Error mut = ''not leader'' \<and> mr_LeaderAddr mut = c # addr \<and>
            gr_Error get = ''not leader'' \<and> gr_LeaderAddr get = c # addr
          else http = \<lparr>rsp_Status = 503, rsp_Body = ''leader unknown'', rsp_Location = []\<rparr> \<and>
            mut = \<lparr>mr_Error = ''leader unknown'', mr_LeaderAddr = []\<rparr> \<and>
            gr_Error get = ''leader unknown'' \<and> gr_LeaderAddr get = []
      | _ \<Rightarrow> http = \<lparr>rsp_Status = 503, rsp_Body = ''leader unknown'', rsp_Location = []\<rparr> \<and>
            mut = \<lparr>mr_Error = ''leader unknown'', mr_LeaderAddr = []\<rparr> \<and>
            gr_Error get = ''leader unknown'' \<and> gr_LeaderAddr get = [])"
proof -
  let ?l = "leaderID (srv_raft s)" and ?addr = "leaderAddr s"
  let ?http = "redirectToLeader uri ?addr"
  let ?mut = "let (m, l) = populateLeaderError ?addr in \<lparr>mr_Error = m, mr_LeaderAddr = l\<rparr>"
  let ?get = "let (m, l) = populateLeaderError ?addr in
      \<lparr>gr_Value = [], gr_Found = False, gr_Error = m, gr_LeaderAddr = l\<rparr>"
  have calls: "applyCommand ops env b1 b2 uri cmd s = Some (?http, s)" "getHandler uri key s = ?http"
    "rpcMutate ops env b1 b2 errText cmd s = Some (?mut, s)" "rpcGet errText \<lparr>ga_Key = key\<rparr> s = ?get"
    using assms by (simp_all add: applyCommand_def applyCommandInternal_def RaftState_def commandResponse_def
        getHandler_def getValueInternal_def rpcMutate_def mutateReply_def rpcGet_def)
  have addr: "?addr = (case map_of (srv_peers s) ?l of
      Some (c # a) \<Rightarrow> if ?l \<noteq> [] \<and> ?l \<noteq> srv_id s then c # a else [] | _ \<Rightarrow> [])"
    by (auto simp: leaderAddr_def LeaderID_def Let_def split: option.splits list.splits)
  have ascii: "hexEscapeNonASCII (''http://'' @ t) = ''http://'' @ t" if "\<forall>x \<in> set t. byte x < 0x80" for t
    using that by (intro hexEscapeNonASCII_ascii) auto
  note defs = redirectToLeader_def populateLeaderError_def reply_with_def rpc_ErrLeaderUnknown_def rpc_ErrNotLeader_def
  show ?thesis
  proof (cases ?addr)
    case Nil
    then show ?thesis
      by (intro exI [of _ ?http] exI [of _ ?mut] exI [of _ ?get] conjI calls)
        (simp_all only: defs Nil if_True prod.case Let_def GetReply.simps, use addr [unfolded Nil] in \<open>auto split: option.splits list.splits if_splits\<close>)
  next
    case (Cons c a)
    with addr have l: "map_of (srv_peers s) ?l = Some (c # a)" "?l \<noteq> []" "?l \<noteq> srv_id s"
      by (auto split: option.splits list.splits if_splits)
    show ?thesis
      by (intro exI [of _ ?http] exI [of _ ?mut] exI [of _ ?get] conjI calls)
        (simp_all add: defs Cons l ascii [of "c # a @ uri", simplified])
  qed
qed

theorem follower_redirects_witness:
  "getHandler ''/key/k'' ''k'' (demo_server (fresh ''n1'')) = reply_with 503 ''leader unknown'' \<and>
   rsp_Location (getHandler ''/key/k'' ''k'' (demo_server ((fresh ''n1'')\<lparr>leaderID := ''n2''\<rparr>))) = ''http://h2:1/key/k''"
proof -
  have st: "state (srv_raft (demo_server (fresh ''n1''))) \<noteq> Leader"
    "state (srv_raft (demo_server ((fresh ''n1'')\<lparr>leaderID := ''n2''\<rparr>))) \<noteq> Leader"
    "leaderID (fresh ''n1'') = []"
    by code_simp+
  have "getHandler ''/key/k'' ''k'' (demo_server (fresh ''n1'')) = reply_with 503 ''leader unknown''"
    using follower_redirects [OF st(1), of memory_ops "\<lambda>s. s" _ _ "''/key/k''" _ "''k''"] st(3)
    by (auto simp: demo_server_def reply_with_def)
  moreover have "rsp_Location (getHandler ''/key/k'' ''k'' (demo_server ((fresh ''n1'')\<lparr>leaderID := ''n2''\<rparr>))) =
      ''http://h2:1/key/k''"
    using follower_redirects [OF st(2), of memory_ops "\<lambda>s. s" _ _ "''/key/k''" _ "''k''"]
    by (auto simp: demo_server_def)
  ultimately show ?thesis ..
qed

text \<open>
  C39.  The time limit of a request covers the commit and the apply, but only a limit that expires
  before the commit is reported as a timeout.  If the entry commits and the limit expires before it is
  applied, the client is told \<^verbatim>\<open>500 apply error\<close> and not \<^verbatim>\<open>504\<close>, although the entry stays committed.
\<close>

theorem apply_timeout_misreported:
  assumes "map_of (applyResults (bl_before b s)) index = None"
    and "bl_ctx b = Some ErrDeadlineExceeded"
    and "map_of (waiterVals (bl_env b (snd (waitForApply_begin index (bl_before b s)))))
          (waiterCount (bl_before b s)) = None"
  shows "\<exists>s'. afterCommit b index WaitOK s = Done (Some (RaftErr ErrDeadlineExceeded)) [] None s' \<and>
     commandResponse uri (Some (RaftErr ErrDeadlineExceeded)) [] None = reply_with 500 ''apply error'' \<and>
     commandResponse uri None [] (Some (RaftErr ErrDeadlineExceeded)) = reply_with 504 ''commit timeout''"
  using assms
  by (auto simp: afterCommit_def waitForApply_def waitForApply_begin_def waitForApply_select_def
      commandResponse_def writeApplyError_def)

definition late :: "MemoryStorage Blocking" where
  "late = \<lparr>bl_before = (\<lambda>s. s), bl_env = (\<lambda>s. s), bl_ctx = Some ErrDeadlineExceeded, bl_pick = True\<rparr>"

theorem apply_timeout_misreported_witness:
  "\<exists>s'. afterCommit late 1 WaitOK (demo_server leader_one) = Done (Some (RaftErr ErrDeadlineExceeded)) [] None s'"
  using apply_timeout_misreported [of late "demo_server leader_one" 1]
  by (auto simp: late_def demo_server_def waitForApply_begin_def)

subsection \<open>A cluster of one\<close>

text \<open>The apply loop catching up with everything the node has sent.\<close>

definition drain :: "'s StorageOps \<Rightarrow> 's Server \<Rightarrow> 's Server" where
  "drain ops s =
     (case applyLoop ops (applyCh (srv_raft s)) (s\<lparr>srv_raft := (srv_raft s)\<lparr>applyCh := []\<rparr>\<rparr>) of
        None \<Rightarrow> s | Some s' \<Rightarrow> s')"

definition caught_up :: "'s Raft \<Rightarrow> bool" where
  "caught_up r \<longleftrightarrow> raft_inv r \<and> lastApplied r = lastLogIndex r \<and> applyCh r = []"

lemma alone_start:
  assumes "caught_up r" and "state r = Leader" and "peers r = []"
  shows "\<exists>r'. Start ops r cmd = Some ((lastLogIndex r + 1, currentTerm r, True), r', []) \<and>
     applyCh r' = [command_msg (lastLogIndex r + 1) cmd] \<and> commitIndex r' = lastLogIndex r + 1 \<and>
     state r' = Leader \<and> currentTerm r' = currentTerm r \<and> peers r' = [] \<and> raft_inv r' \<and>
     lastApplied r' = lastLogIndex r' \<and> lastLogIndex r' = lastLogIndex r + 1"
proof -
  let ?i = "lastLogIndex r + 1"
  define r1 where "r1 = persist ops (appended r cmd)"
  note inv = raft_invD [OF caught_up_def [THEN iffD1, OF assms(1), THEN conjunct1]]
  have cu: "lastApplied r = lastLogIndex r" "applyCh r = []" "commitIndex r = lastLogIndex r"
    using assms(1) inv by (simp_all add: caught_up_def)
  have r1: "state r1 = Leader" "peers r1 = []" "lastLogIndex r1 = ?i" "commitIndex r1 = lastLogIndex r"
    "lastApplied r1 = lastLogIndex r" "applyCh r1 = []" "logOffset r1 = logOffset r" "currentTerm r1 = currentTerm r"
    using assms cu by (simp_all add: r1_def appended_def lastLogIndex_def)
  have log: "raft_log r1 = raft_log r @ [\<lparr>le_Term = currentTerm r, le_Command = cmd\<rparr>]"
    by (simp add: r1_def appended_def)
  have here: "nat (?i - logOffset r) = length (raft_log r)" by (simp add: lastLogIndex_def)
  have "committable r1 ?i"
    using r1 inv log here
    by (simp add: committable_def termAt_in_range quorumSize_def matchCount_def)
  then have new: "newCommitIndex r1 = ?i"
    using newCommitIndex_greatest [of r1 ?i] r1 by (cases r1 rule: newCommitIndex_cases) auto
  define r2 where "r2 = persist ops (r1\<lparr>commitIndex := ?i\<rparr>)"
  have adv: "advanceCommitIndex_locked ops r1 = (r2, True)"
    using advanceCommitIndex_locked_eq [OF r1(1), of ops] new r1 by (simp add: r2_def)
  have r2: "logOffset r2 \<le> lastApplied r2 + 1" "commitIndex r2 \<le> lastLogIndex r2"
    using r1 inv by (simp_all add: r2_def)
  obtain r3 where r3: "applyCommitted r2 = Some r3"
    "applyCh r3 = applyCh r2 @ applied_msgs r2 (lastApplied r2 + 1) (commitIndex r2)"
    "lastApplied r3 = max (lastApplied r2) (commitIndex r2)"
    using applyCommitted_total [OF r2] by blast
  note frame = applyCommitted_frame [OF r3(1)]
  have last: "lastLogIndex r3 = ?i" using frame r1(3) by (simp add: lastLogIndex_def r2_def)
  have "snapshot r1 = snapshot r" by (simp add: r1_def appended_def)
  then have ok: "raft_inv r3 \<and> lastApplied r3 = lastLogIndex r3"
    using frame r3(3) r1 inv log last by (simp add: raft_inv_def r2_def)
  have "applied_msgs r2 (lastApplied r2 + 1) (commitIndex r2) = [command_msg ?i cmd]"
    using r1 log here by (simp add: applied_msgs_def r2_def entryAt_def)
  with r3 frame r1 adv ok last show ?thesis
    using assms(2) by (simp add: Start_def Start_locked_eq advanceCommitIndex_def broadcastAppendEntries_def
        r1_def [symmetric] r2_def Let_def)
qed

text \<open>
  A server without peers that leads and has nothing left to apply, with no request waiting and no result
  kept for an index that is still to come; snapshots keep it so.
\<close>

definition lone :: "'s Server \<Rightarrow> bool" where
  "lone s \<longleftrightarrow> state (srv_raft s) = Leader \<and> peers (srv_raft s) = [] \<and> caught_up (srv_raft s) \<and>
     store_data (srv_store s) \<noteq> None \<and> applyWaiters s = [] \<and>
     list_all (\<lambda>i. i \<le> lastLogIndex (srv_raft s)) (map fst (applyResults s))"

lemma takeSnapshot_caught_up:
  assumes "caught_up r"
  shows "caught_up (snd (takeSnapshot ops r index data)) \<and>
    state (snd (takeSnapshot ops r index data)) = state r \<and> peers (snd (takeSnapshot ops r index data)) = peers r \<and>
    lastLogIndex (snd (takeSnapshot ops r index data)) = lastLogIndex r \<and>
    currentTerm (snd (takeSnapshot ops r index data)) = currentTerm r"
proof (rule takeSnapshot_cases [of index r ops data])
  let ?r' = "snd (takeSnapshot ops r index data)"
  assume idx: "logOffset r < index" "index \<le> commitIndex r" "index \<le> lastLogIndex r" "0 \<le> termAt r index"
    and eq: "takeSnapshot ops r index data = persistLocked ops
         (r\<lparr>raft_log := sentinel (termAt r index) # drop (nat (index + 1 - logOffset r)) (raft_log r),
            logOffset := index,
            snapshot := \<lparr>snap_LastIncludedIndex = index, snap_LastIncludedTerm = termAt r index, snap_Data = data\<rparr>,
            lastApplied := max (lastApplied r) index,
            notifyCh := filter (\<lambda>p. \<not> fst p \<le> index) (notifyCh r),
            closedChs := map snd (filter (\<lambda>p. fst p \<le> index) (notifyCh r)) @ closedChs r\<rparr>)"
  have "lastLogIndex ?r' = lastLogIndex r"
    using idx by (intro compacted_log(1) [of r index]) (simp_all add: eq persistLocked_shape)
  then show ?thesis
    using assms idx takeSnapshot_inv [of r ops index data] by (simp add: caught_up_def eq persistLocked_shape)
qed (use assms in simp_all)

lemma maybeSnapshot_lone: "lone s \<Longrightarrow> lone (maybeSnapshot ops index s)"
  using takeSnapshot_caught_up [of "srv_raft s" ops index "StoreSnapshot (srv_store s)"]
  by (simp add: lone_def maybeSnapshot_def)

text \<open>
  The apply loop takes the one message of a new command.  Without a waiter it keeps the result for the
  request, otherwise it sends it on the channel of the waiter.
\<close>

lemma lone_drain:
  assumes "lone s" and "command_ok cmd" and ch: "applyCh r = [command_msg i (EncodeCommand cmd)]"
    and r: "state r = Leader" "peers r = []" "raft_inv r" "lastApplied r = lastLogIndex r"
    and i: "lastLogIndex r = i" "lastLogIndex (srv_raft s) < i"
    and ws: "ws = [] \<or> ws = [(i, w)]" and d: "d = drain ops (s\<lparr>srv_raft := r, applyWaiters := ws, waiterCount := n\<rparr>)"
  shows "lone d" and "lookup (srv_store d) = snd (kv_spec cmd (lookup (srv_store s)))"
    and "ws = [] \<Longrightarrow> map_of (applyResults d) i = Some (fst (kv_spec cmd (lookup (srv_store s))))"
    and "ws \<noteq> [] \<Longrightarrow> map_of (waiterVals d) w = Some (fst (kv_spec cmd (lookup (srv_store s))))"
    and "commitIndex (srv_raft d) = i" and "currentTerm (srv_raft d) = currentTerm r"
proof -
  note l = assms(1) [unfolded lone_def]
  let ?m = "command_msg i (EncodeCommand cmd)"
  let ?s = "s\<lparr>applyWaiters := ws, waiterCount := n, srv_raft := r\<lparr>applyCh := []\<rparr>\<rparr>"
  let ?res = "fst (kv_spec cmd (lookup (srv_store s)))"
  have m: "\<not> am_Snapshot ?m" "am_Index ?m = i" "am_Command ?m = EncodeCommand cmd"
    by (simp_all add: command_msg_def)
  have spec: "spec_result ?m (lookup (srv_store s)) = ?res"
    "spec_msg ?m (lookup (srv_store s)) = snd (kv_spec cmd (lookup (srv_store s)))"
    by (simp_all add: spec_result_def spec_msg_def m(3) decode_ok [OF assms(2)])
  obtain st where msg: "applyLoop_msg ops ?m ?s = Some (maybeSnapshot ops i (deliverResult i ?res (?s\<lparr>srv_store := st\<rparr>)))"
    and st: "lookup st = snd (kv_spec cmd (lookup (srv_store s)))" "store_data st \<noteq> None"
    using applyLoop_msg_command [OF m(1), of ?s ops thesis] l spec m(2) by auto
  define e where "e = deliverResult i ?res (?s\<lparr>srv_store := st\<rparr>)"
  have e: "srv_store e = st" "srv_raft e = r\<lparr>applyCh := []\<rparr>" "applyWaiters e = []"
    "ws = [] \<longrightarrow> applyResults e = AList.update i ?res (applyResults s)"
    "ws \<noteq> [] \<longrightarrow> applyResults e = applyResults s \<and> map_of (waiterVals e) w = Some ?res"
    using r ws by (auto simp: e_def deliverResult_def RaftState_def send_result_def)
  have "raft_inv (r\<lparr>applyCh := []\<rparr>) = raft_inv r" by (rule raft_inv_cong) simp_all
  moreover have "list_all (\<lambda>j. j \<le> lastLogIndex r) (map fst (applyResults e))"
    using l e(4,5) i by (cases "ws = []") (auto simp: list_all_iff update_keys split: if_splits)
  ultimately have "lone e" using r st(2) by (simp add: e lone_def caught_up_def lastLogIndex_def)
  moreover have de: "d = maybeSnapshot ops i e" by (simp add: d drain_def ch msg e_def)
  ultimately show "lone d" by (simp add: maybeSnapshot_lone)
  then have "raft_inv (srv_raft d)" "lastApplied (srv_raft d) = lastLogIndex (srv_raft d)"
    by (simp_all add: lone_def caught_up_def)
  moreover have "lastLogIndex (srv_raft d) = i" and trm: "currentTerm (srv_raft d) = currentTerm r"
    using takeSnapshot_caught_up [of "srv_raft e" ops i "StoreSnapshot (srv_store e)"] \<open>lone e\<close> e(2) i(1)
    by (simp_all add: de maybeSnapshot_def lone_def lastLogIndex_def)
  ultimately show "commitIndex (srv_raft d) = i" using raft_invD(5,6) [of "srv_raft d"] by simp
  show "currentTerm (srv_raft d) = currentTerm r" by (rule trm)
  show "lookup (srv_store d) = snd (kv_spec cmd (lookup (srv_store s)))"
    "ws = [] \<Longrightarrow> map_of (applyResults d) i = Some ?res" "ws \<noteq> [] \<Longrightarrow> map_of (waiterVals d) w = Some ?res"
    using e st(1) by (simp_all add: de update_conv)
qed

lemma drain_idle: "applyCh (srv_raft s) = [] \<Longrightarrow> drain ops s = s"
  by (simp add: drain_def)

text \<open>
  The schedules under which a request gets the result of its command: the apply loop may catch up before
  the request waits for the commit, between that and asking for the result, or, at the latest, while the
  request waits for the result, whose deadline then does not come first.  Which of them it is may depend
  on the state, and so differ from request to request.
\<close>

definition catches_up :: "'s StorageOps \<Rightarrow> 's Blocking \<Rightarrow> 's Blocking \<Rightarrow> bool" where
  "catches_up ops b1 b2 \<longleftrightarrow> (\<forall>s. bl_before b1 s = s \<or> bl_before b1 s = drain ops s) \<and>
     (\<forall>s. bl_before b2 s = s \<or> bl_before b2 s = drain ops s) \<and>
     (\<forall>s. bl_env b2 s = drain ops s) \<and> (bl_ctx b2 = None \<or> \<not> bl_pick b2)"

text \<open>The two ways to the result: it is there when the request asks, or it comes while the request waits.\<close>

lemma lone_result:
  assumes "lone s" and "command_ok cmd" and ch: "applyCh r = [command_msg i (EncodeCommand cmd)]"
    and r: "state r = Leader" "peers r = []" "raft_inv r" "lastApplied r = lastLogIndex r"
    and i: "lastLogIndex r = i" "lastLogIndex (srv_raft s) < i"
    and b: "bl_before b t = s\<lparr>srv_raft := r\<rparr> \<or> bl_before b t = drain ops (s\<lparr>srv_raft := r\<rparr>)"
      "\<And>s. bl_env b s = drain ops s" "bl_ctx b = None \<or> \<not> bl_pick b"
  shows "\<exists>s'. waitForApply b i t = Some (map_option KvErr (fst (kv_spec cmd (lookup (srv_store s)))), s') \<and>
     lookup (srv_store s') = snd (kv_spec cmd (lookup (srv_store s))) \<and> lone s'"
  using b(1)
proof
  have same: "s\<lparr>srv_raft := r\<rparr> = s\<lparr>srv_raft := r, applyWaiters := [], waiterCount := waiterCount s\<rparr>"
    using assms(1) by (simp add: lone_def)
  assume now: "bl_before b t = drain ops (s\<lparr>srv_raft := r\<rparr>)"
  define d where "d = bl_before b t"
  have "d = drain ops (s\<lparr>srv_raft := r, applyWaiters := [], waiterCount := waiterCount s\<rparr>)"
    unfolding d_def now by (rule arg_cong [OF same])
  note D = lone_drain [OF assms(1,2) ch r i disjI1 [OF refl] this]
  have "waitForApply b i t = Some (map_option KvErr (fst (kv_spec cmd (lookup (srv_store s)))),
      d\<lparr>applyResults := AList.delete i (applyResults d)\<rparr>)"
    using D(3) by (simp add: waitForApply_def waitForApply_begin_def d_def [symmetric])
  moreover have "lone (d\<lparr>applyResults := AList.delete i (applyResults d)\<rparr>)"
    using D(1) by (auto simp: lone_def list_all_iff delete_keys)
  ultimately show ?thesis using D(2) by auto
next
  assume later: "bl_before b t = s\<lparr>srv_raft := r\<rparr>"
  let ?w = "waiterCount s"
  define d where "d = drain ops (s\<lparr>srv_raft := r, applyWaiters := [(i, ?w)], waiterCount := Suc ?w\<rparr>)"
  note D = lone_drain [OF assms(1,2) ch r i disjI2 [OF refl] d_def]
  have "map_of (applyResults s) i = None"
    using assms(1) i(2) by (fastforce simp: lone_def list_all_iff map_of_eq_None_iff)
  then have "waitForApply b i t = waitForApply_select (bl_ctx b) (bl_pick b) ?w i d"
    using later assms(1) by (simp add: waitForApply_def waitForApply_begin_def b(2) d_def lone_def)
  also have "\<dots> = Some (map_option KvErr (fst (kv_spec cmd (lookup (srv_store s)))), d)"
    using D(4) b(3) by (auto simp: waitForApply_select_def split: option.split)
  finally show ?thesis using D(1,2) by auto
qed

lemma lone_mutation:
  assumes lone: "lone s" and "command_ok cmd" and b: "catches_up ops b1 b2"
  shows "\<exists>s'. applyCommandInternal ops (\<lambda>s. s) b1 b2 cmd s =
       Done (map_option KvErr (fst (kv_spec cmd (lookup (srv_store s))))) [] None s' \<and>
     lookup (srv_store s') = snd (kv_spec cmd (lookup (srv_store s))) \<and> lone s'"
proof -
  note l = lone [unfolded lone_def] and b = b [unfolded catches_up_def]
  let ?i = "lastLogIndex (srv_raft s) + 1" and ?t = "currentTerm (srv_raft s)"
  obtain r' where start: "Start ops (srv_raft s) (EncodeCommand cmd) = Some ((?i, ?t, True), r', [])"
    and r': "applyCh r' = [command_msg ?i (EncodeCommand cmd)]" "commitIndex r' = ?i" "state r' = Leader"
      "peers r' = []" "raft_inv r'" "lastApplied r' = lastLogIndex r'" "lastLogIndex r' = ?i" "currentTerm r' = ?t"
    using alone_start [of "srv_raft s" ops "EncodeCommand cmd"] l by blast
  let ?s = "s\<lparr>srv_raft := r'\<rparr>"
  define d where "d = drain ops ?s"
  have same: "?s = s\<lparr>srv_raft := r', applyWaiters := [], waiterCount := waiterCount s\<rparr>" using l by simp
  have "d = drain ops (s\<lparr>srv_raft := r', applyWaiters := [], waiterCount := waiterCount s\<rparr>)"
    unfolding d_def by (rule arg_cong [OF same])
  note D = lone_drain [OF lone assms(2) r'(1,3-7) less_add_one disjI1 [OF refl] this]
  define t where "t = bl_before b1 ?s"
  have t: "t = ?s \<or> t = d" using b by (auto simp: t_def d_def)
  have idle: "drain ops d = d" using D(1) by (intro drain_idle) (simp add: lone_def caught_up_def)
  have "commitIndex (srv_raft t) = ?i" "currentTerm (srv_raft t) = ?t" "state (srv_raft t) = Leader"
    using t r'(2,3,8) D(1,5,6) by (auto simp: lone_def)
  then have "WaitForCommit_begin (srv_raft t) ?i ?t = (WaitOK, srv_raft t)"
    by (simp add: WaitForCommit_begin_def)
  then have "applyCommandInternal ops (\<lambda>s. s) b1 b2 cmd s = afterCommit b2 ?i WaitOK t"
    using l by (simp add: applyCommandInternal_def RaftState_def start Let_def t_def)
  moreover have "bl_before b2 t = ?s \<or> bl_before b2 t = drain ops ?s"
    using b t idle by (metis d_def)
  then obtain s' where "waitForApply b2 ?i t = Some (map_option KvErr (fst (kv_spec cmd (lookup (srv_store s)))), s')"
    "lookup (srv_store s') = snd (kv_spec cmd (lookup (srv_store s)))" "lone s'"
    using lone_result [OF lone assms(2) r'(1,3-7) less_add_one, of b2 t ops] b by blast
  ultimately show ?thesis by (auto simp: afterCommit_def)
qed

definition solo :: mraft where
  "solo = the (node_run memory_ops [EvStartElection, EvStartElectionAlone 1] (boot [''n1''] ''n1'' NewMemoryStorage undefined))"

definition prompt :: "MemoryStorage Blocking" where
  "prompt = \<lparr>bl_before = (\<lambda>s. s), bl_env = (\<lambda>s. s), bl_ctx = None, bl_pick = False\<rparr>"

subsection \<open>Starting and restarting\<close>

text \<open>
  A server is built with the peers it was given: it refuses to start without an identifier or an
  address; otherwise its Raft node has every configured peer but itself, so that its quorum is a majority
  of all nodes, and it knows its own address.
\<close>

lemma new_server_peers:
  assumes "NewServer ops store_at newMem cfg = Inr s" and "distinct (map fst (sc_Peers cfg))"
  shows "sc_ID cfg \<noteq> [] \<and> sc_Addr cfg \<noteq> [] \<and>
     map_of (srv_peers s) = (map_of (sc_Peers cfg))(sc_ID cfg \<mapsto> sc_Addr cfg) \<and>
     map_of (peers (srv_raft s)) = (map_of (sc_Peers cfg))(sc_ID cfg := None) \<and>
     int (card (dom (map_of (srv_peers s)))) < 2 * quorumSize (srv_raft s) \<and>
     state (srv_raft s) = Follower \<and> raft_id (srv_raft s) = sc_ID cfg \<and> 0 \<noteq> snapshotThreshold s"
proof -
  have ne: "sc_ID cfg \<noteq> []" "sc_Addr cfg \<noteq> []"
    using assms(1) by (auto simp: NewServer_def split: if_splits)
  obtain r rcfg where new: "NewRaft ops newMem rcfg = Inr r"
    and cfg: "cfg_Peers rcfg = raftPeers cfg" "cfg_ID rcfg = sc_ID cfg"
    and s: "srv_raft s = r" "srv_peers s = allPeers cfg" "snapshotThreshold s \<noteq> 0"
    using assms(1) ne
    by (auto simp: NewServer_def Let_def restoreSnapshot_def raftPeers_def allPeers_def
        split: if_splits sum.splits prod.splits option.splits)
  have p: "peers r = raftPeers cfg" "state r = Follower" "raft_id r = sc_ID cfg"
    using NewRaft_fields [OF new, of thesis] cfg by (metis NewRaft_fields [OF new])+
  have all: "map_of (allPeers cfg) = (map_of (sc_Peers cfg))(sc_ID cfg \<mapsto> sc_Addr cfg)"
    by (simp add: allPeers_def update_conv')
  have raft: "map_of (raftPeers cfg) = (map_of (sc_Peers cfg))(sc_ID cfg := None)"
    using map_of_filter_keys [of "\<lambda>k. k \<noteq> sc_ID cfg" "allPeers cfg"] all by (auto simp: raftPeers_def)
  have dist: "distinct (map fst (allPeers cfg))" using assms(2) by (simp add: allPeers_def distinct_update)
  have "distinct (map fst (raftPeers cfg))" using dist by (simp add: raftPeers_def distinct_map_filter)
  then have "length (raftPeers cfg) = card (fst ` set (raftPeers cfg))"
    by (metis distinct_card length_map list.set_map)
  moreover have "fst ` set (raftPeers cfg) = fst ` set (allPeers cfg) - {sc_ID cfg}"
    by (auto simp: raftPeers_def)
  moreover have self: "sc_ID cfg \<in> fst ` set (allPeers cfg)"
    using all by (metis fun_upd_same map_of_SomeD fst_conv image_eqI)
  moreover have "dom (map_of (allPeers cfg)) = fst ` set (allPeers cfg)" by (rule dom_map_of_conv_image_fst)
  moreover have "0 < card (fst ` set (allPeers cfg))" using self by (auto simp: card_gt_0_iff)
  ultimately have "int (card (dom (map_of (allPeers cfg)))) = int (length (peers r)) + 1"
    using p(1) by simp
  with quorumSize_majority [of r] ne s p all raft show ?thesis by simp
qed

text \<open>A snapshot of a committed index, taken over a file store whose save does not fail.\<close>

lemma snapshot_saved:
  assumes "raft_inv r" and "logOffset r < index" and "index \<le> commitIndex r" and "0 \<le> termAt r index"
    and "fs_faults (storage r) = []" and "r' = snd (takeSnapshot file_ops r index data)"
  shows "file_holds (storage r') (persistentState r')" and "raft_inv r'" and "sentinel_ok r'"
    and "snapshot r' = \<lparr>snap_LastIncludedIndex = index, snap_LastIncludedTerm = termAt r index, snap_Data = data\<rparr>"
    and "commitIndex r' = commitIndex r" and "lastLogIndex r' = lastLogIndex r" and "raft_id r' = raft_id r"
    and "logOffset r' = index"
proof -
  note inv = raft_invD [OF assms(1)]
  show "raft_inv r'" using takeSnapshot_inv [OF assms(1), of file_ops index data] assms(6) by simp
  obtain q where r': "r' = persist file_ops q" and q: "q = r
       \<lparr>raft_log := sentinel (termAt r index) # drop (nat (index + 1 - logOffset r)) (raft_log r),
        logOffset := index,
        snapshot := \<lparr>snap_LastIncludedIndex = index, snap_LastIncludedTerm = termAt r index, snap_Data = data\<rparr>,
        lastApplied := max (lastApplied r) index,
        notifyCh := filter (\<lambda>p. \<not> fst p \<le> index) (notifyCh r),
        closedChs := map snd (filter (\<lambda>p. fst p \<le> index) (notifyCh r)) @ closedChs r\<rparr>"
    by (cases rule: takeSnapshot_cases [of index r file_ops data])
      (use assms inv in \<open>auto simp: persistLocked_shape\<close>)
  have "persistentState r' = persistentState q" "storage r' = snd (Save file_ops (storage q) (persistentState q))"
    by (simp_all add: r' persist_eq persistentState_def)
  with file_save_holds [of "storage q" "persistentState q"] assms(5)
  show "file_holds (storage r') (persistentState r')" by (simp add: q)
  show "lastLogIndex r' = lastLogIndex r"
    by (rule compacted_log(1) [OF assms(2) order_trans [OF assms(3) inv(6)]]) (simp_all add: r' q)
  show "sentinel_ok r'" "commitIndex r' = commitIndex r" "raft_id r' = raft_id r" "logOffset r' = index"
    "snapshot r' = \<lparr>snap_LastIncludedIndex = index, snap_LastIncludedTerm = termAt r index, snap_Data = data\<rparr>"
    by (simp_all add: q r' sentinel_ok_def)
qed

text \<open>
  C25.  The automatic snapshot survives a restart.  When the apply loop of a server with a well-formed node
  over the file store compacts the log at a committed index, the save does not fail and the state is one
  that the file format represents, a new server built by \<^verbatim>\<open>NewServer\<close> with the same identifier on that file has the contents that the store had at the snapshot, the snapshot at that index,
  and the same term, vote, rest of the log and commit index, so that applying goes on above the
  snapshot.  Below the threshold nothing is compacted.
\<close>

theorem automatic_snapshot_restores:
  assumes "store_ok (srv_store s)" and "raft_inv (srv_raft s)" and "sorted_terms (srv_raft s)"
    and "0 \<le> le_Term (raft_log (srv_raft s) ! 0)"
    and "0 < snapshotThreshold s" and "index \<le> commitIndex (srv_raft s)"
    and "fs_faults (storage (srv_raft s)) = []"
    and "s' = maybeSnapshot file_ops index s" and "state_ok (persistentState (srv_raft s'))"
    and "sc_ID cfg = raft_id (srv_raft s)" and "sc_ID cfg \<noteq> []" and "sc_Addr cfg \<noteq> []"
    and "store_at (if sc_DataDir cfg = [] then ''data'' else sc_DataDir cfg) (sc_ID cfg) = storage (srv_raft s')"
  shows "if index - logOffset (srv_raft s) < snapshotThreshold s then s' = s
     else \<exists>t. NewServer file_ops store_at newMem cfg = Inr t \<and> lookup (srv_store t) = lookup (srv_store s) \<and>
       snap_LastIncludedIndex (snapshot (srv_raft t)) = index \<and> lastApplied (srv_raft t) = index \<and>
       commitIndex (srv_raft t) = commitIndex (srv_raft s) \<and> lastLogIndex (srv_raft t) = lastLogIndex (srv_raft s) \<and>
       persistentState (srv_raft t) = persistentState (srv_raft s')"
proof (cases "index - logOffset (srv_raft s) < snapshotThreshold s")
  case True
  with assms(8) show ?thesis by (simp add: maybeSnapshot_def LogOffset_def)
next
  case False
  let ?r = "srv_raft s" and ?data = "StoreSnapshot (srv_store s)" and ?r' = "srv_raft s'"
  note inv = raft_invD [OF assms(2)]
  have idx: "logOffset ?r < index" using False assms(5) by simp
  have trm: "0 \<le> termAt ?r index"
    using sorted_terms_termAt [OF assms(3), of "logOffset ?r" index] idx inv assms(4,6)
    by (simp add: termAt_in_range)
  have r': "?r' = snd (takeSnapshot file_ops ?r index ?data)"
    using False assms(5,8) by (simp add: maybeSnapshot_def LogOffset_def)
  note snap = snapshot_saved [OF assms(2) idx assms(6) trm assms(7) r']
  have load: "Load file_ops (storage ?r') = Inr (persistentState ?r')"
    using file_holds_load [OF snap(1) assms(9)] raft_invD(1) [OF snap(2)] by (simp add: persistentState_def)
  have sync: "synced file_ops ?r'" using load raft_invD(1) [OF snap(2)] by (simp add: synced_on_def)
  let ?cfg = "\<lparr>cfg_ID = sc_ID cfg, cfg_Peers = raftPeers cfg, cfg_hasTransport = True,
      cfg_Storage = Some (storage ?r'), cfg_ElectionTimeout = 0, cfg_HeartbeatInterval = 0,
      cfg_Debug = sc_Debug cfg \<or> sc_Verbose cfg, cfg_Verbose = sc_Verbose cfg\<rparr>"
  obtain q where q: "NewRaft file_ops newMem ?cfg = Inr q" "persistentState q = persistentState ?r'"
      "logOffset q = logOffset ?r'" "lastApplied q = logOffset ?r'"
    by (rule NewRaft_restart [OF sync snap(2,3), of ?cfg newMem]) (use assms(10,11) snap(7) in auto)
  have qs: "snapshot q = snapshot ?r'" "commitIndex q = commitIndex ?r'" "raft_log q = raft_log ?r'"
    using q(2) by (simp_all add: persistentState_def)
  obtain st where "RestoreSnapshot ?data NewStore = (None, st)" "same_store st (srv_store s)"
    using restore_snapshot [OF assms(1), of NewStore] by auto
  with q qs snap idx inv(2) False show ?thesis
    using assms(11-13)
    by (auto simp: NewServer_def Let_def restoreSnapshot_def SnapshotState_def same_store_def lastLogIndex_def
        raftPeers_def allPeers_def split: if_splits)
qed

text \<open>A lone node over an empty file that leads and has committed one command.\<close>

definition solo_cfg :: ServerConfig where
  "solo_cfg = \<lparr>sc_ID = ''n1'', sc_Addr = ''h1:1'', sc_Peers = [], sc_DataDir = [], sc_SnapshotThreshold = 1,
     sc_Debug = False, sc_Verbose = False\<rparr>"

definition busy_file :: "FileStorage Server" where
  "busy_file = (let s = projr (NewServer file_ops (\<lambda>_ _. fresh_file) fresh_file solo_cfg)
     in s\<lparr>srv_store := \<lparr>store_data = Some [(''k'', ''v'')]\<rparr>,
          srv_raft := the (node_run file_ops [EvStartElection, EvStartElectionAlone 1, EvStart ''c'', EvAdvanceCommit]
            (srv_raft s))\<rparr>)"

theorem automatic_snapshot_restores_witness:
  "\<exists>t. NewServer file_ops (\<lambda>_ _. storage (srv_raft (maybeSnapshot file_ops 1 busy_file))) fresh_file solo_cfg = Inr t \<and>
     lookup (srv_store t) ''k'' = Some ''v'' \<and> snap_LastIncludedIndex (snapshot (srv_raft t)) = 1"
proof -
  have st: "srv_store busy_file = \<lparr>store_data = Some [(''k'', ''v'')]\<rparr>" by (simp add: busy_file_def Let_def)
  have g0: "raft_inv (srv_raft busy_file)" by code_simp
  have g1: "sorted_terms (srv_raft busy_file)" by code_simp
  have g2: "0 \<le> le_Term (raft_log (srv_raft busy_file) ! 0)" by code_simp
  have g3: "snapshotThreshold busy_file = 1" by code_simp
  have g4: "1 \<le> commitIndex (srv_raft busy_file)" by code_simp
  have g5: "fs_faults (storage (srv_raft busy_file)) = []" by code_simp
  have g6: "raft_id (srv_raft busy_file) = ''n1''" by code_simp
  have g7: "logOffset (srv_raft busy_file) = 0" by code_simp
  have g8: "state_ok (persistentState (srv_raft (maybeSnapshot file_ops 1 busy_file)))" by code_simp
  have "store_ok (srv_store busy_file)" by (simp add: st store_ok_def valid_utf8.simps)
  from automatic_snapshot_restores [OF this g0 g1 g2 _ g4 g5 refl g8,
      of solo_cfg "\<lambda>_ _. storage (srv_raft (maybeSnapshot file_ops 1 busy_file))" fresh_file] g3 g6 g7
  show ?thesis
    by (auto simp: solo_cfg_def st lookup_Some [of "\<lparr>store_data = Some [(''k'', ''v'')]\<rparr>", OF Store.select_convs(1)])
qed

end
