(* ===== verification/Replicas.thy ===== *)
theory Replicas
  imports Log_Safety Service
begin

text \<open>
  The cluster and the service together: servers of a cluster whose nodes take no snapshots, each with a
  store that has applied its node's log up to the last applied index.
\<close>












end
