(* ===== verification/Snapshot_Safety.thy ===== *)
theory Snapshot_Safety
  imports Raft_Properties
begin

text \<open>
  Why the safety of the log is proved of runs without snapshots.  A snapshot message of
  \<^verbatim>\<open>src/raft/raft.go\<close> that arrives late makes a follower drop entries it has acknowledged, and a leader that
  counted on them has committed what the next leader does not have.
\<close>

definition entry_of :: "int \<Rightarrow> bytes \<Rightarrow> LogEntry" where
  "entry_of t cmd = \<lparr>le_Term = t, le_Command = cmd\<rparr>"

definition append_from :: "node_id \<Rightarrow> int \<Rightarrow> int \<Rightarrow> int \<Rightarrow> LogEntry \<Rightarrow> int \<Rightarrow> AppendEntriesArgs" where
  "append_from n t prev prevTerm e commit = \<lparr>aea_Term = t, aea_LeaderID = n, aea_PrevLogIndex = prev,
     aea_PrevLogTerm = prevTerm, aea_Entries = [e], aea_LeaderCommit = commit\<rparr>"

definition accepted :: "int \<Rightarrow> AppendEntriesReply" where
  "accepted t = \<lparr>aer_Term = t, aer_Success = True, aer_ConflictIndex = 0, aer_ConflictTerm = 0\<rparr>"

text \<open>The first node leads, commits its first entry with the third node, compacts it, and the messages for the second wait.\<close>

definition late_snapshot :: InstallSnapshotArgs where
  "late_snapshot = \<lparr>isa_Term = 1, isa_LeaderID = ''n1'', isa_LastIncludedIndex = 1, isa_LastIncludedTerm = 1, isa_Data = ''s''\<rparr>"

definition compacted_run :: "ClusterEvent list" where
  "compacted_run =
     [Timeout ''n1'', DeliverVoteReq ''n3'' (ask_vote ''n1''), DeliverVoteRep ''n1'' 1 ''n3'' vote_yes,
      ClientStart ''n1'' ''a'', SendAppend ''n1'' ''n2'', SendAppend ''n1'' ''n3'',
      DeliverAppendReq ''n3'' (append_from ''n1'' 1 0 0 (entry_of 1 ''a'') 0),
      DeliverAppendRep ''n3'' (append_from ''n1'' 1 0 0 (entry_of 1 ''a'') 0) (accepted 1),
      AdvanceCommit ''n1'', TakeSnapshot ''n1'' 1 ''s'', SendAppend ''n1'' ''n2'']"

text \<open>
  The second node gets the first entry from the older message and acknowledges it and a further one, which
  the first node commits.  Then the snapshot arrives.
\<close>

definition dropped_run :: "ClusterEvent list" where
  "dropped_run =
     [DeliverAppendReq ''n2'' (append_from ''n1'' 1 0 0 (entry_of 1 ''a'') 0),
      DeliverAppendRep ''n2'' (append_from ''n1'' 1 0 0 (entry_of 1 ''a'') 0) (accepted 1),
      ClientStart ''n1'' ''b'', SendAppend ''n1'' ''n2'',
      DeliverAppendReq ''n2'' (append_from ''n1'' 1 1 1 (entry_of 1 ''b'') 1),
      DeliverAppendRep ''n2'' (append_from ''n1'' 1 1 1 (entry_of 1 ''b'') 1) (accepted 1),
      AdvanceCommit ''n1'', DeliverSnapReq ''n2'' late_snapshot]"

text \<open>The second node is elected by the third and commits another entry at the same index.\<close>

definition ask_second :: RequestVoteArgs where
  "ask_second = \<lparr>rva_Term = 2, rva_CandidateID = ''n2'', rva_LastLogIndex = 1, rva_LastLogTerm = 1\<rparr>"

definition diverge_run :: "ClusterEvent list" where
  "diverge_run =
     [Timeout ''n2'', DeliverVoteReq ''n3'' ask_second,
      DeliverVoteRep ''n2'' 2 ''n3'' \<lparr>rvr_Term = 2, rvr_VoteGranted = True\<rparr>,
      ClientStart ''n2'' ''c'', SendAppend ''n2'' ''n3'',
      DeliverAppendReq ''n3'' (append_from ''n2'' 2 1 1 (entry_of 2 ''c'') 1),
      DeliverAppendRep ''n3'' (append_from ''n2'' 2 1 1 (entry_of 2 ''c'') 1) (accepted 2),
      AdvanceCommit ''n2'']"

definition diverged_cluster :: cluster where
  "diverged_cluster = the (cluster_run True trio (compacted_run @ dropped_run @ diverge_run) (init_cluster trio))"

lemma diverged_reachable: "reachable True trio diverged_cluster"
proof -
  have "cluster_run True trio (compacted_run @ dropped_run @ diverge_run) (init_cluster trio) \<noteq> None" by code_simp
  then have "cluster_run True trio (compacted_run @ dropped_run @ diverge_run) (init_cluster trio) = Some diverged_cluster"
    by (auto simp: diverged_cluster_def)
  then show ?thesis by (rule cluster_run_reachable) (rule reach_init)
qed

text \<open>
  C7.  Snapshots break the safety of the log.  In a cluster of three with nothing but messages that are
  delivered out of order, no crash and no loss, an InstallSnapshot request that is overtaken by appends
  removes an entry that the receiver acknowledged and the leader committed: the receiver is elected with
  the vote of the third node, and two nodes commit different commands at the same index.
\<close>

theorem snapshot_breaks_safety:
  "\<exists>s. reachable True trio s \<and> 2 \<le> commitIndex (nodes s ''n1'') \<and> 2 \<le> commitIndex (nodes s ''n2'') \<and>
     entryAt (nodes s ''n1'') 2 = entry_of 1 ''b'' \<and> entryAt (nodes s ''n2'') 2 = entry_of 2 ''c''"
proof -
  have "2 \<le> commitIndex (nodes diverged_cluster ''n1'') \<and> 2 \<le> commitIndex (nodes diverged_cluster ''n2'') \<and>
      entryAt (nodes diverged_cluster ''n1'') 2 = entry_of 1 ''b'' \<and> entryAt (nodes diverged_cluster ''n2'') 2 = entry_of 2 ''c''"
    by code_simp
  with diverged_reachable show ?thesis by blast
qed

end
