(* ===== verification/Next_Index.thy ===== *)
theory Next_Index
  imports Log_Safety
begin

text \<open>
  The next index a leader keeps for each peer, in a cluster that takes no snapshots: it is never negative
  and never more than one past the end of the leader's log.  So \<^verbatim>\<open>sendAppendEntries\<close> never slices past its
  log, whatever replies are lost, duplicated or late.
\<close>

subsection \<open>The invariant\<close>

definition next_ok :: "mraft \<Rightarrow> bool" where
  "next_ok r \<longleftrightarrow> (state r = Leader \<longrightarrow>
     (\<forall>p. 0 \<le> int_at (nextIndex r) p \<and> int_at (nextIndex r) p \<le> lastLogIndex r + 1))"

text \<open>The hint of a rejection does not lie beyond the index that was rejected.\<close>

fun hint_ok :: "Msg \<Rightarrow> bool" where
  "hint_ok (AppendRep p args reply) \<longleftrightarrow>
     0 \<le> aer_ConflictIndex reply \<and> aer_ConflictIndex reply \<le> aea_PrevLogIndex args"
| "hint_ok _ \<longleftrightarrow> True"

definition next_inv :: "node_id list \<Rightarrow> cluster \<Rightarrow> bool" where
  "next_inv ids s \<longleftrightarrow> (\<forall>n \<in> set ids. next_ok (nodes s n)) \<and> (\<forall>m \<in> set (msgs s). hint_ok m)"

lemma next_ok_not_leader: "state r \<noteq> Leader \<Longrightarrow> next_ok r"
  by (simp add: next_ok_def)

lemma next_ok_keep:
  assumes "next_ok r" and "state r' = Leader \<Longrightarrow> state r = Leader"
    and "nextIndex r' = nextIndex r" and "lastLogIndex r' = lastLogIndex r"
  shows "next_ok r'"
  using assms by (simp add: next_ok_def)

lemma next_ok_leader: "0 \<le> lastLogIndex r \<Longrightarrow> next_ok (becomeLeaderLocked r)"
  by (simp add: next_ok_def) (simp add: becomeLeaderLocked_def Let_def int_at_const_map)

lemma next_inv_step:
  assumes "next_inv ids s" and "nodes s' = (nodes s)(n := r')" and "n \<in> set ids \<Longrightarrow> next_ok r'"
    and "\<And>m. m \<in> set (msgs s') \<Longrightarrow> m \<in> set (msgs s) \<or> hint_ok m"
  shows "next_inv ids s'"
  using assms by (auto simp: next_inv_def)

lemma next_invD:
  assumes "next_inv ids s"
  shows "n \<in> set ids \<Longrightarrow> next_ok (nodes s n)" and "m \<in> set (msgs s) \<Longrightarrow> hint_ok m"
  using assms by (auto simp: next_inv_def)

subsection \<open>The sections of a node\<close>

lemma follower_next:
  assumes "next_ok r"
  shows "next_ok (snd (HandleRequestVote ops r args))"
    and "next_ok (fst (snd (HandleAppendEntries_locked ops r aargs)))"
    and "isa_LastIncludedIndex sargs \<le> snap_LastIncludedIndex (snapshot r) \<Longrightarrow>
      next_ok (fst (snd (HandleInstallSnapshot_locked ops r sargs)))"
proof -
  have follow: "state (followLeader ops t l r) = Follower" for t l by (simp add: followLeader_def Let_def)
  show "next_ok (snd (HandleRequestVote ops r args))"
    by (rule next_ok_keep [OF assms]) (auto simp: HandleRequestVote_def Let_def split: if_splits)
  show "next_ok (fst (snd (HandleAppendEntries_locked ops r aargs)))"
    using assms by (auto simp: HandleAppendEntries_locked_def Let_def follow intro: next_ok_not_leader)
  show "next_ok (fst (snd (HandleInstallSnapshot_locked ops r sargs)))"
    using assms by (auto simp: HandleInstallSnapshot_locked_def Let_def follow intro: next_ok_not_leader)
qed

lemma local_next:
  assumes "node_exec ops ev r = Some r'" and "local_event ev" and "next_ok r"
  shows "next_ok r'"
proof (cases ev)
  case (EvWaitBegin index trm)
  with assms(1) WaitForCommit_begin_shape [of r index trm] show ?thesis
    by (auto intro!: next_ok_keep [OF assms(3)] simp: lastLogIndex_def)
qed (use assms(1,2) in \<open>auto intro!: next_ok_keep [OF assms(3)]
    simp: applyCommitted_deliver_def Stop_def lastLogIndex_def
    split: ApplyTake.splits option.splits prod.splits if_splits
    dest!: applyCommitted_take_shape WaitForCommit_select_shape\<close>)

lemma start_next:
  assumes "next_ok r" and "0 \<le> lastLogIndex r"
  shows "next_ok (snd (Start_locked ops r cmd))"
proof (cases "state r = Leader")
  case True
  then have "0 \<le> int_at (nextIndex r) p \<and> int_at (nextIndex r) p \<le> logOffset r + int (length (raft_log r)) + 1" for p
    using assms(1) by (auto simp: next_ok_def lastLogIndex_def intro: order_trans)
  with True assms(2) show ?thesis
    by (auto simp: Start_locked_eq next_ok_def appended_def lastLogIndex_def)
next
  case False
  then show ?thesis by (simp add: Start_locked_eq next_ok_not_leader)
qed

text \<open>What the hint of a reply can be.\<close>

lemma reply_hint:
  assumes "HandleAppendEntries_locked ops r args = (reply, r', ap)" and "plain r" and "0 \<le> aea_PrevLogIndex args"
  shows "hint_ok (AppendRep p args reply)"
proof (cases "aer_Success reply \<or> aea_Term args < currentTerm r")
  case True
  with assms show ?thesis
    by (auto simp: HandleAppendEntries_locked_def Let_def split: if_splits prod.splits)
next
  case False
  have "0 \<le> lastLogIndex r" using plainD(4,7) [OF assms(2)] by (cases "raft_log r") simp_all
  moreover from False have "\<not> aer_Success reply" "currentTerm r \<le> aea_Term args" by simp_all
  ultimately show ?thesis
    by (cases rule: reject_cases [OF assms(1) _ _ plainD(3) [OF assms(2)] assms(3)]) simp_all
qed

text \<open>The reaction of the leader to a reply of its own term.\<close>

lemma reply_next:
  assumes lk: "linked ids s h" and msg: "AppendRep p args reply \<in> set (msgs s)" and "hint_ok (AppendRep p args reply)"
    and n: "n \<in> set ids" and "next_ok (nodes s n)"
  shows "next_ok (fst (handleAppendEntriesReply_locked memory_ops p args reply (nodes s n)))"
proof (cases "state (nodes s n) = Leader \<and> aea_Term args = currentTerm (nodes s n) \<and> aer_Term reply \<le> currentTerm (nodes s n)")
  case True
  let ?r = "nodes s n"
  note L = node_linkD [OF linkedD(2) [OF lk n]]
  have "h_lead h (aea_Term args) = raft_log ?r" using L(6) True by (simp add: leads_def)
  then have a: "0 \<le> aea_PrevLogIndex args" "aea_PrevLogIndex args + int (length (aea_Entries args)) \<le> lastLogIndex ?r"
    using linkedD(3) [OF lk msg] plainD(7) [OF L(1)] by (auto simp: append_link_def Let_def)
  have t: "lastIndexOfTerm ?r x \<le> lastLogIndex ?r" for x
    using a by (cases rule: lastIndexOfTerm_cases [of ?r x]) simp_all
  have bounds: "0 \<le> int_at (nextIndex ?r) q" "int_at (nextIndex ?r) q \<le> lastLogIndex ?r + 1" for q
    using assms(5) True by (auto simp: next_ok_def)
  have "int_at (nextIndex ?r) p \<le> 2 + lastLogIndex ?r" using bounds(2) [of p] by simp
  then show ?thesis
    using True a t bounds assms(3)
    by (auto simp: handleAppendEntriesReply_locked_def Let_def next_ok_def)
next
  case False
  then show ?thesis
    using assms(5) by (auto simp: handleAppendEntriesReply_locked_def Let_def next_ok_not_leader)
qed

subsection \<open>Every reachable cluster\<close>

lemma boot_follower:
  assumes "valid_ids ids" and "n \<in> set ids"
  shows "state (boot ids n st d) = Follower"
proof -
  have "n \<noteq> []" using assms by (auto simp: valid_ids_def)
  then have "NewRaft memory_ops NewMemoryStorage (node_cfg ids n (Some st)) \<noteq> Inl e" for e
    by (simp add: NewRaft_def node_cfg_def Let_def)
  then obtain r where r: "NewRaft memory_ops NewMemoryStorage (node_cfg ids n (Some st)) = Inr r"
    by (cases "NewRaft memory_ops NewMemoryStorage (node_cfg ids n (Some st))") auto
  then have "state r = Follower" by (rule NewRaft_fields)
  with r show ?thesis by (simp add: boot_def)
qed

lemma next_inv_exec:
  assumes valid: "valid_ids ids" and reach: "reachable False ids s" and inv: "next_inv ids s"
    and exec: "cluster_exec False ids ev s = Some s'"
  shows "next_inv ids s'"
proof -
  have el: "election_inv ids s" using reach valid by (rule reachable_election_inv)
  obtain h where lk: "linked ids s h" using reachable_linked [OF reach valid] by blast
  note here = next_invD(1) [OF inv]
  have plain: "plain (nodes s n)" if "n \<in> set ids" for n using reachable_plain [OF valid reach that] .
  have last: "0 \<le> lastLogIndex (nodes s n)" if "n \<in> set ids" for n
    using plainD(4,7) [OF plain [OF that]] by (cases "raft_log (nodes s n)") simp_all
  note step = next_inv_step [OF inv]
  show ?thesis
  proof (cases ev)
    case (Timeout n)
    with exec show ?thesis
      by (auto intro!: step [where n = n] next_ok_not_leader
          simp: startElection_begin_def Let_def set_node_def send_def split: if_splits)
  next
    case (AloneElected n t)
    with exec here last show ?thesis
      by (auto intro!: step [where n = n] next_ok_leader simp: startElection_alone_def set_node_def split: if_splits)
  next
    case (DeliverVoteReq p args)
    with exec here show ?thesis
      using follower_next(1) [of "nodes s p" memory_ops args]
      by (auto intro!: step [where n = p] simp: set_node_def send_def split: if_splits prod.splits)
  next
    case (DeliverVoteRep c t p reply)
    with exec here last show ?thesis
      by (auto intro!: step [where n = c] intro: next_ok_leader next_ok_not_leader
          simp: set_node_def handleVoteReply_def Let_def split: if_splits prod.splits)
  next
    case (ClientStart n cmd)
    with exec start_next [OF here last] show ?thesis
      by (auto intro!: step [where n = n] simp: set_node_def split: if_splits)
  next
    case (AdvanceCommit n)
    have "next_ok (fst (advanceCommitIndex_locked memory_ops (nodes s n)))" if "n \<in> set ids"
      using here [OF that] by (cases memory_ops "nodes s n" rule: advanceCommitIndex_locked_cases) (simp_all add: next_ok_def)
    with AdvanceCommit exec show ?thesis
      by (auto intro!: step [where n = n] simp: set_node_def split: if_splits)
  next
    case (SendAppend n p)
    let ?r = "snd (sendAppendEntries_locked (nodes s n) p)"
    have "next_ok ?r" if "n \<in> set ids"
      using here [OF that] last [OF that] by (auto simp: sendAppendEntries_locked_def Let_def next_ok_def)
    with SendAppend exec show ?thesis
      by (auto intro!: step [where n = n] simp: set_node_def send_def split: if_splits prod.splits SendStep.splits option.splits)
  next
    case (DeliverAppendReq p args)
    obtain reply r ap where hd: "HandleAppendEntries_locked memory_ops (nodes s p) args = (reply, r, ap)"
      by (cases "HandleAppendEntries_locked memory_ops (nodes s p) args")
    have msg: "AppendReq p args \<in> set (msgs s)" using exec DeliverAppendReq by (auto split: if_splits)
    have p: "p \<in> set ids" using election_invD(2) [OF el msg] by simp
    have "0 \<le> aea_PrevLogIndex args" using linkedD(3) [OF lk msg] by (auto simp: append_link_def Let_def)
    from reply_hint [OF hd plain [OF p] this] follower_next(2) [OF here [OF p], of memory_ops args] hd DeliverAppendReq exec
    show ?thesis by (auto intro!: step [where n = p] simp: set_node_def send_def split: if_splits)
  next
    case (DeliverAppendRep p args reply)
    then have msg: "AppendRep p args reply \<in> set (msgs s)" using exec by (auto simp: Let_def split: if_splits)
    from reply_next [OF lk msg next_invD(2) [OF inv msg]] here DeliverAppendRep exec show ?thesis
      by (auto intro!: step [where n = "aea_LeaderID args"] simp: Let_def set_node_def split: if_splits)
  next
    case (Local n e)
    with exec here [of n] local_next [of memory_ops e "nodes s n"] show ?thesis
      by (auto intro!: step [where n = n] simp: set_node_def split: if_splits option.splits)
  next
    case (CrashRestart n)
    have "state (boot ids n (storage (nodes s n)) (nodes s n)) \<noteq> Leader" if "n \<in> set ids"
      by (simp add: boot_follower [OF valid that])
    with CrashRestart exec show ?thesis
      by (auto intro!: step [where n = n] next_ok_not_leader simp: set_node_def split: if_splits)
  next
    case (DeliverSnapReq p args)
    then have msg: "SnapReq p args \<in> set (msgs s)" using exec by (auto split: if_splits)
    have p: "p \<in> set ids" using election_invD(2) [OF el msg] by simp
    have "isa_LastIncludedIndex args \<le> snap_LastIncludedIndex (snapshot (nodes s p))"
      using linkedD(3) [OF lk msg] plainD(8) [OF plain [OF p]] by simp
    from follower_next(3) [OF here [OF p] this, of memory_ops] DeliverSnapReq exec show ?thesis
      by (auto intro!: step [where n = p] simp: set_node_def send_def split: if_splits prod.splits)
  next
    case (DeliverSnapRep p args reply)
    then have msg: "SnapRep p args reply \<in> set (msgs s)" using exec by (auto simp: Let_def split: if_splits)
    have "isa_LastIncludedIndex args = 0" using linkedD(3) [OF lk msg] by simp
    then have "next_ok (handleInstallSnapshotReply memory_ops p args reply (nodes s (isa_LeaderID args)))"
      if "isa_LeaderID args \<in> set ids"
      using here [OF that] last [OF that] by (auto simp: handleInstallSnapshotReply_def next_ok_def)
    with DeliverSnapRep exec show ?thesis
      by (auto intro!: step [where n = "isa_LeaderID args"] simp: Let_def set_node_def split: if_splits)
  next
    case (TakeSnapshot n index data)
    with exec show ?thesis by simp
  qed
qed

lemma reachable_next_inv:
  assumes "valid_ids ids" and "reachable False ids s"
  shows "next_inv ids s"
  using assms(2)
proof (induction rule: reachable.induct)
  case reach_init
  have "state (boot ids n NewMemoryStorage undefined) \<noteq> Leader" if "n \<in> set ids" for n
    by (simp add: boot_follower [OF assms(1) that])
  then show ?case by (auto simp: next_inv_def init_cluster_def intro: next_ok_not_leader)
next
  case (reach_step s ev s')
  with next_inv_exec assms(1) show ?case by blast
qed

text \<open>The next indices of a leader are in range, so that none of its sends panics.\<close>

lemma reachable_next:
  assumes "valid_ids ids" and "reachable False ids s" and "n \<in> set ids" and "state (nodes s n) = Leader"
  shows "0 \<le> int_at (nextIndex (nodes s n)) p" and "int_at (nextIndex (nodes s n)) p \<le> lastLogIndex (nodes s n) + 1"
    and "fst (sendAppendEntries_locked (nodes s n) p) \<noteq> SendPanic"
proof -
  have "next_ok (nodes s n)" using next_invD(1) [OF reachable_next_inv [OF assms(1,2)] assms(3)] .
  then show b: "0 \<le> int_at (nextIndex (nodes s n)) p" "int_at (nextIndex (nodes s n)) p \<le> lastLogIndex (nodes s n) + 1"
    using assms(4) by (simp_all add: next_ok_def)
  note P = plainD(3,4,7) [OF reachable_plain [OF assms(1-3)]]
  then show "fst (sendAppendEntries_locked (nodes s n) p) \<noteq> SendPanic"
    using b by (auto simp: sendAppendEntries_locked_def logIndexToSlice_def Let_def)
qed

end
