(* ===== verification/Transports.thy ===== *)
theory Transports
  imports Client
begin

text \<open>
  The transports of \<^verbatim>\<open>src/raft\<close>: the in-memory one for tests and simulations, the one over HTTP and JSON, and
  the one over \<^verbatim>\<open>net/rpc\<close> with the connection setup of \<^verbatim>\<open>src/rpcapi/dial.go\<close>.  What a network does is a
  function of the world \<open>'w\<close>, an argument.
\<close>

datatype transport_error =
    ErrPeerNotRegistered
  | ErrUnknownPeer node_id
  | ErrContext string
  | ErrCall string
  | ErrResponse string
  | ErrReplyJSON

subsection \<open>LocalTransport\<close>

text \<open>The registered nodes are shared with the transport and live in its registry.\<close>

record 's LocalTransport =
  lt_nodes :: "(node_id, 's Raft) gomap"

definition NewLocalTransport :: "'s LocalTransport" where
  "NewLocalTransport = \<lparr>lt_nodes = []\<rparr>"

definition Register :: "'s Raft option \<Rightarrow> 's LocalTransport \<Rightarrow> 's LocalTransport" where
  "Register node t =
     (case node of None \<Rightarrow> t | Some r \<Rightarrow> t\<lparr>lt_nodes := AList.update (raft_id r) r (lt_nodes t)\<rparr>)"

definition getPeer :: "node_id \<Rightarrow> 's LocalTransport \<Rightarrow> transport_error + 's Raft" where
  "getPeer peerID t =
     (case map_of (lt_nodes t) peerID of None \<Rightarrow> Inl ErrPeerNotRegistered | Some r \<Rightarrow> Inr r)"

text \<open>\<open>ctxErr\<close> is the error of the context if it is done.  \<^term>\<open>None\<close> is a panic of the peer's handler.\<close>

definition LocalTransport_RequestVote ::
    "'s StorageOps \<Rightarrow> string option \<Rightarrow> node_id \<Rightarrow> RequestVoteArgs \<Rightarrow> 's LocalTransport
      \<Rightarrow> ((transport_error + RequestVoteReply) \<times> 's LocalTransport) option" where
  "LocalTransport_RequestVote ops ctxErr peerID args t =
     (case getPeer peerID t of
        Inl e \<Rightarrow> Some (Inl e, t)
      | Inr peer \<Rightarrow>
          (case ctxErr of
             Some e \<Rightarrow> Some (Inl (ErrContext e), t)
           | None \<Rightarrow>
               let (reply, r) = HandleRequestVote ops peer args
               in Some (Inr reply, t\<lparr>lt_nodes := AList.update peerID r (lt_nodes t)\<rparr>)))"

definition LocalTransport_AppendEntries ::
    "'s StorageOps \<Rightarrow> string option \<Rightarrow> node_id \<Rightarrow> AppendEntriesArgs \<Rightarrow> 's LocalTransport
      \<Rightarrow> ((transport_error + AppendEntriesReply) \<times> 's LocalTransport) option" where
  "LocalTransport_AppendEntries ops ctxErr peerID args t =
     (case getPeer peerID t of
        Inl e \<Rightarrow> Some (Inl e, t)
      | Inr peer \<Rightarrow>
          (case ctxErr of
             Some e \<Rightarrow> Some (Inl (ErrContext e), t)
           | None \<Rightarrow>
               (case HandleAppendEntries ops peer args of
                  None \<Rightarrow> None
                | Some (reply, r) \<Rightarrow> Some (Inr reply, t\<lparr>lt_nodes := AList.update peerID r (lt_nodes t)\<rparr>))))"

definition LocalTransport_InstallSnapshot ::
    "'s StorageOps \<Rightarrow> string option \<Rightarrow> node_id \<Rightarrow> InstallSnapshotArgs \<Rightarrow> 's LocalTransport
      \<Rightarrow> ((transport_error + InstallSnapshotReply) \<times> 's LocalTransport) option" where
  "LocalTransport_InstallSnapshot ops ctxErr peerID args t =
     (case getPeer peerID t of
        Inl e \<Rightarrow> Some (Inl e, t)
      | Inr peer \<Rightarrow>
          (case ctxErr of
             Some e \<Rightarrow> Some (Inl (ErrContext e), t)
           | None \<Rightarrow>
               let (reply, r) = HandleInstallSnapshot ops peer args
               in Some (Inr reply, t\<lparr>lt_nodes := AList.update peerID r (lt_nodes t)\<rparr>)))"

subsection \<open>HTTPTransport\<close>

record HTTPTransport =
  ht_peers :: "(node_id, string) gomap"

definition NewHTTPTransport :: "(node_id, string) gomap \<Rightarrow> HTTPTransport" where
  "NewHTTPTransport addrs = \<lparr>ht_peers = addrs\<rparr>"

text \<open>
  \<open>send\<close> is the \<^verbatim>\<open>http.Client\<close>: its error, or the response with its body; building the request for a
  malformed address fails in the same way.
\<close>

definition postJSON ::
    "'w http_do \<Rightarrow> string \<Rightarrow> json \<Rightarrow> (json \<Rightarrow> 'r option) \<Rightarrow> 'w \<Rightarrow> (transport_error + 'r) \<times> 'w" where
  "postJSON send url reqBody decode w =
     (let data = Marshal reqBody
      in case send ''POST'' url data w of
           (Inl e, w) \<Rightarrow> (Inl (ErrCall e), w)
         | (Inr res, w) \<Rightarrow>
             if rsp_Status res \<noteq> 200 then (Inl (ErrResponse (rsp_Body res)), w)
             else (case Option.bind (decode_first (rsp_Body res)) decode of
                     None \<Rightarrow> (Inl ErrReplyJSON, w)
                   | Some reply \<Rightarrow> (Inr reply, w)))"

definition raft_url :: "string \<Rightarrow> string \<Rightarrow> string" where
  "raft_url addr path = ''http://'' @ addr @ path"

definition HTTPTransport_RequestVote ::
    "'w http_do \<Rightarrow> HTTPTransport \<Rightarrow> node_id \<Rightarrow> RequestVoteArgs \<Rightarrow> 'w \<Rightarrow> (transport_error + RequestVoteReply) \<times> 'w" where
  "HTTPTransport_RequestVote send t peerID args w =
     (case map_of (ht_peers t) peerID of
        None \<Rightarrow> (Inl (ErrUnknownPeer peerID), w)
      | Some addr \<Rightarrow>
          postJSON send (raft_url addr ''/raft/request-vote'') (json_RequestVoteArgs args) decode_RequestVoteReply w)"

definition HTTPTransport_AppendEntries ::
    "'w http_do \<Rightarrow> HTTPTransport \<Rightarrow> node_id \<Rightarrow> AppendEntriesArgs \<Rightarrow> 'w \<Rightarrow> (transport_error + AppendEntriesReply) \<times> 'w" where
  "HTTPTransport_AppendEntries send t peerID args w =
     (case map_of (ht_peers t) peerID of
        None \<Rightarrow> (Inl (ErrUnknownPeer peerID), w)
      | Some addr \<Rightarrow>
          postJSON send (raft_url addr ''/raft/append-entries'') (json_AppendEntriesArgs args)
            decode_AppendEntriesReply w)"

definition HTTPTransport_InstallSnapshot ::
    "'w http_do \<Rightarrow> HTTPTransport \<Rightarrow> node_id \<Rightarrow> InstallSnapshotArgs \<Rightarrow> 'w \<Rightarrow> (transport_error + InstallSnapshotReply) \<times> 'w" where
  "HTTPTransport_InstallSnapshot send t peerID args w =
     (case map_of (ht_peers t) peerID of
        None \<Rightarrow> (Inl (ErrUnknownPeer peerID), w)
      | Some addr \<Rightarrow>
          postJSON send (raft_url addr ''/raft/install-snapshot'') (json_InstallSnapshotArgs args)
            decode_InstallSnapshotReply w)"

subsection \<open>RPCTransport\<close>

text \<open>
  The connections of \<^verbatim>\<open>net\<close>: opening one, writing to it, reading an HTTP response (its code and status
  line) from it, and closing it.
\<close>

record 'w Conns =
  dialContext :: "string \<Rightarrow> 'w \<Rightarrow> (string + nat) \<times> 'w"
  connWrite :: "nat \<Rightarrow> string \<Rightarrow> 'w \<Rightarrow> string option \<times> 'w"
  readResponse :: "nat \<Rightarrow> 'w \<Rightarrow> (string + nat \<times> string) \<times> 'w"
  connClose :: "nat \<Rightarrow> 'w \<Rightarrow> 'w"

definition connectRequest :: "string \<Rightarrow> string" where
  "connectRequest path = ''CONNECT '' @ path @ '' HTTP/1.0'' @ [CHR 0x0D, CHR 0x0A, CHR 0x0D, CHR 0x0A]"

definition dialHTTPPath :: "'w Conns \<Rightarrow> string \<Rightarrow> string \<Rightarrow> 'w \<Rightarrow> (string + nat) \<times> 'w" where
  "dialHTTPPath io addr path w =
     (case dialContext io addr w of
        (Inl e, w) \<Rightarrow> (Inl e, w)
      | (Inr conn, w) \<Rightarrow>
          (case connWrite io conn (connectRequest path) w of
             (Some e, w) \<Rightarrow> (Inl e, connClose io conn w)
           | (None, w) \<Rightarrow>
               (case readResponse io conn w of
                  (Inl e, w) \<Rightarrow> (Inl e, connClose io conn w)
                | (Inr (code, status), w) \<Rightarrow>
                    if code \<noteq> 200 then (Inl (''rpc: connect failed: '' @ status), connClose io conn w)
                    else (Inr conn, w))))"

definition Dial :: "'w Conns \<Rightarrow> string \<Rightarrow> 'w \<Rightarrow> (string + nat) \<times> 'w" where
  "Dial io addr w = dialHTTPPath io addr RPCPath w"

record RPCTransport =
  rt_peers :: "(node_id, string) gomap"

definition NewRPCTransport :: "(node_id, string) gomap \<Rightarrow> RPCTransport" where
  "NewRPCTransport addrs = \<lparr>rt_peers = addrs\<rparr>"

text \<open>
  \<open>invoke\<close> calls a method by name over a connection; \<open>ctxErr\<close> is the error of a context that ends before
  the call returns, which the caller then no longer waits for.
\<close>

definition RPCTransport_call ::
    "'w Conns \<Rightarrow> (nat \<Rightarrow> string \<Rightarrow> 'a \<Rightarrow> 'w \<Rightarrow> (string + 'r) \<times> 'w) \<Rightarrow> string option
      \<Rightarrow> RPCTransport \<Rightarrow> node_id \<Rightarrow> string \<Rightarrow> 'a \<Rightarrow> 'w \<Rightarrow> (transport_error + 'r) \<times> 'w" where
  "RPCTransport_call io invoke ctxErr t peerID meth args w =
     (case map_of (rt_peers t) peerID of
        None \<Rightarrow> (Inl (ErrUnknownPeer peerID), w)
      | Some addr \<Rightarrow>
          (case Dial io addr w of
             (Inl e, w) \<Rightarrow> (Inl (ErrCall e), w)
           | (Inr client, w) \<Rightarrow>
               let fullMethod = RaftServiceName @ ''.'' @ meth
               in case invoke client fullMethod args w of
                    (res, w) \<Rightarrow>
                      (case ctxErr of
                         Some e \<Rightarrow> (Inl (ErrContext e), connClose io client w)
                       | None \<Rightarrow>
                           (case res of
                              Inl e \<Rightarrow> (Inl (ErrCall e), connClose io client w)
                            | Inr reply \<Rightarrow> (Inr reply, connClose io client w)))))"

text \<open>The call of \<^verbatim>\<open>client.RPCClient\<close> goes over a connection of its own too; its error is a text.\<close>

definition RPCClient_call ::
    "'w Conns \<Rightarrow> (nat \<Rightarrow> string \<Rightarrow> 'a \<Rightarrow> 'w \<Rightarrow> (string + 'r) \<times> 'w) \<Rightarrow> string \<Rightarrow> string \<Rightarrow> 'a \<Rightarrow> 'w \<Rightarrow> (string + 'r) \<times> 'w" where
  "RPCClient_call io invoke addr meth args w =
     (case Dial io addr w of
        (Inl e, w) \<Rightarrow> (Inl e, w)
      | (Inr client, w) \<Rightarrow>
          (case invoke client meth args w of
             (Inl e, w) \<Rightarrow> (Inl (''rpc call '' @ meth @ '': '' @ e), connClose io client w)
           | (Inr reply, w) \<Rightarrow> (Inr reply, connClose io client w)))"

definition RPCTransport_RequestVote where
  "RPCTransport_RequestVote io invoke ctxErr t peerID (args :: RequestVoteArgs) w =
     (RPCTransport_call io invoke ctxErr t peerID ''RequestVote'' (ARequestVote args) w :: (_ + RequestVoteReply) \<times> _)"

definition RPCTransport_AppendEntries where
  "RPCTransport_AppendEntries io invoke ctxErr t peerID (args :: AppendEntriesArgs) w =
     (RPCTransport_call io invoke ctxErr t peerID ''AppendEntries'' (AAppendEntries args) w :: (_ + AppendEntriesReply) \<times> _)"

definition RPCTransport_InstallSnapshot where
  "RPCTransport_InstallSnapshot io invoke ctxErr t peerID (args :: InstallSnapshotArgs) w =
     (RPCTransport_call io invoke ctxErr t peerID ''InstallSnapshot'' (AInstallSnapshot args) w :: (_ + InstallSnapshotReply) \<times> _)"

end
