(* ===== verification/Local_Cluster.thy ===== *)
theory Local_Cluster
  imports Next_Index Transports
begin

text \<open>
  The sending goroutines of \<^verbatim>\<open>src/raft/raft.go\<close> over the in-memory transport: a whole call of
  \<^verbatim>\<open>sendAppendEntries\<close>, \<^verbatim>\<open>sendInstallSnapshot\<close> or of the vote goroutine of \<^verbatim>\<open>startElection\<close>, from the section that
  builds the request to the one that handles the reply.  Each is a run of the cluster model, so what is
  proved of all runs of the cluster holds of the nodes behind a transport; and repeating a call brings a
  follower's log up to the leader's.
\<close>

subsection \<open>Whole calls\<close>

definition put_node :: "node_id \<Rightarrow> 's Raft \<Rightarrow> 's LocalTransport \<Rightarrow> 's LocalTransport" where
  "put_node n r t = t\<lparr>lt_nodes := AList.update n r (lt_nodes t)\<rparr>"

text \<open>The caller \<open>self\<close> is registered; \<^term>\<open>None\<close> is a panic.\<close>

definition sendInstallSnapshot ::
    "'s StorageOps \<Rightarrow> string option \<Rightarrow> node_id \<Rightarrow> node_id \<Rightarrow> 's LocalTransport \<Rightarrow> 's LocalTransport option" where
  "sendInstallSnapshot ops ctxErr self peerID t =
     (case Option.bind (map_of (lt_nodes t) self) sendInstallSnapshot_locked of
        None \<Rightarrow> Some t
      | Some args \<Rightarrow>
          (case LocalTransport_InstallSnapshot ops ctxErr peerID args t of
             None \<Rightarrow> None
           | Some (Inl e, t) \<Rightarrow> Some t
           | Some (Inr reply, t) \<Rightarrow>
               Some (put_node self (handleInstallSnapshotReply ops peerID args reply (the (map_of (lt_nodes t) self))) t)))"

definition sendAppendEntries ::
    "'s StorageOps \<Rightarrow> string option \<Rightarrow> node_id \<Rightarrow> node_id \<Rightarrow> 's LocalTransport \<Rightarrow> 's LocalTransport option" where
  "sendAppendEntries ops ctxErr self peerID t =
     (case map_of (lt_nodes t) self of
        None \<Rightarrow> Some t
      | Some r \<Rightarrow>
          (case sendAppendEntries_locked r peerID of
             (NoSend, r) \<Rightarrow> Some (put_node self r t)
           | (SendPanic, r) \<Rightarrow> None
           | (GoInstallSnapshot, r) \<Rightarrow> sendInstallSnapshot ops ctxErr self peerID (put_node self r t)
           | (CallAppendEntries args, r) \<Rightarrow>
               (case LocalTransport_AppendEntries ops ctxErr peerID args (put_node self r t) of
                  None \<Rightarrow> None
                | Some (Inl e, t) \<Rightarrow> Some t
                | Some (Inr reply, t) \<Rightarrow>
                    map_option (\<lambda>r. put_node self r t)
                      (handleAppendEntriesReply ops peerID args reply (the (map_of (lt_nodes t) self))))))"

text \<open>The vote goroutine: \<open>cnt\<close> is the counter it shares with the others of its election.\<close>

definition sendRequestVote ::
    "'s StorageOps \<Rightarrow> string option \<Rightarrow> node_id \<Rightarrow> node_id \<Rightarrow> RequestVoteArgs \<Rightarrow> int \<Rightarrow> 's LocalTransport
      \<Rightarrow> (int \<times> Effect list \<times> 's LocalTransport) option" where
  "sendRequestVote ops ctxErr self peerID args cnt t =
     (case LocalTransport_RequestVote ops ctxErr peerID args t of
        None \<Rightarrow> None
      | Some (Inl e, t) \<Rightarrow> Some (cnt, [], t)
      | Some (Inr reply, t) \<Rightarrow>
          (case handleVoteReply ops (rva_Term args) reply cnt (the (map_of (lt_nodes t) self)) of
             (cnt, r, effs) \<Rightarrow> Some (cnt, effs, put_node self r t)))"

subsection \<open>Runs of the cluster\<close>

definition registry :: "node_id list \<Rightarrow> cluster \<Rightarrow> MemoryStorage LocalTransport \<Rightarrow> bool" where
  "registry ids s t \<longleftrightarrow> list_all (\<lambda>q. map_of (lt_nodes t) q = Some (nodes s q)) ids"

definition leads_to :: "bool \<Rightarrow> node_id list \<Rightarrow> cluster \<Rightarrow> cluster \<Rightarrow> bool" where
  "leads_to compact ids s s' \<longleftrightarrow> (\<exists>evs. cluster_run compact ids evs s = Some s')"

lemma cluster_run_append:
  "cluster_run compact ids (es @ es') s = Option.bind (cluster_run compact ids es s) (cluster_run compact ids es')"
  by (induction es arbitrary: s) (auto split: option.split)

lemma leads_to_refl [simp, intro]: "leads_to compact ids s s"
  unfolding leads_to_def by (rule exI [of _ "[]"]) simp

lemma leads_to_trans [trans]:
  assumes "leads_to compact ids s s'" and "leads_to compact ids s' s''"
  shows "leads_to compact ids s s''"
proof -
  obtain es es' where "cluster_run compact ids es s = Some s'" "cluster_run compact ids es' s' = Some s''"
    using assms by (auto simp: leads_to_def)
  then have "cluster_run compact ids (es @ es') s = Some s''" by (simp add: cluster_run_append)
  then show ?thesis unfolding leads_to_def by blast
qed

lemma leads_to_step:
  assumes "cluster_exec compact ids ev s = Some s'"
  shows "leads_to compact ids s s'"
  unfolding leads_to_def by (rule exI [of _ "[ev]"]) (simp add: assms)

lemma leads_to_reachable: "leads_to compact ids s s' \<Longrightarrow> reachable compact ids s \<Longrightarrow> reachable compact ids s'"
  unfolding leads_to_def using cluster_run_reachable by blast

lemma registryD: "registry ids s t \<Longrightarrow> q \<in> set ids \<Longrightarrow> map_of (lt_nodes t) q = Some (nodes s q)"
  by (simp add: registry_def list_all_iff)

lemma registry_put:
  assumes "registry ids s t" and "nodes s' = (nodes s)(n := r)"
  shows "registry ids s' (put_node n r t)"
  using assms by (simp add: registry_def list_all_iff put_node_def update_conv)

text \<open>The apply loop of a node is a run of its sections.\<close>

lemma set_node_id [simp]: "set_node n (nodes s n) s = s"
  by (simp add: set_node_def)

lemma set_node_twice [simp]: "set_node n r' (set_node n r s) = set_node n r' s"
  by (simp add: set_node_def)

lemma set_node_sel [simp]: "nodes (set_node n r s) = (nodes s)(n := r)" "msgs (set_node n r s) = msgs s"
    "pending (set_node n r s) = pending s" "votes (set_node n r s) = votes s"
  by (simp_all add: set_node_def)

lemma send_sel [simp]: "nodes (send ms s) = nodes s" "msgs (send ms s) = ms @ msgs s"
    "pending (send ms s) = pending s" "votes (send ms s) = votes s"
  by (simp_all add: send_def)

lemma apply_leads_to:
  assumes "applyCommitted r = Some r'" and "n \<in> set ids"
  shows "leads_to compact ids (set_node n r s) (set_node n r' s)"
  using assms(1)
proof (induction r rule: applyCommitted.induct)
  case (1 r)
  show ?case
  proof (cases "applyCommitted_take r")
    case ApplyDone
    with "1.prems" show ?thesis by (simp add: applyCommitted.simps [of r])
  next
    case ApplyPanic
    with "1.prems" show ?thesis by (simp add: applyCommitted.simps [of r])
  next
    case (ApplyNext r1 entry ch)
    let ?r2 = "applyCommitted_deliver entry ch r1"
    have "applyCommitted ?r2 = Some r'" using "1.prems" ApplyNext by (simp add: applyCommitted.simps [of r])
    from "1.IH" [OF ApplyNext this] have rest: "leads_to compact ids (set_node n ?r2 s) (set_node n r' s)" .
    have "cluster_exec compact ids (Local n EvApplyTake) (set_node n r s) = Some (set_node n r1 s)"
      using assms(2) ApplyNext by simp
    moreover have "cluster_exec compact ids (Local n (EvApplyDeliver entry ch)) (set_node n r1 s) = Some (set_node n ?r2 s)"
      using assms(2) by simp
    ultimately show ?thesis using leads_to_step leads_to_trans rest by blast
  qed
qed

lemma send_set_node: "send ms (set_node n r s) = set_node n r (send ms s)"
  by (simp add: send_def set_node_def)

lemma apply_if_leads_to:
  assumes "(if b then applyCommitted r else Some r) = Some r'" and "n \<in> set ids"
  shows "leads_to compact ids (set_node n r s) (set_node n r' s)"
  using assms apply_leads_to by (cases b) auto

text \<open>The three requests and their replies, with everything the handlers do afterwards.\<close>

lemma append_request_leads:
  assumes h: "HandleAppendEntries memory_ops (nodes s p) args = Some (reply, r)"
    and "AppendReq p args \<in> set (msgs s)" and "p \<in> set ids"
  shows "leads_to compact ids s (set_node p r (send [AppendRep p args reply] s))"
proof -
  obtain reply' r1 ap where l: "HandleAppendEntries_locked memory_ops (nodes s p) args = (reply', r1, ap)"
    by (cases "HandleAppendEntries_locked memory_ops (nodes s p) args") auto
  then have ap: "(if ap then applyCommitted r1 else Some r1) = Some r" "reply' = reply"
    using h by (auto simp: HandleAppendEntries_def split: if_splits option.splits)
  have "cluster_exec compact ids (DeliverAppendReq p args) s =
      Some (set_node p r1 (send [AppendRep p args reply] s))"
    using assms(2) l ap(2) by (simp add: send_set_node)
  then show ?thesis using apply_if_leads_to [OF ap(1) assms(3)] leads_to_step leads_to_trans by blast
qed

lemma advance_leads:
  assumes "advanceCommitIndex memory_ops r = Some r'" and "n \<in> set ids"
  shows "leads_to compact ids (set_node n r s) (set_node n r' s)"
proof -
  obtain r1 adv where l: "advanceCommitIndex_locked memory_ops r = (r1, adv)" by fastforce
  have "cluster_exec compact ids (AdvanceCommit n) (set_node n r s) = Some (set_node n r1 s)"
    using assms(2) l by simp
  moreover have "(if adv then applyCommitted r1 else Some r1) = Some r'"
    using assms(1) l by (simp add: advanceCommitIndex_def)
  ultimately show ?thesis using apply_if_leads_to [OF _ assms(2)] leads_to_step leads_to_trans by blast
qed

lemma append_reply_leads:
  assumes h: "handleAppendEntriesReply memory_ops p args reply (nodes s n) = Some r"
    and "AppendRep p args reply \<in> set (msgs s)" and "n = aea_LeaderID args" and "n \<in> set ids"
  shows "leads_to compact ids s (set_node n r s)"
proof -
  obtain r1 m where l: "handleAppendEntriesReply_locked memory_ops p args reply (nodes s n) = (r1, m)" by fastforce
  have "cluster_exec compact ids (DeliverAppendRep p args reply) s = Some (set_node n r1 s)"
    using assms(2,3) l by (simp add: Let_def)
  then have 1: "leads_to compact ids s (set_node n r1 s)" by (rule leads_to_step)
  have "leads_to compact ids (set_node n r1 s) (set_node n r s)"
    using h l advance_leads [of r1 r n ids compact s] assms(4)
    by (cases m) (auto simp: handleAppendEntriesReply_def)
  with 1 show ?thesis by (rule leads_to_trans)
qed

lemma snapshot_request_leads:
  assumes h: "HandleInstallSnapshot memory_ops (nodes s p) args = (reply, r)"
    and "SnapReq p args \<in> set (msgs s)" and "p \<in> set ids"
  shows "leads_to compact ids s (set_node p r (send [SnapRep p args reply] s))"
proof -
  obtain reply' r1 m where l: "HandleInstallSnapshot_locked memory_ops (nodes s p) args = (reply', r1, m)"
    by (cases "HandleInstallSnapshot_locked memory_ops (nodes s p) args") auto
  let ?s1 = "set_node p r1 (send [SnapRep p args reply] s)"
  have 1: "cluster_exec compact ids (DeliverSnapReq p args) s = Some ?s1"
    using assms(1,2) l by (simp add: HandleInstallSnapshot_def send_set_node)
  show ?thesis
  proof (cases m)
    case None
    with h l have "r = r1" by (simp add: HandleInstallSnapshot_def)
    with 1 show ?thesis using leads_to_step by blast
  next
    case (Some msg)
    with h l have r: "r = r1\<lparr>applyCh := applyCh r1 @ [msg]\<rparr>" by (simp add: HandleInstallSnapshot_def)
    have "cluster_exec compact ids (Local p (EvSnapshotDeliver msg)) ?s1 = Some (set_node p r (send [SnapRep p args reply] s))"
      using assms(3) by (simp add: r)
    with 1 show ?thesis using leads_to_step leads_to_trans by blast
  qed
qed

lemma snapshot_reply_leads:
  assumes "SnapRep p args reply \<in> set (msgs s)" and "n = isa_LeaderID args"
  shows "leads_to compact ids s (set_node n (handleInstallSnapshotReply memory_ops p args reply (nodes s n)) s)"
  by (rule leads_to_step [of _ _ "DeliverSnapRep p args reply"]) (use assms in \<open>simp add: Let_def\<close>)

subsection \<open>Each whole call is such a run\<close>

lemma registry_set_node: "registry ids s t \<Longrightarrow> registry ids (set_node n r s) (put_node n r t)"
  by (rule registry_put) simp_all

lemma registry_send [simp]: "registry ids (send ms s) t = registry ids s t"
  by (simp add: registry_def)

lemma snapshot_call_leads:
  assumes reg: "registry ids s t" and ids: "n \<in> set ids" "p \<in> set ids" and neq: "n \<noteq> p"
    and snd: "sendInstallSnapshot_locked (nodes s n) = Some args" and msg: "SnapReq p args \<in> set (msgs s)"
    and id: "raft_id (nodes s n) = n"
    and call: "sendInstallSnapshot memory_ops ctxErr n p t = Some t'"
  shows "\<exists>s'. leads_to compact ids s s' \<and> registry ids s' t'"
proof (cases ctxErr)
  case (Some e)
  have "t' = t"
    using call Some registryD [OF reg ids(1)] registryD [OF reg ids(2)] snd
    by (simp add: sendInstallSnapshot_def LocalTransport_InstallSnapshot_def getPeer_def)
  with reg show ?thesis using leads_to_refl by blast
next
  case None
  obtain reply r where h: "HandleInstallSnapshot memory_ops (nodes s p) args = (reply, r)" by fastforce
  let ?s1 = "set_node p r (send [SnapRep p args reply] s)"
  let ?r' = "handleInstallSnapshotReply memory_ops p args reply (nodes s n)"
  have t': "t' = put_node n ?r' (put_node p r t)"
    using call None registryD [OF reg ids(1)] registryD [OF reg ids(2)] snd h neq
    by (simp add: sendInstallSnapshot_def LocalTransport_InstallSnapshot_def getPeer_def put_node_def update_conv)
  have leader: "n = isa_LeaderID args" using snd id by (auto simp: sendInstallSnapshot_locked_def split: if_splits)
  have "leads_to compact ids s ?s1" using h msg ids(2) by (rule snapshot_request_leads)
  also have "leads_to compact ids ?s1 (set_node n ?r' ?s1)"
    using snapshot_reply_leads [of p args reply ?s1 n compact ids] leader neq by simp
  finally have "leads_to compact ids s (set_node n ?r' ?s1)" .
  moreover have "registry ids (set_node n ?r' ?s1) t'"
    unfolding t' by (intro registry_set_node) (simp add: reg)
  ultimately show ?thesis by blast
qed

lemma append_call_leads:
  assumes reg: "registry ids s t" and ids: "n \<in> set ids" "p \<in> set ids" and neq: "n \<noteq> p"
    and id: "raft_id (nodes s n) = n" and peer: "p \<in> fst ` set (peers (nodes s n))"
    and call: "sendAppendEntries memory_ops ctxErr n p t = Some t'"
  shows "\<exists>s'. leads_to compact ids s s' \<and> registry ids s' t'"
proof -
  note N = registryD [OF reg ids(1)] and P = registryD [OF reg ids(2)]
  obtain st r where snd: "sendAppendEntries_locked (nodes s n) p = (st, r)" by fastforce
  have id': "raft_id r = n"
    using sendAppendEntries_locked_shape [of "nodes s n" p] snd id by auto
  note exec = cluster_exec.simps(7) [of compact ids n p s]
  show ?thesis
  proof (cases st)
    case NoSend
    then have "cluster_exec compact ids (SendAppend n p) s = Some (set_node n r s)" using ids(1) peer snd by simp
    moreover have "t' = put_node n r t" using call N snd NoSend by (simp add: sendAppendEntries_def)
    ultimately show ?thesis using leads_to_step registry_set_node [OF reg] by blast
  next
    case SendPanic
    with call N snd show ?thesis by (simp add: sendAppendEntries_def)
  next
    case GoInstallSnapshot
    have call': "sendInstallSnapshot memory_ops ctxErr n p (put_node n r t) = Some t'"
      using call N snd GoInstallSnapshot by (simp add: sendAppendEntries_def)
    show ?thesis
    proof (cases "sendInstallSnapshot_locked r")
      case None
      then have "cluster_exec compact ids (SendAppend n p) s = Some (set_node n r s)"
        using ids(1) peer snd GoInstallSnapshot by simp
      moreover have "t' = put_node n r t"
        using call' None by (simp add: sendInstallSnapshot_def put_node_def update_conv)
      ultimately show ?thesis using leads_to_step registry_set_node [OF reg] by blast
    next
      case (Some args)
      let ?s1 = "send [SnapReq p args] (set_node n r s)"
      have "cluster_exec compact ids (SendAppend n p) s = Some ?s1"
        using ids(1) peer snd GoInstallSnapshot Some by simp
      then have 1: "leads_to compact ids s ?s1" by (rule leads_to_step)
      have "registry ids ?s1 (put_node n r t)" by (simp add: registry_set_node reg)
      from snapshot_call_leads [OF this ids neq _ _ _ call', of args compact] Some id' 1
      show ?thesis using leads_to_trans by fastforce
    qed
  next
    case (CallAppendEntries args)
    let ?s1 = "send [AppendReq p args] (set_node n r s)"
    have "cluster_exec compact ids (SendAppend n p) s = Some ?s1"
      using ids(1) peer snd CallAppendEntries by simp
    then have 1: "leads_to compact ids s ?s1" by (rule leads_to_step)
    have reg1: "registry ids ?s1 (put_node n r t)" by (simp add: registry_set_node reg)
    show ?thesis
    proof (cases ctxErr)
      case (Some e)
      have "t' = put_node n r t"
        using call Some N P snd CallAppendEntries neq
        by (simp add: sendAppendEntries_def LocalTransport_AppendEntries_def getPeer_def put_node_def update_conv)
      with 1 reg1 show ?thesis by blast
    next
      case None
      from call None N P snd CallAppendEntries neq obtain reply rp where
        h: "HandleAppendEntries memory_ops (nodes s p) args = Some (reply, rp)"
        by (auto simp: sendAppendEntries_def LocalTransport_AppendEntries_def getPeer_def put_node_def update_conv
            split: option.splits)
      from call None N P snd CallAppendEntries neq h obtain rn where
        rn: "handleAppendEntriesReply memory_ops p args reply r = Some rn"
          "t' = put_node n rn (put_node p rp (put_node n r t))"
        by (auto simp: sendAppendEntries_def LocalTransport_AppendEntries_def getPeer_def put_node_def update_conv)
      have leader: "n = aea_LeaderID args"
        using snd CallAppendEntries id id' by (auto simp: sendAppendEntries_locked_def Let_def split: if_splits)
      let ?s2 = "set_node p rp (send [AppendRep p args reply] ?s1)"
      have "leads_to compact ids ?s1 ?s2"
        using append_request_leads [of ?s1 p args reply rp ids compact] h neq ids(2) by simp
      moreover have "leads_to compact ids ?s2 (set_node n rn ?s2)"
        using append_reply_leads [of p args reply ?s2 n rn ids compact] rn(1) neq ids(1) leader by simp
      moreover have "registry ids (set_node n rn ?s2) t'"
        unfolding rn(2) by (intro registry_set_node) (use reg1 in simp)
      ultimately show ?thesis using 1 leads_to_trans by blast
    qed
  qed
qed

text \<open>A vote goroutine whose request is in the network and that is still waiting for its reply.\<close>

lemma vote_call_leads:
  assumes reg: "registry ids s t" and ids: "n \<in> set ids" "p \<in> set ids" and neq: "n \<noteq> p"
    and msg: "VoteReq p args \<in> set (msgs s)" and cand: "rva_CandidateID args = n"
    and pend: "(n, rva_Term args, p) \<in> set (pending s)"
    and call: "sendRequestVote memory_ops ctxErr n p args (votes s (n, rva_Term args)) t = Some (cnt, effs, t')"
  shows "\<exists>s'. leads_to compact ids s s' \<and> registry ids s' t' \<and> votes s' (n, rva_Term args) = cnt"
proof (cases ctxErr)
  case (Some e)
  have "t' = t" "cnt = votes s (n, rva_Term args)"
    using call Some registryD [OF reg ids(2)]
    by (auto simp: sendRequestVote_def LocalTransport_RequestVote_def getPeer_def)
  with reg show ?thesis using leads_to_refl by blast
next
  case None
  obtain reply rp where h: "HandleRequestVote memory_ops (nodes s p) args = (reply, rp)" by fastforce
  let ?s1 = "send [VoteRep n (rva_Term args) p reply] (set_node p rp s)"
  have 1: "cluster_exec compact ids (DeliverVoteReq p args) s = Some ?s1" using msg h cand by simp
  obtain v r ef where hv: "handleVoteReply memory_ops (rva_Term args) reply (votes s (n, rva_Term args)) (nodes s n) = (v, r, ef)"
    by (cases "handleVoteReply memory_ops (rva_Term args) reply (votes s (n, rva_Term args)) (nodes s n)") auto
  let ?s2 = "set_node n r ?s1\<lparr>pending := filter (\<lambda>w. w \<noteq> (n, rva_Term args, p)) (pending ?s1),
      votes := (votes ?s1)((n, rva_Term args) := v)\<rparr>"
  have 2: "cluster_exec compact ids (DeliverVoteRep n (rva_Term args) p reply) ?s1 = Some ?s2"
    using pend hv neq by simp
  have t': "t' = put_node n r (put_node p rp t)" "cnt = v"
    using call None registryD [OF reg ids(1)] registryD [OF reg ids(2)] h hv neq
    by (auto simp: sendRequestVote_def LocalTransport_RequestVote_def getPeer_def put_node_def update_conv)
  have "registry ids ?s2 t'"
    unfolding t' using registry_set_node [OF registry_set_node [OF reg]] by (simp add: registry_def)
  moreover have "leads_to compact ids s ?s2" using leads_to_step [OF 1] leads_to_step [OF 2] by (rule leads_to_trans)
  moreover have "votes ?s2 (n, rva_Term args) = cnt" using t'(2) by simp
  ultimately show ?thesis by blast
qed

subsection \<open>Catching up\<close>

lemma reachable_step: "reachable compact ids s \<Longrightarrow> cluster_exec compact ids ev s = Some s' \<Longrightarrow> reachable compact ids s'"
  by (rule reach_step)

lemma advance_total:
  assumes "valid_ids ids" and "n \<in> set ids" and "reachable False ids (set_node n r s)"
  shows "\<exists>r'. advanceCommitIndex memory_ops r = Some r' \<and> state r' = state r \<and> currentTerm r' = currentTerm r \<and>
    raft_log r' = raft_log r \<and> logOffset r' = logOffset r \<and> matchIndex r' = matchIndex r \<and> nextIndex r' = nextIndex r"
proof -
  obtain r1 adv where l: "advanceCommitIndex_locked memory_ops r = (r1, adv)" by fastforce
  have f: "state r1 = state r \<and> currentTerm r1 = currentTerm r \<and> raft_log r1 = raft_log r \<and> logOffset r1 = logOffset r \<and>
      matchIndex r1 = matchIndex r \<and> nextIndex r1 = nextIndex r"
    using l by (cases memory_ops r rule: advanceCommitIndex_locked_cases) auto
  have "cluster_exec False ids (AdvanceCommit n) (set_node n r s) = Some (set_node n r1 s)" using assms(2) l by simp
  then have "reachable False ids (set_node n r1 s)" by (rule reachable_step [OF assms(3)])
  from plainD(2) [OF reachable_plain [OF assms(1) this assms(2)]] obtain r2 where
    r2: "applyCommitted r1 = Some r2" using raft_inv_apply_total by auto
  show ?thesis
    using f l r2 applyCommitted_frame [OF r2] by (cases adv) (simp_all add: advanceCommitIndex_def)
qed

lemma append_total:
  assumes "valid_ids ids" and "p \<in> set ids" and "reachable False ids s" and "AppendReq p args \<in> set (msgs s)"
    and l: "HandleAppendEntries_locked memory_ops (nodes s p) args = (reply, r1, ap)"
  shows "\<exists>r. HandleAppendEntries memory_ops (nodes s p) args = Some (reply, r) \<and> currentTerm r = currentTerm r1 \<and>
    raft_log r = raft_log r1 \<and> logOffset r = logOffset r1"
proof -
  have "cluster_exec False ids (DeliverAppendReq p args) s = Some (set_node p r1 (send [AppendRep p args reply] s))"
    using assms(4) l by (simp add: send_set_node)
  then have "reachable False ids (set_node p r1 (send [AppendRep p args reply] s))" by (rule reachable_step [OF assms(3)])
  from plainD(2) [OF reachable_plain [OF assms(1) this assms(2)]] obtain r2 where
    r2: "applyCommitted r1 = Some r2" using raft_inv_apply_total by auto
  show ?thesis using l r2 applyCommitted_frame [OF r2] by (cases ap) (simp_all add: HandleAppendEntries_def)
qed

text \<open>The next index a leader uses for a peer: one past its log if none is noted.\<close>

definition next_of :: "'s Raft \<Rightarrow> node_id \<Rightarrow> int" where
  "next_of r p = (if int_at (nextIndex r) p = 0 then lastLogIndex r + 1 else int_at (nextIndex r) p)"

lemma sendAppendEntries_known:
  assumes "state r = Leader" and "hasTransport r" and "logOffset r = 0"
    and "1 \<le> next_of r p" and "next_of r p \<le> lastLogIndex r + 1"
  shows "\<exists>r' args. sendAppendEntries_locked r p = (CallAppendEntries args, r') \<and>
    (\<exists>nx. r' = r\<lparr>nextIndex := nx\<rparr>) \<and> aea_Term args = currentTerm r \<and> aea_LeaderID args = raft_id r \<and>
    aea_PrevLogIndex args = next_of r p - 1 \<and> aea_PrevLogTerm args = termAt r (next_of r p - 1) \<and>
    aea_Entries args = drop (nat (next_of r p)) (raft_log r)"
proof -
  define nx where "nx = (if int_at (nextIndex r) p = 0 then AList.update p (lastLogIndex r + 1) (nextIndex r) else nextIndex r)"
  have "sendAppendEntries_locked r p = (CallAppendEntries \<lparr>aea_Term = currentTerm r, aea_LeaderID = raft_id r,
      aea_PrevLogIndex = next_of r p - 1, aea_PrevLogTerm = termAt r (next_of r p - 1),
      aea_Entries = drop (nat (next_of r p)) (raft_log r), aea_LeaderCommit = commitIndex r\<rparr>, r\<lparr>nextIndex := nx\<rparr>)"
    using assms
    by (auto simp: sendAppendEntries_locked_def Let_def next_of_def nx_def logIndexToSlice_def lastLogIndex_def)
  then show ?thesis by auto
qed

text \<open>A leader and a follower that is not ahead of it, behind a transport.\<close>

definition duo :: "node_id list \<Rightarrow> node_id \<Rightarrow> node_id \<Rightarrow> cluster \<Rightarrow> MemoryStorage LocalTransport \<Rightarrow> bool" where
  "duo ids n p s t \<longleftrightarrow> valid_ids ids \<and> reachable False ids s \<and> registry ids s t \<and> n \<in> set ids \<and> p \<in> set ids \<and> n \<noteq> p \<and>
     state (nodes s n) = Leader \<and> currentTerm (nodes s p) \<le> currentTerm (nodes s n) \<and>
     1 \<le> next_of (nodes s n) p \<and> next_of (nodes s n) p \<le> lastLogIndex (nodes s n) + 1"

text \<open>After a round the leader is the same but for what it knows of the peer and has committed.\<close>

definition same_leader :: "mraft \<Rightarrow> mraft \<Rightarrow> bool" where
  "same_leader r r' \<longleftrightarrow> state r' = Leader \<and> currentTerm r' = currentTerm r \<and> raft_log r' = raft_log r \<and>
     logOffset r' = logOffset r"

lemma same_leader_trans: "same_leader r r' \<Longrightarrow> same_leader r' r'' \<Longrightarrow> same_leader r r''"
  by (simp add: same_leader_def)

text \<open>The first half of a round: the request and the follower's answer.\<close>

definition asked :: "node_id \<Rightarrow> node_id \<Rightarrow> AppendEntriesArgs \<Rightarrow> mraft \<Rightarrow> cluster \<Rightarrow> cluster" where
  "asked n p args r s = send [AppendReq p args] (set_node n r s)"

definition answered :: "node_id \<Rightarrow> node_id \<Rightarrow> AppendEntriesArgs \<Rightarrow> AppendEntriesReply \<Rightarrow> mraft \<Rightarrow> mraft \<Rightarrow> cluster \<Rightarrow> cluster" where
  "answered n p args reply r rp s = set_node p rp (send [AppendRep p args reply] (asked n p args r s))"

lemma duoD:
  assumes "duo ids n p s t"
  shows "valid_ids ids" "reachable False ids s" "registry ids s t" "n \<in> set ids" "p \<in> set ids" "n \<noteq> p"
    "state (nodes s n) = Leader" "currentTerm (nodes s p) \<le> currentTerm (nodes s n)"
    "1 \<le> next_of (nodes s n) p" "next_of (nodes s n) p \<le> lastLogIndex (nodes s n) + 1"
    "plain (nodes s n)" "plain (nodes s p)" "node_ok ids n (nodes s n)"
  using assms reachable_plain election_invD(1) [OF reachable_election_inv] by (auto simp: duo_def)

lemma request_half:
  assumes D: "duo ids n p s t"
  obtains args reply r r1 ap rp where
    "sendAppendEntries_locked (nodes s n) p = (CallAppendEntries args, r)"
    "HandleAppendEntries_locked memory_ops (nodes s p) args = (reply, r1, ap)"
    "HandleAppendEntries memory_ops (nodes s p) args = Some (reply, rp)"
    "raft_log rp = raft_log r1" "currentTerm rp = currentTerm r1" "logOffset rp = logOffset r1"
    "\<exists>nx. r = (nodes s n)\<lparr>nextIndex := nx\<rparr>"
    "aea_Term args = currentTerm (nodes s n)" "aea_LeaderID args = n"
    "aea_PrevLogIndex args = next_of (nodes s n) p - 1" "aea_PrevLogTerm args = termAt (nodes s n) (next_of (nodes s n) p - 1)"
    "aea_Entries args = drop (nat (next_of (nodes s n) p)) (raft_log (nodes s n))"
    "leads_to False ids s (answered n p args reply r rp s)" "reachable False ids (asked n p args r s)"
proof -
  note d = duoD [OF D]
  have ok: "raft_id (nodes s n) = n" "hasTransport (nodes s n)" "p \<in> fst ` set (peers (nodes s n))"
    using d(13,5,6) by (auto simp: node_ok_def image_image)
  obtain args r where snd: "sendAppendEntries_locked (nodes s n) p = (CallAppendEntries args, r)"
    and f: "\<exists>nx. r = (nodes s n)\<lparr>nextIndex := nx\<rparr>" "aea_Term args = currentTerm (nodes s n)" "aea_LeaderID args = n"
      "aea_PrevLogIndex args = next_of (nodes s n) p - 1" "aea_PrevLogTerm args = termAt (nodes s n) (next_of (nodes s n) p - 1)"
      "aea_Entries args = drop (nat (next_of (nodes s n) p)) (raft_log (nodes s n))"
    using sendAppendEntries_known [OF d(7) ok(2) plainD(3) [OF d(11)] d(9,10)] ok(1) by auto
  have "cluster_exec False ids (SendAppend n p) s = Some (asked n p args r s)"
    using d(4) ok(3) snd by (simp add: asked_def)
  then have 1: "leads_to False ids s (asked n p args r s)" by (rule leads_to_step)
  then have reach: "reachable False ids (asked n p args r s)" using d(2) by (rule leads_to_reachable)
  have same: "nodes (asked n p args r s) p = nodes s p" using d(6) by (simp add: asked_def)
  have msg: "AppendReq p args \<in> set (msgs (asked n p args r s))" by (simp add: asked_def)
  obtain reply r1 ap where l: "HandleAppendEntries_locked memory_ops (nodes s p) args = (reply, r1, ap)"
    by (cases "HandleAppendEntries_locked memory_ops (nodes s p) args") auto
  obtain rp where rp: "HandleAppendEntries memory_ops (nodes s p) args = Some (reply, rp)" "currentTerm rp = currentTerm r1"
      "raft_log rp = raft_log r1" "logOffset rp = logOffset r1"
    using append_total [OF d(1,5) reach msg] l same by auto
  have "leads_to False ids (asked n p args r s) (answered n p args reply r rp s)"
    unfolding answered_def using append_request_leads [OF _ msg d(5)] rp(1) same by simp
  with 1 have "leads_to False ids s (answered n p args reply r rp s)" by (rule leads_to_trans)
  with snd l rp f reach show thesis by (intro that) simp_all
qed

text \<open>What the whole call returns, once both halves are known.\<close>

lemma call_result:
  assumes D: "duo ids n p s t" and snd: "sendAppendEntries_locked (nodes s n) p = (CallAppendEntries args, r)"
    and h: "HandleAppendEntries memory_ops (nodes s p) args = Some (reply, rp)"
    and rn: "handleAppendEntriesReply memory_ops p args reply r = Some rn" and leader: "aea_LeaderID args = n"
    and lead: "leads_to False ids s (answered n p args reply r rp s)"
  shows "\<exists>t' s'. sendAppendEntries memory_ops None n p t = Some t' \<and> registry ids s' t' \<and> leads_to False ids s s' \<and>
    nodes s' = (nodes s)(p := rp, n := rn)"
proof -
  note d = duoD [OF D]
  note N = registryD [OF d(3,4)] and P = registryD [OF d(3,5)]
  let ?s2 = "answered n p args reply r rp s"
  let ?t' = "put_node n rn (put_node p rp (put_node n r t))"
  have s2: "nodes ?s2 n = r" "AppendRep p args reply \<in> set (msgs ?s2)" using d(6) by (simp_all add: answered_def asked_def)
  have "leads_to False ids ?s2 (set_node n rn ?s2)"
    by (rule append_reply_leads [OF _ s2(2) leader [symmetric] d(4)]) (simp add: s2(1) rn)
  with lead have "leads_to False ids s (set_node n rn ?s2)" by (rule leads_to_trans)
  moreover have "registry ids (set_node n rn ?s2) ?t'"
    unfolding answered_def asked_def by (intro registry_set_node) (use registry_set_node [OF d(3)] in simp)
  moreover have "sendAppendEntries memory_ops None n p t = Some ?t'"
    using N P snd h rn d(6)
    by (simp add: sendAppendEntries_def LocalTransport_AppendEntries_def getPeer_def put_node_def update_conv)
  moreover have "nodes (set_node n rn ?s2) = (nodes s)(p := rp, n := rn)"
    using d(6) by (auto simp: answered_def asked_def fun_eq_iff)
  ultimately show ?thesis by blast
qed

text \<open>An accepted request: the follower has the leader's log and the leader knows it.\<close>

lemma accepted_round:
  assumes D: "duo ids n p s t" and snd: "sendAppendEntries_locked (nodes s n) p = (CallAppendEntries args, r)"
    and l: "HandleAppendEntries_locked memory_ops (nodes s p) args = (reply, r1, ap)"
    and h: "HandleAppendEntries memory_ops (nodes s p) args = Some (reply, rp)"
    and rp: "raft_log rp = raft_log r1" "logOffset rp = logOffset r1"
    and r: "\<exists>nx. r = (nodes s n)\<lparr>nextIndex := nx\<rparr>"
    and a: "aea_Term args = currentTerm (nodes s n)" "aea_LeaderID args = n"
      "aea_PrevLogIndex args = next_of (nodes s n) p - 1" "aea_PrevLogTerm args = termAt (nodes s n) (next_of (nodes s n) p - 1)"
      "aea_Entries args = drop (nat (next_of (nodes s n) p)) (raft_log (nodes s n))"
    and lead: "leads_to False ids s (answered n p args reply r rp s)" and ok: "aer_Success reply"
  shows "\<exists>t' s'. sendAppendEntries memory_ops None n p t = Some t' \<and> registry ids s' t' \<and> leads_to False ids s s' \<and>
    same_leader (nodes s n) (nodes s' n) \<and> prefix (raft_log (nodes s n)) (raft_log (nodes s' p)) \<and>
    int_at (matchIndex (nodes s' n)) p = lastLogIndex (nodes s n)"
proof -
  note d = duoD [OF D] and PN = plainD [OF duoD(11) [OF D]]
  let ?l = "raft_log (nodes s n)" and ?x = "next_of (nodes s n) p" and ?last = "lastLogIndex (nodes s n)"
  let ?s2 = "answered n p args reply r rp s"
  have acc: "acceptsAppend (nodes s p) args" using HandleAppendEntries_rejected(1) [OF l] ok by blast
  have len: "aea_PrevLogIndex args + int (length (aea_Entries args)) = ?last" using a(3,5) d(9,10) PN(7) by simp
  obtain nx where rnx: "r = (nodes s n)\<lparr>nextIndex := nx\<rparr>" using r by blast
  define r3 where "r3 = r\<lparr>matchIndex := AList.update p ?last (matchIndex r), nextIndex := AList.update p (?last + 1) (nextIndex r)\<rparr>"
  have l3: "handleAppendEntriesReply_locked memory_ops p args reply r = (r3, True)"
    using d(7) a(1) ok HandleAppendEntries_accepted(2) [OF l acc] len
    by (simp add: handleAppendEntriesReply_locked_def rnx r3_def Let_def)
  have reach2: "reachable False ids ?s2" using lead d(2) by (rule leads_to_reachable)
  have "cluster_exec False ids (DeliverAppendRep p args reply) ?s2 = Some (set_node n r3 ?s2)"
    using a(2) l3 d(6) by (simp add: Let_def answered_def asked_def)
  then have "reachable False ids (set_node n r3 ?s2)" by (rule reachable_step [OF reach2])
  from advance_total [OF d(1,4) this] obtain rn where rn: "advanceCommitIndex memory_ops r3 = Some rn" "state rn = state r3"
    "currentTerm rn = currentTerm r3" "raft_log rn = raft_log r3" "logOffset rn = logOffset r3" "matchIndex rn = matchIndex r3"
    by blast
  have "handleAppendEntriesReply memory_ops p args reply r = Some rn" by (simp add: handleAppendEntriesReply_def l3 rn(1))
  from call_result [OF D snd h this a(2) lead] obtain t' s' where
    s': "sendAppendEntries memory_ops None n p t = Some t'" "registry ids s' t'" "leads_to False ids s s'"
      "nodes s' = (nodes s)(p := rp, n := rn)" by blast
  have N: "nodes s' n = rn" "nodes s' p = rp" using d(6) by (simp_all add: s'(4))
  have same: "same_leader (nodes s n) rn" using d(7) rn by (simp add: same_leader_def r3_def rnx)
  have reach: "reachable False ids s'" using s'(3) d(2) by (rule leads_to_reachable)
  have log: "raft_log rn = ?l" "lastLogIndex rn = ?last" "termAt rn ?last = termAt (nodes s n) ?last"
    using log_functions_cong [of rn "nodes s n"] same by (simp_all add: same_leader_def)
  note cong = log_functions_cong [OF rp]
  have "termAt r1 ?last = termAt (nodes s n) ?last"
  proof (cases "aea_Entries args = []")
    case True
    then have prev: "aea_PrevLogIndex args = ?last" using len by simp
    have "termAt r1 ?last = termAt (nodes s p) ?last"
      using append_agreement(1) [OF l ok, of ?last] append_agreement(3) [OF l ok] acc prev True plainD(3) [OF d(12)]
        HandleAppendEntries_accepted(7) [OF l acc]
      by (simp add: acceptsAppend_def termAt_in_range entryAt_def)
    then show ?thesis using acc a(3,4) prev d(9) by (auto simp: acceptsAppend_def)
  next
    case False
    let ?k = "length (aea_Entries args) - 1"
    have k: "?k < length (aea_Entries args)" "aea_PrevLogIndex args + 1 + int ?k = ?last" 
      using False len by (cases "aea_Entries args"; simp)+
    have "nat ?last = length ?l - 1" unfolding PN(7) by (simp add: nat_diff_distrib)
    then have "aea_Entries args ! ?k = ?l ! nat ?last" using k(1) by (simp add: a(5))
    moreover have "termAt (nodes s n) ?last = le_Term (?l ! nat ?last)"
      using PN(3,4,7) by (cases ?l) (simp_all add: termAt_in_range)
    ultimately show ?thesis using append_agreement(2) [OF l ok k(1)] unfolding k(2) by simp
  qed
  moreover have "0 \<le> ?last" using PN(4,7) by (cases ?l) simp_all
  moreover have "?last \<le> lastLogIndex rp" using append_agreement(3) [OF l ok] len cong(1) by simp
  ultimately have "take (nat ?last + 1) ?l = take (nat ?last + 1) (raft_log rp)"
    using logs_match [OF d(1) reach, of "[]" s' n p ?last] d(4,5) N log cong(3) by simp
  moreover have "nat ?last + 1 = length ?l" using PN(4,7) by (cases ?l) simp_all
  ultimately have "prefix ?l (raft_log rp)" using take_is_prefix [of "nat ?last + 1" "raft_log rp"] by simp
  with s' N same show ?thesis using rn(6) by (auto simp: r3_def)
qed

text \<open>A rejected request: the leader tries again from a smaller index.\<close>

lemma rejected_round:
  assumes D: "duo ids n p s t" and snd: "sendAppendEntries_locked (nodes s n) p = (CallAppendEntries args, r)"
    and l: "HandleAppendEntries_locked memory_ops (nodes s p) args = (reply, r1, ap)"
    and h: "HandleAppendEntries memory_ops (nodes s p) args = Some (reply, rp)" and rp: "currentTerm rp = currentTerm r1"
    and r: "\<exists>nx. r = (nodes s n)\<lparr>nextIndex := nx\<rparr>"
    and a: "aea_Term args = currentTerm (nodes s n)" "aea_LeaderID args = n" "aea_PrevLogIndex args = next_of (nodes s n) p - 1"
    and lead: "leads_to False ids s (answered n p args reply r rp s)" and reach1: "reachable False ids (asked n p args r s)"
    and rej: "\<not> aer_Success reply"
  shows "\<exists>t' s'. sendAppendEntries memory_ops None n p t = Some t' \<and> duo ids n p s' t' \<and> leads_to False ids s s' \<and>
    same_leader (nodes s n) (nodes s' n) \<and> next_of (nodes s' n) p < next_of (nodes s n) p"
proof -
  note d = duoD [OF D]
  obtain nx where rnx: "r = (nodes s n)\<lparr>nextIndex := nx\<rparr>" using r by blast
  define r3 where "r3 = fst (handleAppendEntriesReply_locked memory_ops p args reply r)"
  let ?next = "int_at (nextIndex r3) p"
  have nacc: "\<not> acceptsAppend (nodes s p) args" using HandleAppendEntries_accepted(1) [OF l] rej by blast
  have trm: "aer_Term reply \<le> currentTerm (nodes s n)" using HandleAppendEntries_rejected(5) [OF l nacc] d(8) by simp
  have l3: "handleAppendEntriesReply_locked memory_ops p args reply r = (r3, False)" "\<exists>nx. r3 = (nodes s n)\<lparr>nextIndex := nx\<rparr>"
    using d(7) a(1) rej trm by (auto simp: r3_def handleAppendEntriesReply_locked_def rnx Let_def)
  have N: "nodes (asked n p args r s) p = nodes s p" "nodes (asked n p args r s) n = r" using d(6) by (simp_all add: asked_def)
  have "AppendReq p args \<in> set (msgs (asked n p args r s))" by (simp add: asked_def)
  moreover have "state r = Leader" "currentTerm r = aea_Term args" using d(7) a(1) by (simp_all add: rnx)
  ultimately have "let next = int_at (nextIndex (fst (handleAppendEntriesReply_locked memory_ops p args reply
      (nodes (asked n p args r s) n)))) p in 1 \<le> next \<and> next \<le> aea_PrevLogIndex args"
    by (intro rejected_backs_off [OF d(1) reach1 cluster_run.simps(1), where r' = r1 and ap = ap])
      (simp_all add: N l rej a(1,2) d(8))
  then have nxt: "1 \<le> ?next" "?next \<le> aea_PrevLogIndex args" unfolding N(2) r3_def Let_def by (rule conjunct1, rule conjunct2)
  have "handleAppendEntriesReply memory_ops p args reply r = Some r3" by (simp add: handleAppendEntriesReply_def l3(1))
  from call_result [OF D snd h this a(2) lead] obtain t' s' where
    s': "sendAppendEntries memory_ops None n p t = Some t'" "registry ids s' t'" "leads_to False ids s s'"
      "nodes s' = (nodes s)(p := rp, n := r3)" by blast
  have nodes: "nodes s' n = r3" "nodes s' p = rp" using d(6) by (simp_all add: s'(4))
  have same: "same_leader (nodes s n) r3" using d(7) l3(2) by (auto simp: same_leader_def)
  have last: "lastLogIndex r3 = lastLogIndex (nodes s n)"
    using log_functions_cong(1) [of r3 "nodes s n"] same by (simp add: same_leader_def)
  have "currentTerm r1 = aea_Term args"
    using l nacc a(1) d(8) by (auto simp: HandleAppendEntries_locked_def acceptsAppend_def Let_def split: if_splits)
  with rp a(1) have "currentTerm rp \<le> currentTerm (nodes s n)" by simp
  then have "duo ids n p s' t'"
    using d nxt a(3) nodes same last s'(2) leads_to_reachable [OF s'(3) d(2)]
    by (auto simp: duo_def next_of_def same_leader_def)
  moreover have "next_of (nodes s' n) p < next_of (nodes s n) p" using nxt a(3) nodes by (simp add: next_of_def)
  ultimately show ?thesis using s' nodes same by auto
qed

lemma append_round:
  assumes D: "duo ids n p s t"
  obtains (caught_up) t' s' where "sendAppendEntries memory_ops None n p t = Some t'" "registry ids s' t'" "leads_to False ids s s'"
      "same_leader (nodes s n) (nodes s' n)" "prefix (raft_log (nodes s n)) (raft_log (nodes s' p))"
      "int_at (matchIndex (nodes s' n)) p = lastLogIndex (nodes s n)"
  | (retry) t' s' where "sendAppendEntries memory_ops None n p t = Some t'" "duo ids n p s' t'" "leads_to False ids s s'"
      "same_leader (nodes s n) (nodes s' n)" "next_of (nodes s' n) p < next_of (nodes s n) p"
proof (rule request_half [OF D])
  fix args reply r r1 ap rp
  assume R: "sendAppendEntries_locked (nodes s n) p = (CallAppendEntries args, r)"
    "HandleAppendEntries_locked memory_ops (nodes s p) args = (reply, r1, ap)"
    "HandleAppendEntries memory_ops (nodes s p) args = Some (reply, rp)"
    "raft_log rp = raft_log r1" "currentTerm rp = currentTerm r1" "logOffset rp = logOffset r1"
    "\<exists>nx. r = (nodes s n)\<lparr>nextIndex := nx\<rparr>"
    "aea_Term args = currentTerm (nodes s n)" "aea_LeaderID args = n"
    "aea_PrevLogIndex args = next_of (nodes s n) p - 1" "aea_PrevLogTerm args = termAt (nodes s n) (next_of (nodes s n) p - 1)"
    "aea_Entries args = drop (nat (next_of (nodes s n) p)) (raft_log (nodes s n))"
    "leads_to False ids s (answered n p args reply r rp s)" "reachable False ids (asked n p args r s)"
  show thesis
  proof (cases "aer_Success reply")
    case True
    from accepted_round [OF D R(1-4,6-13) True] caught_up show thesis by blast
  next
    case False
    from rejected_round [OF D R(1-3,5,7-10,13,14) False] retry show thesis by blast
  qed
qed

fun sendRounds :: "nat \<Rightarrow> 's StorageOps \<Rightarrow> node_id \<Rightarrow> node_id \<Rightarrow> 's LocalTransport \<Rightarrow> 's LocalTransport option" where
  "sendRounds 0 ops self peerID t = Some t"
| "sendRounds (Suc k) ops self peerID t =
     Option.bind (sendAppendEntries ops None self peerID t) (sendRounds k ops self peerID)"

lemma rounds_converge:
  assumes "duo ids n p s t"
  shows "\<exists>k t' s'. 1 \<le> k \<and> int k \<le> next_of (nodes s n) p \<and> sendRounds k memory_ops n p t = Some t' \<and> registry ids s' t' \<and>
    leads_to False ids s s' \<and> same_leader (nodes s n) (nodes s' n) \<and>
    prefix (raft_log (nodes s n)) (raft_log (nodes s' p)) \<and>
    int_at (matchIndex (nodes s' n)) p = lastLogIndex (nodes s n)"
  using assms
proof (induction "nat (next_of (nodes s n) p)" arbitrary: s t rule: less_induct)
  case less
  note d = duoD [OF less.prems]
  from less.prems show ?case
  proof (cases rule: append_round)
    case (caught_up t' s')
    then show ?thesis using d(9) by (intro exI [of _ 1] exI [of _ t'] exI [of _ s']) simp
  next
    case (retry t1 s1)
    have "nat (next_of (nodes s1 n) p) < nat (next_of (nodes s n) p)" using retry(5) d(9) by simp
    from less.hyps [OF this retry(2)] obtain k t' s' where
      k: "int k \<le> next_of (nodes s1 n) p" "sendRounds k memory_ops n p t1 = Some t'" "registry ids s' t'"
        "leads_to False ids s1 s'" "same_leader (nodes s1 n) (nodes s' n)"
        "prefix (raft_log (nodes s1 n)) (raft_log (nodes s' p))"
        "int_at (matchIndex (nodes s' n)) p = lastLogIndex (nodes s1 n)" by blast
    have same: "raft_log (nodes s1 n) = raft_log (nodes s n)" "lastLogIndex (nodes s1 n) = lastLogIndex (nodes s n)"
      using retry(4) log_functions_cong(1) [of "nodes s1 n" "nodes s n"] by (simp_all add: same_leader_def)
    have "sendRounds (Suc k) memory_ops n p t = Some t'" using retry(1) k(2) by simp
    then show ?thesis
      using k same retry(3-5) leads_to_trans same_leader_trans
      by (intro exI [of _ "Suc k"] exI [of _ t'] exI [of _ s']) (auto simp del: sendRounds.simps)
  qed
qed

subsection \<open>Properties\<close>

text \<open>
  C8.  The in-memory transport implements the network of the cluster model.  If the registered nodes are
  those of a reachable cluster, then after a whole call of \<^verbatim>\<open>sendAppendEntries\<close> (with the snapshot it may
  send instead), or of a vote goroutine whose election is under way, whether or not its context has ended,
  they are again those of a reachable cluster, so every safety property of the cluster holds of them.
\<close>

theorem local_calls_refine:
  assumes "valid_ids ids" and "reachable compact ids s" and "registry ids s t"
    and "n \<in> set ids" and "p \<in> set ids" and "n \<noteq> p"
  shows "(\<forall>t'. sendAppendEntries memory_ops ctxErr n p t = Some t' \<longrightarrow>
      (\<exists>s'. leads_to compact ids s s' \<and> reachable compact ids s' \<and> registry ids s' t')) \<and>
    (\<forall>args cnt effs t'. VoteReq p args \<in> set (msgs s) \<and> rva_CandidateID args = n \<and> (n, rva_Term args, p) \<in> set (pending s) \<and>
        sendRequestVote memory_ops ctxErr n p args (votes s (n, rva_Term args)) t = Some (cnt, effs, t') \<longrightarrow>
      (\<exists>s'. leads_to compact ids s s' \<and> reachable compact ids s' \<and> registry ids s' t' \<and> votes s' (n, rva_Term args) = cnt))"
proof -
  have ok: "raft_id (nodes s n) = n" "p \<in> fst ` set (peers (nodes s n))"
    using election_invD(1) [OF reachable_election_inv [OF assms(2,1)] assms(4)] assms(5,6)
    by (auto simp: node_ok_def image_image)
  show ?thesis
  proof (intro conjI allI impI)
    fix t' assume "sendAppendEntries memory_ops ctxErr n p t = Some t'"
    from append_call_leads [OF assms(3-6) ok this] leads_to_reachable [OF _ assms(2)]
    show "\<exists>s'. leads_to compact ids s s' \<and> reachable compact ids s' \<and> registry ids s' t'" by blast
  next
    fix args cnt effs t'
    assume v: "VoteReq p args \<in> set (msgs s) \<and> rva_CandidateID args = n \<and> (n, rva_Term args, p) \<in> set (pending s) \<and>
        sendRequestVote memory_ops ctxErr n p args (votes s (n, rva_Term args)) t = Some (cnt, effs, t')"
    then obtain s' where "leads_to compact ids s s'" "registry ids s' t'" "votes s' (n, rva_Term args) = cnt"
      using vote_call_leads [OF assms(3-6), of args ctxErr cnt effs t' compact] by blast
    then show "\<exists>s'. leads_to compact ids s s' \<and> reachable compact ids s' \<and> registry ids s' t' \<and> votes s' (n, rva_Term args) = cnt"
      using leads_to_reachable [OF _ assms(2)] by blast
  qed
qed

text \<open>
  C9.  Replication converges, in a cluster without snapshots.  From any reachable state, a leader that
  keeps calling \<^verbatim>\<open>sendAppendEntries\<close> over the in-memory transport for a follower that is not ahead of it in
  term brings the follower's log up to its own, if nothing else runs meanwhile: no call panics, it takes
  at most one call more than the leader has entries, the leader keeps its role, term and log, and at the
  end its match index for the follower is the end of its log.
\<close>

theorem replication_converges:
  assumes "valid_ids ids" and "reachable False ids s" and "registry ids s t"
    and "n \<in> set ids" and "p \<in> set ids" and "n \<noteq> p" and "state (nodes s n) = Leader"
    and "currentTerm (nodes s p) \<le> currentTerm (nodes s n)"
  shows "\<exists>k t' s'. int k \<le> lastLogIndex (nodes s n) + 1 \<and> sendRounds k memory_ops n p t = Some t' \<and>
    registry ids s' t' \<and> reachable False ids s' \<and> state (nodes s' n) = Leader \<and>
    currentTerm (nodes s' n) = currentTerm (nodes s n) \<and> raft_log (nodes s' n) = raft_log (nodes s n) \<and>
    prefix (raft_log (nodes s n)) (raft_log (nodes s' p)) \<and>
    int_at (matchIndex (nodes s' n)) p = lastLogIndex (nodes s n)"
proof -
  have "0 \<le> lastLogIndex (nodes s n)"
    using plainD(4,7) [OF reachable_plain [OF assms(1,2,4)]] by (cases "raft_log (nodes s n)") simp_all
  then have D: "duo ids n p s t" and x: "next_of (nodes s n) p \<le> lastLogIndex (nodes s n) + 1"
    using assms reachable_next(1,2) [OF assms(1,2,4,7), of p] by (auto simp: duo_def next_of_def)
  from rounds_converge [OF D] obtain k t' s' where
    R: "int k \<le> next_of (nodes s n) p" "sendRounds k memory_ops n p t = Some t'" "registry ids s' t'" "leads_to False ids s s'"
      "same_leader (nodes s n) (nodes s' n)" "prefix (raft_log (nodes s n)) (raft_log (nodes s' p))"
      "int_at (matchIndex (nodes s' n)) p = lastLogIndex (nodes s n)" by blast
  then show ?thesis
    using x leads_to_reachable [OF R(4) assms(2)]
    by (intro exI [of _ k] exI [of _ t'] exI [of _ s']) (simp add: same_leader_def)
qed

text \<open>The second node after its takeover, and the third that has missed the first entry.\<close>

definition transport_of :: "node_id list \<Rightarrow> cluster \<Rightarrow> MemoryStorage LocalTransport" where
  "transport_of ids s = \<lparr>lt_nodes = map (\<lambda>q. (q, nodes s q)) ids\<rparr>"

lemma registry_transport_of: "registry ids s (transport_of ids s)"
  by (simp add: registry_def transport_of_def list_all_iff map_of_map_restrict)

lemma takeover_reachable: "reachable False trio takeover_cluster"
proof -
  have "cluster_run False trio takeover_run (init_cluster trio) \<noteq> None" by code_simp
  then show ?thesis unfolding takeover_cluster_def by (rule after_run_reachable)
qed

lemma takeover_nodes:
  "''n2'' \<in> set trio \<and> ''n3'' \<in> set trio \<and> state (nodes takeover_cluster ''n2'') = Leader \<and>
   currentTerm (nodes takeover_cluster ''n3'') \<le> currentTerm (nodes takeover_cluster ''n2'') \<and>
   int_at (nextIndex (nodes takeover_cluster ''n2'')) ''n3'' = 2 \<and> lastLogIndex (nodes takeover_cluster ''n2'') = 1"
  by code_simp

theorem local_calls_refine_witness:
  "\<exists>t' s'. sendAppendEntries memory_ops None ''n2'' ''n3'' (transport_of trio takeover_cluster) = Some t' \<and>
     reachable False trio s' \<and> registry trio s' t'"
proof -
  have "sendAppendEntries memory_ops None ''n2'' ''n3'' (transport_of trio takeover_cluster) \<noteq> None" by code_simp
  then obtain t' where t': "sendAppendEntries memory_ops None ''n2'' ''n3'' (transport_of trio takeover_cluster) = Some t'"
    by auto
  from local_calls_refine [OF trio_valid takeover_reachable registry_transport_of, of "''n2''" "''n3''" None] t' takeover_nodes
  show ?thesis by auto
qed

theorem replication_converges_witness:
  "\<exists>k t' s'. k \<le> 2 \<and> sendRounds k memory_ops ''n2'' ''n3'' (transport_of trio takeover_cluster) = Some t' \<and>
     registry trio s' t' \<and> prefix (raft_log (nodes takeover_cluster ''n2'')) (raft_log (nodes s' ''n3''))"
proof -
  have "''n2'' \<noteq> (''n3'' :: string)" by simp
  with replication_converges [OF trio_valid takeover_reachable registry_transport_of, of "''n2''" "''n3''"] takeover_nodes
  obtain k t' s' where "int k \<le> 2" "sendRounds k memory_ops ''n2'' ''n3'' (transport_of trio takeover_cluster) = Some t'"
    "registry trio s' t'" "prefix (raft_log (nodes takeover_cluster ''n2'')) (raft_log (nodes s' ''n3''))" by auto
  then show ?thesis by auto
qed

end
