(* ===== verification/Router.thy ===== *)
theory Router
  imports Server_RPC
begin

text \<open>
  The HTTP side of \<^verbatim>\<open>src/server/server.go\<close>: the routes of \<^verbatim>\<open>buildRouter\<close>, the handler each of them runs, and
  \<^verbatim>\<open>Start\<close>.  Which route a request takes is decided by \<^verbatim>\<open>gorilla/mux\<close>, a parameter of the model; what the
  server relies on is \<open>mux_ok\<close>.
\<close>

subsection \<open>Routes\<close>

datatype Handler =
    HandleRPC
  | HandlePing
  | HandleGet
  | HandlePost
  | HandlePut
  | HandleDelete
  | HandleHealth
  | HandleVote
  | HandleAppend
  | HandleSnapshot

text \<open>A path template, the methods it is restricted to (any if none), and its handler.\<close>

record Route =
  rt_path :: string
  rt_methods :: "string list"
  rt_handler :: Handler

definition route :: "string \<Rightarrow> string list \<Rightarrow> Handler \<Rightarrow> Route" where
  "route path methods h = \<lparr>rt_path = path, rt_methods = methods, rt_handler = h\<rparr>"

definition buildRouter :: "string + Route list" where
  "buildRouter =
     (case registerRPC of
        Inl e \<Rightarrow> Inl e
      | Inr _ \<Rightarrow> Inr
          [route RPCPath [] HandleRPC,
           route ''/ping'' [] HandlePing,
           route ''/key/{key}'' [''GET''] HandleGet,
           route ''/key/{key}'' [''POST''] HandlePost,
           route ''/key/{key}'' [''PUT''] HandlePut,
           route ''/key/{key}'' [''DELETE''] HandleDelete,
           route ''/health'' [''GET''] HandleHealth,
           route ''/raft/request-vote'' [''POST''] HandleVote,
           route ''/raft/append-entries'' [''POST''] HandleAppend,
           route ''/raft/install-snapshot'' [''POST''] HandleSnapshot])"

text \<open>
  \<^verbatim>\<open>Start\<close> runs the apply loop and the timers of the node and serves the routes; it returns the error of
  building them or of \<^verbatim>\<open>ListenAndServe\<close>, an argument.
\<close>

datatype Spawned = ApplyLoop | RaftTimers

definition StartServer :: "(string \<Rightarrow> Route list \<Rightarrow> string) \<Rightarrow> 's Server \<Rightarrow> Spawned list \<times> string" where
  "StartServer listenAndServe s =
     ([ApplyLoop, RaftTimers],
      case buildRouter of Inl e \<Rightarrow> e | Inr routes \<Rightarrow> listenAndServe (srv_addr s) routes)"

subsection \<open>Which route a request takes\<close>

text \<open>
  The variables of a request path, for a template without variables or with one at its end, which stands
  for a non-empty segment.
\<close>

definition pathVars :: "string \<Rightarrow> string \<Rightarrow> (string \<times> string) list option" where
  "pathVars tmpl path =
     (let fixd = takeWhile (\<lambda>c. c \<noteq> CHR ''{'') tmpl;
          name = takeWhile (\<lambda>c. c \<noteq> CHR ''}'') (drop (Suc (length fixd)) tmpl);
          rest = drop (length fixd) path
      in if fixd = tmpl then (if path = tmpl then Some [] else None)
         else if take (length fixd) path = fixd \<and> rest \<noteq> [] \<and> CHR ''/'' \<notin> set rest then Some [(name, rest)]
         else None)"

fun firstRoute :: "Route list \<Rightarrow> string \<Rightarrow> string \<Rightarrow> (Handler \<times> (string \<times> string) list) option" where
  "firstRoute [] meth path = None"
| "firstRoute (r # rs) meth path =
     (case pathVars (rt_path r) path of
        Some vars \<Rightarrow>
          if rt_methods r = [] \<or> meth \<in> set (rt_methods r) then Some (rt_handler r, vars) else firstRoute rs meth path
      | None \<Rightarrow> firstRoute rs meth path)"

text \<open>
  A path of segments that \<^verbatim>\<open>net/http\<close> and the router take as they are: no escapes, no query, no fragment,
  nothing to clean.
\<close>

definition plain_key :: "string \<Rightarrow> bool" where
  "plain_key k \<longleftrightarrow> k \<noteq> [] \<and> k \<noteq> ''.'' \<and> k \<noteq> ''..'' \<and>
     list_all (\<lambda>c. (CHR ''a'' \<le> c \<and> c \<le> CHR ''z'') \<or> (CHR ''A'' \<le> c \<and> c \<le> CHR ''Z'') \<or> (CHR ''0'' \<le> c \<and> c \<le> CHR ''9'') \<or>
       c \<in> {CHR ''-'', CHR ''_'', CHR ''.'', CHR ''~''}) k"

type_synonym mux = "Route list \<Rightarrow> string \<Rightarrow> string \<Rightarrow> (Handler \<times> (string \<times> string) list) option"

text \<open>
  What the documentation of the router says: routes are tested in the order they were added, and the first
  whose path and methods match handles the request, with the variables of its path.  It is assumed of keys
  in their path and of paths without variables.
\<close>

definition mux_ok :: "mux \<Rightarrow> bool" where
  "mux_ok m \<longleftrightarrow> (\<forall>routes meth key. plain_key key \<longrightarrow> m routes meth (''/key/'' @ key) = firstRoute routes meth (''/key/'' @ key)) \<and>
     (\<forall>routes meth r. r \<in> set routes \<longrightarrow> CHR ''{'' \<notin> set (rt_path r) \<longrightarrow>
        m routes meth (rt_path r) = firstRoute routes meth (rt_path r))"

subsection \<open>Handling a request\<close>

definition getKey :: "(string \<times> string) list \<Rightarrow> string" where
  "getKey vars = (case map_of vars ''key'' of Some k \<Rightarrow> k | None \<Rightarrow> [])"

text \<open>
  The handler of a route on a request with its method, URI and body (\<^term>\<open>None\<close> if it cannot be read).  A
  connection for \<^verbatim>\<open>net/rpc\<close> is taken over from HTTP and only starts with a response.
\<close>

fun serveRoute ::
    "'s StorageOps \<Rightarrow> ('s Server \<Rightarrow> 's Server) \<Rightarrow> 's Blocking \<Rightarrow> 's Blocking \<Rightarrow> Handler \<Rightarrow> (string \<times> string) list
      \<Rightarrow> string \<Rightarrow> string \<Rightarrow> string option \<Rightarrow> 's Server \<Rightarrow> (Response \<times> 's Server) option" where
  "serveRoute ops env b1 b2 HandleRPC vars meth uri body s =
     Some (if meth = ''CONNECT'' then reply_with 200 [] else reply_with 405 (''405 must CONNECT'' @ [CHR 0x0A]), s)"
| "serveRoute ops env b1 b2 HandlePing vars meth uri body s = Some (pingHandler, s)"
| "serveRoute ops env b1 b2 HandleGet vars meth uri body s = Some (getHandler uri (getKey vars) s, s)"
| "serveRoute ops env b1 b2 HandlePost vars meth uri body s = postHandler ops env b1 b2 uri (getKey vars) body s"
| "serveRoute ops env b1 b2 HandlePut vars meth uri body s = putHandler ops env b1 b2 uri (getKey vars) body s"
| "serveRoute ops env b1 b2 HandleDelete vars meth uri body s = deleteHandler ops env b1 b2 uri (getKey vars) s"
| "serveRoute ops env b1 b2 HandleHealth vars meth uri body s = Some (healthHandler s, s)"
| "serveRoute ops env b1 b2 HandleVote vars meth uri body s = Some (requestVoteHandler ops (case body of None \<Rightarrow> [] | Some b \<Rightarrow> b) s)"
| "serveRoute ops env b1 b2 HandleAppend vars meth uri body s = appendEntriesHandler ops (case body of None \<Rightarrow> [] | Some b \<Rightarrow> b) s"
| "serveRoute ops env b1 b2 HandleSnapshot vars meth uri body s =
     Some (installSnapshotHandler ops (case body of None \<Rightarrow> [] | Some b \<Rightarrow> b) s)"

definition serveHTTP ::
    "'s StorageOps \<Rightarrow> ('s Server \<Rightarrow> 's Server) \<Rightarrow> 's Blocking \<Rightarrow> 's Blocking \<Rightarrow> mux \<Rightarrow> string \<Rightarrow> string \<Rightarrow> string option
      \<Rightarrow> 's Server \<Rightarrow> (Response \<times> 's Server) option" where
  "serveHTTP ops env b1 b2 m meth path body s =
     (case buildRouter of
        Inl e \<Rightarrow> Some (reply_with 404 ''404 page not found'', s)
      | Inr routes \<Rightarrow>
          (case m routes meth path of
             None \<Rightarrow> Some (reply_with 404 ''404 page not found'', s)
           | Some (h, vars) \<Rightarrow> serveRoute ops env b1 b2 h vars meth path body s))"

subsection \<open>The requests of the clients\<close>

lemma registered: "registerRPC = Inr [(KVServiceName, kvRPC), (RaftServiceName, raftRPC)]"
  by (simp add: registerRPC_def RegisterName_def KVServiceName_def RaftServiceName_def)

lemma pathVars_fixed: "CHR ''{'' \<notin> set tmpl \<Longrightarrow> pathVars tmpl path = (if path = tmpl then Some [] else None)"
  by (simp add: pathVars_def Let_def takeWhile_eq_all_conv)

lemma pathVars_key:
  assumes "key \<noteq> []" and "CHR ''/'' \<notin> set key"
  shows "pathVars ''/key/{key}'' (''/key/'' @ key) = Some [(''key'', key)]"
  using assms by (simp add: pathVars_def Let_def)

lemma pathVars_other:
  assumes "CHR ''{'' \<notin> set tmpl" and "take 5 tmpl \<noteq> ''/key/''"
  shows "pathVars tmpl (''/key/'' @ key) = None"
proof -
  have "take 5 (''/key/'' @ key) = ''/key/''" by simp
  with assms(2) have "''/key/'' @ key \<noteq> tmpl" by metis
  with pathVars_fixed [OF assms(1)] show ?thesis by simp
qed

lemma keyRoutes:
  assumes "key \<noteq> []" and "CHR ''/'' \<notin> set key" and "buildRouter = Inr routes"
    and "(meth, h) \<in> set [(''GET'', HandleGet), (''POST'', HandlePost), (''PUT'', HandlePut), (''DELETE'', HandleDelete)]"
  shows "firstRoute routes meth (''/key/'' @ key) = Some (h, [(''key'', key)])"
proof -
  have "pathVars ''/rpc'' (''/key/'' @ key) = None" "pathVars ''/ping'' (''/key/'' @ key) = None"
    by (rule pathVars_other; simp)+
  with pathVars_key [OF assms(1,2)] assms(3,4) show ?thesis
    by (auto simp: buildRouter_def registered route_def RPCPath_def simp del: append_Cons append_Nil)
qed

lemma plain_key_slash: "plain_key k \<Longrightarrow> CHR ''/'' \<notin> set k"
  by (auto simp: plain_key_def list_all_iff)

text \<open>Each operation on a key reaches the handler of its method.\<close>

lemma serveHTTP_key:
  assumes "mux_ok m" and "plain_key key"
    and "(meth, h) \<in> set [(''GET'', HandleGet), (''POST'', HandlePost), (''PUT'', HandlePut), (''DELETE'', HandleDelete)]"
  shows "serveHTTP ops env b1 b2 m meth (''/key/'' @ key) body s =
    serveRoute ops env b1 b2 h [(''key'', key)] meth (''/key/'' @ key) body s"
proof -
  have key: "key \<noteq> []" "CHR ''/'' \<notin> set key" using assms(2) plain_key_slash by (auto simp: plain_key_def)
  obtain routes where r: "buildRouter = Inr routes" by (simp add: buildRouter_def registered)
  have "m routes meth (''/key/'' @ key) = Some (h, [(''key'', key)])"
    using assms(1,2) keyRoutes [OF key r assms(3)] unfolding mux_ok_def by metis
  then show ?thesis unfolding serveHTTP_def r by simp
qed

end
