(* ===== verification/Transport_Network.thy ===== *)
theory Transport_Network
  imports Transports Service Router
begin

text \<open>
  The transports over a network.  The interface of a remote call is the locale \<open>remote_call\<close>: an answer is
  the peer's own, the peer runs its handler at most once, and no other node changes.  The in-memory
  transport meets it as it is, the HTTP transport over servers whose network loses requests and answers.
\<close>

subsection \<open>The interface\<close>

locale remote_call =
  fixes call :: "node_id \<Rightarrow> 'a \<Rightarrow> 'w \<Rightarrow> ((transport_error + 'r) \<times> 'w) option"
    and handle :: "'a \<Rightarrow> 's Raft \<Rightarrow> ('r \<times> 's Raft) option"
    and node :: "'w \<Rightarrow> node_id \<Rightarrow> 's Raft option"
    and fit :: "'w \<Rightarrow> node_id \<Rightarrow> 'a \<Rightarrow> bool"
  assumes answered: "call p a w = Some (Inr reply, w') \<Longrightarrow> fit w p a \<Longrightarrow>
      \<exists>r r'. node w p = Some r \<and> handle a r = Some (reply, r') \<and> node w' p = Some r'"
    and at_most_once: "call p a w = Some (res, w') \<Longrightarrow> fit w p a \<Longrightarrow> node w' p = node w p \<or>
      (\<exists>r reply r'. node w p = Some r \<and> handle a r = Some (reply, r') \<and> node w' p = Some r')"
    and elsewhere: "call p a w = Some (res, w') \<Longrightarrow> fit w p a \<Longrightarrow> q \<noteq> p \<Longrightarrow> node w' q = node w q"
begin

text \<open>What the handler keeps of a node, a call keeps of every node, whatever it returns.\<close>

lemma call_keeps:
  assumes "call p a w = Some (res, w')" and "fit w p a"
    and "\<And>r reply r'. handle a r = Some (reply, r') \<Longrightarrow> P r r'" and "\<And>r. P r r"
  shows "rel_option P (node w q) (node w' q)"
proof (cases "q = p")
  case True
  from at_most_once [OF assms(1,2)] assms(3,4) show ?thesis
    unfolding True by (cases "node w p") (auto simp: option.rel_refl)
next
  case False
  then show ?thesis using elsewhere [OF assms(1,2)] assms(4) by (simp add: option.rel_refl)
qed

end

text \<open>A vote granted over a transport is the peer's vote, and no call takes a vote back.\<close>

locale vote_call = remote_call call "\<lambda>a r. Some (HandleRequestVote ops r a)" node fit
  for call :: "node_id \<Rightarrow> RequestVoteArgs \<Rightarrow> 'w \<Rightarrow> ((transport_error + RequestVoteReply) \<times> 'w) option"
    and ops :: "'s StorageOps" and node :: "'w \<Rightarrow> node_id \<Rightarrow> 's Raft option" and fit
begin

lemma granted_is_vote:
  assumes "call p a w = Some (Inr reply, w')" and "fit w p a" and "rvr_VoteGranted reply"
  shows "\<exists>r'. node w' p = Some r' \<and> currentTerm r' = rva_Term a \<and> votedFor r' = rva_CandidateID a"
proof -
  obtain r r' where r: "HandleRequestVote ops r a = (reply, r')" "node w' p = Some r'"
    using answered [OF assms(1,2)] by auto
  with HandleRequestVote_granted [OF r(1) assms(3)] show ?thesis by auto
qed

lemma ballots_forward:
  assumes "call p a w = Some (res, w')" and "fit w p a"
  shows "rel_option ballot_le (node w q) (node w' q)"
  using assms by (rule call_keeps) (use HandleRequestVote_ballot in \<open>fastforce simp: prod_eq_iff\<close>)+

end

subsection \<open>The servers behind the HTTP transport\<close>

text \<open>The routes of \<^verbatim>\<open>buildRouter\<close> that the transport posts to.\<close>

definition raftRoute ::
    "'s StorageOps \<Rightarrow> string \<Rightarrow> (string \<Rightarrow> 's Server \<Rightarrow> (Response \<times> 's Server) option) option" where
  "raftRoute ops path =
     (if path = ''/raft/request-vote'' then Some (\<lambda>body s. Some (requestVoteHandler ops body s))
      else if path = ''/raft/append-entries'' then Some (appendEntriesHandler ops)
      else if path = ''/raft/install-snapshot'' then Some (\<lambda>body s. Some (installSnapshotHandler ops body s))
      else None)"

lemma raftRoute_served:
  assumes "mux_ok m" and "raftRoute ops path = Some handler"
  shows "serveHTTP ops env b1 b2 m ''POST'' path (Some body) s = handler body s"
proof -
  obtain routes where r: "buildRouter = Inr routes" by (simp add: buildRouter_def registered)
  from assms(2) obtain h where h: "(path, h) \<in> set [(''/raft/request-vote'', HandleVote),
      (''/raft/append-entries'', HandleAppend), (''/raft/install-snapshot'', HandleSnapshot)]"
    "handler body s = serveRoute ops env b1 b2 h [] ''POST'' path (Some body) s"
    by (auto simp: raftRoute_def split: if_splits)
  have "route path [''POST''] h \<in> set routes" "CHR ''{'' \<notin> set path"
    using h(1) r by (auto simp: buildRouter_def registered)
  moreover have "firstRoute routes ''POST'' path = Some (h, [])"
    using h(1) r by (auto simp: buildRouter_def registered route_def RPCPath_def pathVars_def)
  ultimately have "m routes ''POST'' path = Some (h, [])"
    using assms(1) unfolding mux_ok_def by (metis Route.select_convs(1) route_def)
  then show ?thesis unfolding serveHTTP_def r h(2) by simp
qed

text \<open>
  A network of servers by address.  Each request meets the next fault of the schedule: it is delivered,
  it is lost before the server sees it, or its answer is lost.  A handler that panics drops the
  connection.
\<close>

datatype Fault = Deliver | LostRequest | LostReply

record 's Net =
  net_servers :: "(string, 's Server) gomap"
  net_faults :: "Fault list"

definition next_fault :: "'s Net \<Rightarrow> Fault" where
  "next_fault w = (case net_faults w of [] \<Rightarrow> Deliver | f # _ \<Rightarrow> f)"

definition net_serve :: "'s StorageOps \<Rightarrow> string \<Rightarrow> string \<Rightarrow> string \<Rightarrow> 's Net \<Rightarrow> (string + Response) \<times> 's Net" where
  "net_serve ops addr path body w =
     (case (map_of (net_servers w) addr, raftRoute ops path) of
        (Some s, Some handler) \<Rightarrow>
          (case handler body s of
             None \<Rightarrow> (Inl ''EOF'', w)
           | Some (res, s) \<Rightarrow> (Inr res, w\<lparr>net_servers := AList.update addr s (net_servers w)\<rparr>))
      | (Some s, None) \<Rightarrow> (Inr (reply_with 404 ''404 page not found''), w)
      | (None, _) \<Rightarrow> (Inl ''connection refused'', w))"

definition net_do :: "'s StorageOps \<Rightarrow> 's Net http_do" where
  "net_do ops meth url body w =
     (let rest = drop 7 url;
          addr = takeWhile (\<lambda>c. c \<noteq> CHR ''/'') rest;
          path = dropWhile (\<lambda>c. c \<noteq> CHR ''/'') rest;
          w0 = w\<lparr>net_faults := tl (net_faults w)\<rparr>
      in case next_fault w of
           Deliver \<Rightarrow> net_serve ops addr path body w0
         | LostRequest \<Rightarrow> (Inl ''timeout'', w0)
         | LostReply \<Rightarrow> (Inl ''timeout'', snd (net_serve ops addr path body w0)))"

definition net_node :: "HTTPTransport \<Rightarrow> 's Net \<Rightarrow> node_id \<Rightarrow> 's Raft option" where
  "net_node t w p = map_option srv_raft (Option.bind (map_of (ht_peers t) p) (map_of (net_servers w)))"

text \<open>An address of its own, without a slash.\<close>

definition addr_ok :: "HTTPTransport \<Rightarrow> node_id \<Rightarrow> bool" where
  "addr_ok t p \<longleftrightarrow> (case map_of (ht_peers t) p of None \<Rightarrow> True
     | Some addr \<Rightarrow> CHR ''/'' \<notin> set addr \<and> list_all (\<lambda>(q, a). q = p \<or> a \<noteq> addr) (ht_peers t))"

lemma net_do_url:
  assumes "CHR ''/'' \<notin> set addr" and "path = CHR ''/'' # rest"
  shows "net_do ops meth (raft_url addr path) body w =
    (let w0 = w\<lparr>net_faults := tl (net_faults w)\<rparr>
     in case next_fault w of
          Deliver \<Rightarrow> net_serve ops addr path body w0
        | LostRequest \<Rightarrow> (Inl ''timeout'', w0)
        | LostReply \<Rightarrow> (Inl ''timeout'', snd (net_serve ops addr path body w0)))"
proof -
  have "takeWhile (\<lambda>c. c \<noteq> CHR ''/'') (addr @ path) = addr" "dropWhile (\<lambda>c. c \<noteq> CHR ''/'') (addr @ path) = path"
    using assms by (auto simp: takeWhile_append dropWhile_append)
  then show ?thesis by (cases "next_fault w") (simp_all add: net_do_def raft_url_def Let_def)
qed

text \<open>The same nodes in the registry of the in-memory transport and behind the addresses of the HTTP one.\<close>

definition same_nodes :: "HTTPTransport \<Rightarrow> 's LocalTransport \<Rightarrow> 's Net \<Rightarrow> bool" where
  "same_nodes t lt w \<longleftrightarrow> map_of (lt_nodes lt) = net_node t w"

text \<open>Arguments and replies that survive their encoding, at an address of its own.\<close>

definition call_fit ::
    "HTTPTransport \<Rightarrow> ('a \<Rightarrow> bool) \<Rightarrow> ('r \<Rightarrow> bool) \<Rightarrow> ('a \<Rightarrow> 's Raft \<Rightarrow> ('r \<times> 's Raft) option)
      \<Rightarrow> 's Net \<Rightarrow> node_id \<Rightarrow> 'a \<Rightarrow> bool" where
  "call_fit t okA okR handle w p a \<longleftrightarrow> okA a \<and> addr_ok t p \<and>
     (case Option.bind (net_node t w p) (handle a) of None \<Rightarrow> True | Some (x, _) \<Rightarrow> okR x)"

text \<open>
  One endpoint: a path, the encodings of its arguments and replies, and the handler of the node behind
  it.  Its laws are the round trips of the encodings and what the server's handler does with the body.
\<close>

locale endpoint =
  fixes ops :: "'s StorageOps" and t :: HTTPTransport and path :: string
    and call :: "node_id \<Rightarrow> 'a \<Rightarrow> 's Net \<Rightarrow> (transport_error + 'r) \<times> 's Net"
    and enc :: "'a \<Rightarrow> json" and dec :: "json \<Rightarrow> 'a option"
    and encR :: "'r \<Rightarrow> json" and decR :: "json \<Rightarrow> 'r option"
    and okA :: "'a \<Rightarrow> bool" and okR :: "'r \<Rightarrow> bool"
    and handle :: "'a \<Rightarrow> 's Raft \<Rightarrow> ('r \<times> 's Raft) option"
  assumes path: "\<exists>rest. path = CHR ''/'' # rest"
    and call: "call p a w = (case map_of (ht_peers t) p of
        None \<Rightarrow> (Inl (ErrUnknownPeer p), w)
      | Some addr \<Rightarrow> postJSON (net_do ops) (raft_url addr path) (enc a) decR w)"
    and enc: "okA a \<Longrightarrow> Option.bind (decode_first (Marshal (enc a))) dec = Some a"
    and encR: "okR x \<Longrightarrow> Option.bind (decode_first (Encode (encR x))) decR = Some x"
    and route: "raftRoute ops path = Some (\<lambda>body s.
        case Option.bind (decode_first body) dec of
          None \<Rightarrow> Some (reply_with 400 ''bad request'', s)
        | Some a \<Rightarrow> map_option (\<lambda>(x, r). (writeJSON (encR x), s\<lparr>srv_raft := r\<rparr>)) (handle a (srv_raft s)))"
begin

abbreviation fit :: "'s Net \<Rightarrow> node_id \<Rightarrow> 'a \<Rightarrow> bool" where
  "fit \<equiv> call_fit t okA okR handle"

text \<open>What the server at the peer's address makes of a delivered request.\<close>

lemma net_serve_known:
  assumes "okA a" and "map_of (net_servers w) addr = Some s" and "handle a (srv_raft s) = Some (x, r)"
  shows "net_serve ops addr path (Marshal (enc a)) w =
    (Inr (writeJSON (encR x)), w\<lparr>net_servers := AList.update addr (s\<lparr>srv_raft := r\<rparr>) (net_servers w)\<rparr>)"
  using assms by (simp add: net_serve_def route enc)

lemma net_serve_cases:
  assumes "okA a" and "net_serve ops addr path (Marshal (enc a)) w = (res, w')"
  obtains (same) e where "res = Inl e" "w' = w"
  | (run) s x r where "map_of (net_servers w) addr = Some s" "handle a (srv_raft s) = Some (x, r)"
      "res = Inr (writeJSON (encR x))"
      "w' = w\<lparr>net_servers := AList.update addr (s\<lparr>srv_raft := r\<rparr>) (net_servers w)\<rparr>"
proof (cases "map_of (net_servers w) addr")
  case None
  with assms(2) have "res = Inl ''connection refused''" "w' = w" by (auto simp: net_serve_def)
  then show ?thesis by (rule same)
next
  case (Some s)
  show ?thesis
  proof (cases "handle a (srv_raft s)")
    case None
    with Some assms have "res = Inl ''EOF''" "w' = w" by (auto simp: net_serve_def route enc)
    then show ?thesis by (rule same)
  next
    case h: (Some xr)
    obtain x r where xr: "xr = (x, r)" by (cases xr)
    from net_serve_known [OF assms(1) Some h [unfolded xr]] assms(2) show ?thesis
      by (intro run [OF Some h [unfolded xr]]) auto
  qed
qed

lemma postJSON_ok:
  assumes "okR x"
    and "net_do ops ''POST'' (raft_url addr path) (Marshal (enc a)) w = (Inr (writeJSON (encR x)), w')"
  shows "postJSON (net_do ops) (raft_url addr path) (enc a) decR w = (Inr x, w')"
  using assms by (simp add: postJSON_def Let_def writeJSON_def reply_with_def encR)

text \<open>A call reaches the peer's handler, whose reply it returns or loses, or no node changes.\<close>

lemma call_cases:
  assumes c: "call p a w = (res, w')" and fit: "fit w p a"
  obtains (none) e where "res = Inl e" "net_servers w' = net_servers w"
  | (run) addr s x r where "map_of (ht_peers t) p = Some addr" "map_of (net_servers w) addr = Some s"
      "handle a (srv_raft s) = Some (x, r)" "\<And>y. res = Inr y \<Longrightarrow> y = x"
      "net_servers w' = AList.update addr (s\<lparr>srv_raft := r\<rparr>) (net_servers w)"
proof (cases "map_of (ht_peers t) p")
  case None
  with c have "res = Inl (ErrUnknownPeer p)" "net_servers w' = net_servers w" by (auto simp: call)
  then show ?thesis by (rule none)
next
  case (Some addr)
  from fit have ok: "okA a" "CHR ''/'' \<notin> set addr" by (simp_all add: call_fit_def addr_ok_def Some)
  obtain rest where "path = CHR ''/'' # rest" using path by blast
  note url = net_do_url [OF ok(2) this, of ops "''POST''" "Marshal (enc a)" w]
  define w0 where "w0 = w\<lparr>net_faults := tl (net_faults w)\<rparr>"
  obtain sres w1 where sv: "net_serve ops addr path (Marshal (enc a)) w0 = (sres, w1)" by fastforce
  have post: "postJSON (net_do ops) (raft_url addr path) (enc a) decR w = (res, w')"
    using c Some by (simp add: call)
  consider "next_fault w = Deliver" | "next_fault w = LostRequest" | "next_fault w = LostReply"
    by (cases "next_fault w")
  then show ?thesis
  proof cases
    case 1
    with url sv have d: "net_do ops ''POST'' (raft_url addr path) (Marshal (enc a)) w = (sres, w1)"
      by (simp add: w0_def)
    from ok(1) sv show ?thesis
    proof (cases rule: net_serve_cases)
      case (same e)
      with d post show ?thesis by (intro none [of "ErrCall e"]) (auto simp: postJSON_def w0_def)
    next
      case (run s x r)
      then have s: "map_of (net_servers w) addr = Some s" by (simp add: w0_def)
      with run(2) fit Some have "okR x" by (auto simp: call_fit_def net_node_def)
      from postJSON_ok [OF this d [unfolded run(3)]] post have "res = Inr x" "w' = w1" by simp_all
      with run s show ?thesis by (intro that(2) [OF Some s run(2)]) (auto simp: w0_def)
    qed
  next
    case 2
    with url post show ?thesis by (intro none [of "ErrCall ''timeout''"]) (auto simp: postJSON_def w0_def)
  next
    case 3
    with url sv have d: "net_do ops ''POST'' (raft_url addr path) (Marshal (enc a)) w = (Inl ''timeout'', w1)"
      by (simp add: w0_def)
    with post have res: "res = Inl (ErrCall ''timeout'')" "w' = w1" by (auto simp: postJSON_def)
    from ok(1) sv show ?thesis
    proof (cases rule: net_serve_cases)
      case (same e)
      with res show ?thesis by (intro none) (auto simp: w0_def)
    next
      case (run s x r)
      then have s: "map_of (net_servers w) addr = Some s" by (simp add: w0_def)
      with run res show ?thesis by (intro that(2) [OF Some s run(2)]) (auto simp: w0_def)
    qed
  qed
qed

text \<open>A delivered request has the effect of calling the handler, and its reply arrives.\<close>

lemma delivered:
  assumes fit: "fit w p a" and "next_fault w = Deliver"
    and p: "map_of (ht_peers t) p = Some addr" and s: "map_of (net_servers w) addr = Some s"
    and h: "handle a (srv_raft s) = Some (x, r)"
  shows "call p a w = (Inr x, w\<lparr>net_servers := AList.update addr (s\<lparr>srv_raft := r\<rparr>) (net_servers w),
    net_faults := tl (net_faults w)\<rparr>)"
proof -
  from fit have ok: "okA a" "CHR ''/'' \<notin> set addr" by (simp_all add: call_fit_def addr_ok_def p)
  obtain rest where rest: "path = CHR ''/'' # rest" using path by blast
  have "okR x" using fit p s h by (auto simp: call_fit_def net_node_def)
  moreover have "net_do ops ''POST'' (raft_url addr path) (Marshal (enc a)) w =
      (Inr (writeJSON (encR x)), w\<lparr>net_servers := AList.update addr (s\<lparr>srv_raft := r\<rparr>) (net_servers w),
        net_faults := tl (net_faults w)\<rparr>)"
    using net_serve_known [OF ok(1) _ h, of "w\<lparr>net_faults := tl (net_faults w)\<rparr>" addr] s assms(2)
    by (simp add: net_do_url [OF ok(2) rest])
  ultimately show ?thesis using p by (simp add: call postJSON_ok)
qed

lemma node_update:
  assumes "fit w p a" and "map_of (ht_peers t) p = Some addr"
    and "net_servers w' = AList.update addr s' (net_servers w)"
  shows "net_node t w' p = Some (srv_raft s')" "q \<noteq> p \<Longrightarrow> net_node t w' q = net_node t w q"
proof -
  show "net_node t w' p = Some (srv_raft s')" using assms by (simp add: net_node_def update_conv)
  assume "q \<noteq> p"
  with assms(1,2) have "map_of (ht_peers t) q \<noteq> Some addr"
    by (auto simp: call_fit_def addr_ok_def list_all_iff dest!: map_of_SomeD)
  with assms(3) show "net_node t w' q = net_node t w q"
    by (cases "map_of (ht_peers t) q") (auto simp: net_node_def update_conv)
qed

lemma same_effect:
  assumes "fit w p a" and "next_fault w = Deliver" and same: "same_nodes t lt w"
    and r: "map_of (lt_nodes lt) p = Some r" and h: "handle a r = Some (x, r')"
  shows "\<exists>w'. call p a w = (Inr x, w') \<and> same_nodes t (lt\<lparr>lt_nodes := AList.update p r' (lt_nodes lt)\<rparr>) w'"
proof -
  from r same obtain addr s where
    p: "map_of (ht_peers t) p = Some addr" and s: "map_of (net_servers w) addr = Some s" and [simp]: "r = srv_raft s"
    by (auto simp: same_nodes_def net_node_def bind_eq_Some_conv)
  define w' where "w' = w\<lparr>net_servers := AList.update addr (s\<lparr>srv_raft := r'\<rparr>) (net_servers w), net_faults := tl (net_faults w)\<rparr>"
  have "call p a w = (Inr x, w')" unfolding w'_def using assms(1,2) p s h by (intro delivered) simp_all
  moreover have "net_node t w' q = (if q = p then Some r' else net_node t w q)" for q
    using node_update(1) [OF assms(1) p, of w' "s\<lparr>srv_raft := r'\<rparr>"] node_update(2) [OF assms(1) p, of w' "s\<lparr>srv_raft := r'\<rparr>" q]
    by (simp add: w'_def)
  ultimately show ?thesis using same by (auto simp: same_nodes_def update_conv)
qed

end

sublocale endpoint \<subseteq> remote_call "\<lambda>p a w. Some (call p a w)" handle "net_node t" "call_fit t okA okR handle"
proof
  fix p a w reply w'
  assume c: "Some (call p a w) = Some (Inr reply, w')" and fit: "fit w p a"
  then have c: "call p a w = (Inr reply, w')" by simp
  from c fit show "\<exists>r r'. net_node t w p = Some r \<and> handle a r = Some (reply, r') \<and> net_node t w' p = Some r'"
  proof (cases rule: call_cases)
    case (run addr s x r)
    with node_update(1) [OF fit run(1,5)] show ?thesis by (auto simp: net_node_def)
  qed simp
next
  fix p a w res w'
  assume c: "Some (call p a w) = Some (res, w')" and fit: "fit w p a"
  then have c: "call p a w = (res, w')" by simp
  from c fit show "net_node t w' p = net_node t w p \<or>
      (\<exists>r reply r'. net_node t w p = Some r \<and> handle a r = Some (reply, r') \<and> net_node t w' p = Some r')"
  proof (cases rule: call_cases)
    case (run addr s x r)
    with node_update(1) [OF fit run(1,5)] show ?thesis by (auto simp: net_node_def)
  qed (simp add: net_node_def)
next
  fix p a w res w' q
  assume c: "Some (call p a w) = Some (res, w')" and fit: "fit w p a" and q: "q \<noteq> p"
  then have c: "call p a w = (res, w')" by simp
  from c fit show "net_node t w' q = net_node t w q"
  proof (cases rule: call_cases)
    case (run addr s x r)
    with node_update(2) [OF fit run(1,5) q] show ?thesis by simp
  qed (simp add: net_node_def)
qed

subsection \<open>The transports meet the interface\<close>

interpretation local_vote: vote_call "LocalTransport_RequestVote ops ctxErr" ops "\<lambda>t. map_of (lt_nodes t)" "\<lambda>_ _ _. True"
  for ops :: "'s StorageOps" and ctxErr
  by unfold_locales
    (auto simp: LocalTransport_RequestVote_def getPeer_def update_conv split: option.splits prod.splits)

interpretation local_append: remote_call "LocalTransport_AppendEntries ops ctxErr" "\<lambda>a r. HandleAppendEntries ops r a"
    "\<lambda>t. map_of (lt_nodes t)" "\<lambda>_ _ _. True"
  for ops :: "'s StorageOps" and ctxErr
  by unfold_locales
    (auto simp: LocalTransport_AppendEntries_def getPeer_def update_conv split: option.splits prod.splits)

interpretation local_snapshot: remote_call "LocalTransport_InstallSnapshot ops ctxErr"
    "\<lambda>a r. Some (HandleInstallSnapshot ops r a)" "\<lambda>t. map_of (lt_nodes t)" "\<lambda>_ _ _. True"
  for ops :: "'s StorageOps" and ctxErr
  by unfold_locales
    (auto simp: LocalTransport_InstallSnapshot_def getPeer_def update_conv split: option.splits prod.splits)

text \<open>The encodings of each endpoint, as the round trips the interface asks for.\<close>

lemma decode_first_Marshal:
  "nums_ok v \<Longrightarrow> depth v \<le> max_depth \<Longrightarrow> decode_first (Marshal v) = Some (clean v)"
  by (rule decode_first_parse) (rule parse_Marshal)

lemmas message_first =
  message_json_ok [THEN conjunct1] message_json_ok [THEN conjunct2] decode_first_Marshal decode_first_Encode
  decode_json_RequestVoteArgs decode_json_RequestVoteReply decode_json_AppendEntriesArgs
  decode_json_AppendEntriesReply decode_json_InstallSnapshotArgs decode_json_InstallSnapshotReply

abbreviation vote_fit where
  "vote_fit ops t \<equiv> call_fit t vote_args_ok (\<lambda>x. int64 (rvr_Term x)) (\<lambda>a r. Some (HandleRequestVote ops r a))"

abbreviation append_fit where
  "append_fit ops t \<equiv> call_fit t append_args_ok append_reply_ok (\<lambda>a r. HandleAppendEntries ops r a)"

abbreviation snapshot_fit where
  "snapshot_fit ops t \<equiv>
     call_fit t snapshot_args_ok (\<lambda>x. int64 (isr_Term x)) (\<lambda>a r. Some (HandleInstallSnapshot ops r a))"

interpretation http_vote: endpoint ops t "''/raft/request-vote''" "HTTPTransport_RequestVote (net_do ops) t"
    json_RequestVoteArgs decode_RequestVoteArgs json_RequestVoteReply decode_RequestVoteReply
    vote_args_ok "\<lambda>x. int64 (rvr_Term x)" "\<lambda>a r. Some (HandleRequestVote ops r a)"
  for ops :: "'s StorageOps" and t
  by unfold_locales
    (auto simp: HTTPTransport_RequestVote_def message_first raftRoute_def requestVoteHandler_def fun_eq_iff
      split: option.split prod.split)

interpretation http_append: endpoint ops t "''/raft/append-entries''" "HTTPTransport_AppendEntries (net_do ops) t"
    json_AppendEntriesArgs decode_AppendEntriesArgs json_AppendEntriesReply decode_AppendEntriesReply
    append_args_ok append_reply_ok "\<lambda>a r. HandleAppendEntries ops r a"
  for ops :: "'s StorageOps" and t
  by unfold_locales
    (auto simp: HTTPTransport_AppendEntries_def message_first raftRoute_def appendEntriesHandler_def fun_eq_iff
      split: option.split prod.split)

interpretation http_snapshot: endpoint ops t "''/raft/install-snapshot''" "HTTPTransport_InstallSnapshot (net_do ops) t"
    json_InstallSnapshotArgs decode_InstallSnapshotArgs json_InstallSnapshotReply decode_InstallSnapshotReply
    snapshot_args_ok "\<lambda>x. int64 (isr_Term x)" "\<lambda>a r. Some (HandleInstallSnapshot ops r a)"
  for ops :: "'s StorageOps" and t
  by unfold_locales
    (auto simp: HTTPTransport_InstallSnapshot_def message_first raftRoute_def installSnapshotHandler_def fun_eq_iff
      split: option.split prod.split)

interpretation http_ballot: vote_call "\<lambda>p a w. Some (HTTPTransport_RequestVote (net_do ops) t p a w)" ops "net_node t"
    "call_fit t vote_args_ok (\<lambda>x. int64 (rvr_Term x)) (\<lambda>a r. Some (HandleRequestVote ops r a))"
  for ops :: "'s StorageOps" and t
  by unfold_locales

subsection \<open>Properties\<close>

text \<open>
  C20.  The HTTP transport is equivalent to the in-memory one when the network delivers: over the same
  nodes, each of the three RPCs returns the same reply and leaves the same nodes, although the arguments
  and the reply travel as JSON.
\<close>

theorem transports_agree:
  assumes "same_nodes t lt w" and "next_fault w = Deliver" and "getPeer p lt = Inr r"
  shows "(vote_fit ops t w p va \<longrightarrow>
      (\<exists>reply lt' w'. LocalTransport_RequestVote ops None p va lt = Some (Inr reply, lt') \<and>
         HTTPTransport_RequestVote (net_do ops) t p va w = (Inr reply, w') \<and> same_nodes t lt' w')) \<and>
    (append_fit ops t w p aa \<and> HandleAppendEntries ops r aa \<noteq> None \<longrightarrow>
      (\<exists>reply lt' w'. LocalTransport_AppendEntries ops None p aa lt = Some (Inr reply, lt') \<and>
         HTTPTransport_AppendEntries (net_do ops) t p aa w = (Inr reply, w') \<and> same_nodes t lt' w')) \<and>
    (snapshot_fit ops t w p sa \<longrightarrow>
      (\<exists>reply lt' w'. LocalTransport_InstallSnapshot ops None p sa lt = Some (Inr reply, lt') \<and>
         HTTPTransport_InstallSnapshot (net_do ops) t p sa w = (Inr reply, w') \<and> same_nodes t lt' w'))"
proof -
  have r: "map_of (lt_nodes lt) p = Some r" using assms(3) by (simp add: getPeer_def split: option.splits)
  note call = assms(2,1) r
  obtain vx vr sx sr where h: "HandleRequestVote ops r va = (vx, vr)" "HandleInstallSnapshot ops r sa = (sx, sr)"
    by fastforce
  show ?thesis
    using http_vote.same_effect [OF _ call, of ops va vx vr] http_append.same_effect [OF _ call, of ops aa]
      http_snapshot.same_effect [OF _ call, of ops sa sx sr]
    by (auto simp: LocalTransport_RequestVote_def LocalTransport_AppendEntries_def LocalTransport_InstallSnapshot_def
        getPeer_def r h)
qed

text \<open>Two addresses, the second with a fresh node of the trio behind it.\<close>

definition pair_transport :: HTTPTransport where
  "pair_transport = NewHTTPTransport [(''n1'', ''h1:1''), (''n2'', ''h2:1'')]"

definition pair_net :: "Fault list \<Rightarrow> MemoryStorage Net" where
  "pair_net fs = \<lparr>net_servers = [(''h2:1'', demo_server (fresh ''n2''))], net_faults = fs\<rparr>"

definition pair_local :: "MemoryStorage LocalTransport" where
  "pair_local = \<lparr>lt_nodes = [(''n2'', fresh ''n2'')]\<rparr>"

lemma pair_same: "same_nodes pair_transport pair_local (pair_net fs)"
  by (auto simp: same_nodes_def pair_local_def pair_net_def pair_transport_def NewHTTPTransport_def net_node_def
      demo_server_def fun_eq_iff)

lemma pair_node: "net_node pair_transport (pair_net fs) ''n2'' = Some (fresh ''n2'')" "addr_ok pair_transport ''n2''"
  by (simp_all add: pair_net_def pair_transport_def NewHTTPTransport_def net_node_def addr_ok_def demo_server_def)

lemma pair_vote_fit: "vote_fit memory_ops pair_transport (pair_net fs) ''n2'' (ask_vote ''n1'')"
proof -
  have "rvr_Term (fst (HandleRequestVote memory_ops (fresh ''n2'') (ask_vote ''n1''))) = 1" by code_simp
  then show ?thesis
    by (simp add: call_fit_def pair_node int64_def split_beta)
      (simp add: ask_vote_def vote_args_ok_def int64_def valid_utf8.simps)
qed

lemma pair_append_fit: "append_fit memory_ops pair_transport (pair_net fs) ''n2'' append_a"
proof -
  have "HandleAppendEntries memory_ops (fresh ''n2'') append_a \<noteq> None"
    "append_reply_ok (fst (the (HandleAppendEntries memory_ops (fresh ''n2'') append_a)))" by code_simp+
  then show ?thesis
    by (auto simp: call_fit_def pair_node)
      (simp add: append_a_def append_args_ok_def entries_ok_def int64_def valid_utf8.simps)
qed

lemma pair_snapshot_fit: "snapshot_fit memory_ops pair_transport (pair_net fs) ''n2'' snap_one"
proof -
  have "isr_Term (fst (HandleInstallSnapshot memory_ops (fresh ''n2'') snap_one)) = 1" by code_simp
  then show ?thesis
    by (simp add: call_fit_def pair_node int64_def split_beta)
      (simp add: snap_one_def snapshot_args_ok_def int64_def valid_utf8.simps)
qed

theorem transports_agree_witness:
  "\<exists>reply lt' w'. LocalTransport_AppendEntries memory_ops None ''n2'' append_a pair_local = Some (Inr reply, lt') \<and>
     HTTPTransport_AppendEntries (net_do memory_ops) pair_transport ''n2'' append_a (pair_net []) = (Inr reply, w') \<and>
     same_nodes pair_transport lt' w'"
proof -
  have "HandleAppendEntries memory_ops (fresh ''n2'') append_a \<noteq> None" by code_simp
  moreover have "next_fault (pair_net []) = Deliver" "getPeer ''n2'' pair_local = Inr (fresh ''n2'')"
    by (simp_all add: next_fault_def pair_net_def getPeer_def pair_local_def)
  ultimately show ?thesis
    using transports_agree [OF pair_same, of "[]" "''n2''" "fresh ''n2''" memory_ops undefined append_a undefined]
      pair_append_fit by blast
qed

text \<open>
  Votes are binding over a network that loses requests and answers: if \<^verbatim>\<open>HTTPTransport.RequestVote\<close>
  returns a granted vote, the peer has recorded that vote in that term; and whatever it returns, no node's
  vote is taken back (its term grows, or the term and a vote cast in it stay).
\<close>

lemma http_vote_binding:
  assumes "HTTPTransport_RequestVote (net_do ops) t p a w = (res, w')" and "vote_fit ops t w p a"
  shows "(\<forall>reply. res = Inr reply \<longrightarrow> rvr_VoteGranted reply \<longrightarrow>
      (\<exists>r'. net_node t w' p = Some r' \<and> currentTerm r' = rva_Term a \<and> votedFor r' = rva_CandidateID a)) \<and>
    (\<forall>q. rel_option ballot_le (net_node t w q) (net_node t w' q))"
  using http_ballot.granted_is_vote [of ops t p a w _ w'] http_ballot.ballots_forward [of ops t p a w res w'] assms
  by auto

text \<open>What \<^verbatim>\<open>net\<close> promises of its connections: which are open changes only by dialling and closing.\<close>

definition conns_ok :: "('w \<Rightarrow> nat set) \<Rightarrow> 'w Conns \<Rightarrow> bool" where
  "conns_ok opened io \<longleftrightarrow>
     (\<forall>addr w e w'. dialContext io addr w = (Inl e, w') \<longrightarrow> opened w' = opened w) \<and>
     (\<forall>addr w c w'. dialContext io addr w = (Inr c, w') \<longrightarrow> c \<notin> opened w \<and> opened w' = insert c (opened w)) \<and>
     (\<forall>c s w. opened (snd (connWrite io c s w)) = opened w) \<and>
     (\<forall>c w. opened (snd (readResponse io c w)) = opened w) \<and>
     (\<forall>c w. opened (connClose io c w) = opened w - {c})"

lemma Dial_opened:
  assumes "conns_ok opened io" and "Dial io addr w = (res, w')"
  shows "case res of Inl _ \<Rightarrow> opened w' = opened w | Inr c \<Rightarrow> c \<notin> opened w \<and> opened w' = insert c (opened w)"
proof (cases "dialContext io addr w")
  case (Pair d w1)
  show ?thesis
  proof (cases d)
    case (Inl e)
    with Pair assms show ?thesis by (auto simp: Dial_def dialHTTPPath_def conns_ok_def)
  next
    case (Inr c)
    from assms(1) Pair Inr have 1: "c \<notin> opened w" "opened w1 = insert c (opened w)" by (auto simp: conns_ok_def)
    obtain e2 w2 where 2: "connWrite io c (connectRequest RPCPath) w1 = (e2, w2)" by fastforce
    obtain e3 w3 where 3: "readResponse io c w2 = (e3, w3)" by fastforce
    have "opened w2 = opened w1" "opened w3 = opened w2" "opened (connClose io c v) = opened v - {c}" for v
      using assms(1) 2 3 by (auto simp: conns_ok_def dest: spec [where x = c]) (metis snd_conv)+
    with 1 2 3 Pair Inr assms(2) show ?thesis
      by (auto simp: Dial_def dialHTTPPath_def split: option.splits sum.splits if_splits)
  qed
qed

lemma RPCClient_call_opened:
  assumes "conns_ok opened io" and "\<And>c m x v. opened (snd (invoke c m x v)) = opened v"
  shows "opened (snd (RPCClient_call io invoke addr meth a w)) = opened w"
proof -
  obtain d w1 where d: "Dial io addr w = (d, w1)" by fastforce
  have close: "opened (connClose io c v) = opened v - {c}" for c v using assms(1) by (simp add: conns_ok_def)
  have inv: "opened v = opened w1" if "invoke c meth a w1 = (x, v)" for c x v
    using assms(2) [of c meth a w1] that by simp
  show ?thesis
    using Dial_opened [OF assms(1) d]
    by (auto simp: RPCClient_call_def d close dest!: inv split: sum.splits prod.splits)
qed

lemma RPCClient_call_reply:
  "fst (RPCClient_call io invoke addr meth a w) = Inr reply \<longleftrightarrow>
     (\<exists>c v v'. Dial io addr w = (Inr c, v) \<and> invoke c meth a v = (Inr reply, v'))"
  by (auto simp: RPCClient_call_def split: prod.splits sum.splits)

lemma RPCTransport_call_reply:
  "fst (RPCTransport_call io invoke ctxErr t p meth a w) = Inr reply \<longleftrightarrow> ctxErr = None \<and>
     (\<exists>addr c v v'. map_of (rt_peers t) p = Some addr \<and> Dial io addr w = (Inr c, v) \<and>
        invoke c (''RaftService.'' @ meth) a v = (Inr reply, v'))"
  by (auto simp: RPCTransport_call_def RaftServiceName_def Let_def split: prod.splits sum.splits option.splits)

lemma RPCTransport_call_opened:
  assumes "conns_ok opened io" and "\<And>c m x v. opened (snd (invoke c m x v)) = opened v"
  shows "opened (snd (RPCTransport_call io invoke ctxErr t p meth a w)) = opened w"
proof (cases "map_of (rt_peers t) p")
  case None
  then show ?thesis by (simp add: RPCTransport_call_def)
next
  case (Some addr)
  obtain d w1 where d: "Dial io addr w = (d, w1)" by fastforce
  have close: "opened (connClose io c v) = opened v - {c}" for c v using assms(1) by (simp add: conns_ok_def)
  have inv: "opened v = opened w1" if "invoke c m a w1 = (x, v)" for c m x v
    using assms(2) [of c m a w1] that by simp
  show ?thesis
    using Dial_opened [OF assms(1) d]
    by (auto simp: RPCTransport_call_def Some d close Let_def dest!: inv split: sum.splits prod.splits option.splits)
qed

text \<open>
  C32.  Where connections open only by dialling and close only by closing, a call of the RPC transport or
  of the RPC client leaves no connection open, on every path: an unknown peer, a failed dial, a refused handshake, a failed call, a context that ends first, and
  success.  Each succeeds exactly with the answer of the method it names, called with its arguments over
  a connection it opened to the address it was given: the transport, unless its context ended, calls the
  method of the Raft service at the configured address of the peer, the client the named method at the
  named address.
\<close>

theorem rpc_call_closes:
  assumes "conns_ok opened io" and "\<And>c m x v. opened (snd (invoke c m x v)) = opened v"
    and "RPCTransport_call io invoke ctxErr t p meth a w = (res, w')"
    and "RPCClient_call io invoke addr cmeth a w = (cres, cw')"
  shows "opened w' = opened w \<and> opened cw' = opened w \<and>
    (\<forall>reply. res = Inr reply \<longleftrightarrow> ctxErr = None \<and>
       (\<exists>addr c v v'. map_of (rt_peers t) p = Some addr \<and> Dial io addr w = (Inr c, v) \<and>
         invoke c (''RaftService.'' @ meth) a v = (Inr reply, v'))) \<and>
    (\<forall>reply. cres = Inr reply \<longleftrightarrow>
       (\<exists>c v v'. Dial io addr w = (Inr c, v) \<and> invoke c cmeth a v = (Inr reply, v')))"
proof -
  have "opened (snd (RPCTransport_call io invoke ctxErr t p meth a w)) = opened w"
    using assms(1,2) by (rule RPCTransport_call_opened)
  moreover have "opened (snd (RPCClient_call io invoke addr cmeth a w)) = opened w"
    using assms(1,2) by (rule RPCClient_call_opened)
  ultimately have "opened w' = opened w" "opened cw' = opened w" unfolding assms(3,4) by simp_all
  with RPCTransport_call_reply [of io invoke ctxErr t p meth a w] RPCClient_call_reply [of io invoke addr cmeth a w]
  show ?thesis unfolding assms(3,4) fst_conv by blast
qed

definition demo_conns :: "nat \<Rightarrow> nat list Conns" where
  "demo_conns code = \<lparr>dialContext = (\<lambda>addr w. let c = Suc (sum_list w) in (Inr c, c # w)),
     connWrite = (\<lambda>c s w. (None, w)), readResponse = (\<lambda>c w. (Inr (code, ''refused''), w)),
     connClose = (\<lambda>c w. removeAll c w)\<rparr>"

lemma demo_conns_ok: "conns_ok set (demo_conns code)"
proof -
  have "Suc (sum_list w) \<notin> set w" for w :: "nat list"
    using member_le_sum_list [of "Suc (sum_list w)" w] by auto
  then show ?thesis by (auto simp: conns_ok_def demo_conns_def Let_def)
qed

theorem rpc_call_closes_witness:
  "set (snd (RPCTransport_call (demo_conns 403) (\<lambda>c m (x :: nat) w. (Inr x, w)) None
     (NewRPCTransport [(''n2'', ''h2:1'')]) ''n2'' ''RequestVote'' 7 [4, 2])) = set [4, 2] \<and>
   set (snd (RPCClient_call (demo_conns 200) (\<lambda>c m (x :: nat) w. (Inr x, w)) ''h2:1'' ''KVService.Get'' 7 [4, 2])) = set [4, 2]"
proof -
  let ?f = "\<lambda>c m (x :: nat) w. (Inr x, w)" and ?t = "NewRPCTransport [(''n2'', ''h2:1'')]"
  note closes = rpc_call_closes [OF demo_conns_ok _ prod.collapse [symmetric] prod.collapse [symmetric],
      of ?f _ None ?t "''n2''" "''RequestVote''" 7 "[4, 2]" "''h2:1''" "''KVService.Get''"]
  show ?thesis using closes [of 403] closes [of 200] by simp
qed

end
