(* ===== verification/Fake_Clock.thy ===== *)
theory Fake_Clock
  imports Prelude
begin

text \<open>
  The manually advanced clock of \<^verbatim>\<open>src/raft/fake_clock.go\<close>.  Timers and tickers are objects that the
  clock and its user share, so they live in a heap of the model, under the number the constructor
  returns; the clock holds the lists of the active ones.  A channel of capacity one is an option.  Times
  and durations are nanoseconds.
\<close>

record fakeTimer =
  ft_when :: int
  ft_ch :: "int option"
  ft_stopped :: bool
  ft_fired :: bool

record fakeTicker =
  fk_interval :: int
  fk_next :: int
  fk_ch :: "int option"
  fk_stopped :: bool

record FakeClock =
  fc_now :: int
  fc_timers :: "nat list"
  fc_tickers :: "nat list"
  timerHeap :: "nat \<Rightarrow> fakeTimer"
  tickerHeap :: "nat \<Rightarrow> fakeTicker"
  fc_fresh :: nat

definition NewFakeClock :: "int \<Rightarrow> FakeClock" where
  "NewFakeClock start =
     \<lparr>fc_now = start, fc_timers = [], fc_tickers = [],
      timerHeap = (\<lambda>_. \<lparr>ft_when = 0, ft_ch = None, ft_stopped = True, ft_fired = False\<rparr>),
      tickerHeap = (\<lambda>_. \<lparr>fk_interval = 0, fk_next = 0, fk_ch = None, fk_stopped = True\<rparr>), fc_fresh = 0\<rparr>"

definition NewTimer :: "int \<Rightarrow> FakeClock \<Rightarrow> nat \<times> FakeClock" where
  "NewTimer d c =
     (let t = fc_fresh c
      in (t, c\<lparr>timerHeap := (timerHeap c)(t := \<lparr>ft_when = fc_now c + d, ft_ch = None, ft_stopped = False, ft_fired = False\<rparr>),
               fc_timers := fc_timers c @ [t], fc_fresh := Suc t\<rparr>))"

definition NewTicker :: "int \<Rightarrow> FakeClock \<Rightarrow> nat \<times> FakeClock" where
  "NewTicker d c =
     (let t = fc_fresh c
      in (t, c\<lparr>tickerHeap := (tickerHeap c)(t := \<lparr>fk_interval = d, fk_next = fc_now c + d, fk_ch = None, fk_stopped = False\<rparr>),
               fc_tickers := fc_tickers c @ [t], fc_fresh := Suc t\<rparr>))"

definition fakeTimer_Stop :: "nat \<Rightarrow> FakeClock \<Rightarrow> bool \<times> FakeClock" where
  "fakeTimer_Stop t c =
     (let x = timerHeap c t
      in (\<not> ft_stopped x \<and> \<not> ft_fired x, c\<lparr>timerHeap := (timerHeap c)(t := x\<lparr>ft_stopped := True\<rparr>)\<rparr>))"

definition fakeTicker_Stop :: "nat \<Rightarrow> FakeClock \<Rightarrow> FakeClock" where
  "fakeTicker_Stop t c = c\<lparr>tickerHeap := (tickerHeap c)(t := (tickerHeap c t)\<lparr>fk_stopped := True\<rparr>)\<rparr>"

text \<open>A non-blocking send: dropped when the buffer is full.\<close>

definition try_send :: "int \<Rightarrow> int option \<Rightarrow> int option" where
  "try_send v ch = (case ch of None \<Rightarrow> Some v | Some x \<Rightarrow> Some x)"

subsection \<open>Advance\<close>

text \<open>
  The ticks of one ticker up to \<open>now\<close>, and its next one.  The loop does not end for a due ticker whose
  interval is not positive; \<^term>\<open>None\<close> is no result.
\<close>

partial_function (option) tickLoop :: "int \<Rightarrow> int \<Rightarrow> int \<Rightarrow> int list \<Rightarrow> (int list \<times> int) option" where
  "tickLoop now interval nxt events =
     (if nxt \<le> now then tickLoop now interval (nxt + interval) (events @ [nxt]) else Some (events, nxt))"

text \<open>The loop over the timers: which are due, and which stay active.\<close>

definition dueTimers :: "int \<Rightarrow> FakeClock \<Rightarrow> nat list" where
  "dueTimers now c =
     filter (\<lambda>t. \<not> ft_stopped (timerHeap c t) \<and> \<not> ft_fired (timerHeap c t) \<and> ft_when (timerHeap c t) \<le> now) (fc_timers c)"

definition activeTimers :: "int \<Rightarrow> FakeClock \<Rightarrow> nat list" where
  "activeTimers now c =
     filter (\<lambda>t. \<not> ft_stopped (timerHeap c t) \<and> \<not> ft_fired (timerHeap c t) \<and> \<not> ft_when (timerHeap c t) \<le> now) (fc_timers c)"

fun advanceTickers :: "int \<Rightarrow> nat list \<Rightarrow> FakeClock \<Rightarrow> FakeClock option" where
  "advanceTickers now [] c = Some c"
| "advanceTickers now (t # ts) c =
     (let x = tickerHeap c t
      in if fk_stopped x then advanceTickers now ts c
         else case tickLoop now (fk_interval x) (fk_next x) [] of
                None \<Rightarrow> None
              | Some (events, nxt) \<Rightarrow>
                  advanceTickers now ts (c\<lparr>tickerHeap := (tickerHeap c)(t :=
                    x\<lparr>fk_next := nxt, fk_ch := fold try_send events (fk_ch x)\<rparr>)\<rparr>))"

definition Advance :: "int \<Rightarrow> FakeClock \<Rightarrow> FakeClock option" where
  "Advance d c =
     (if d \<le> 0 then Some c
      else
        let now = fc_now c + d;
            due = dueTimers now c;
            heap = (\<lambda>t. if t \<in> set due
                        then (timerHeap c t)\<lparr>ft_fired := True, ft_ch := try_send now (ft_ch (timerHeap c t))\<rparr>
                        else timerHeap c t);
            c' = c\<lparr>fc_now := now, fc_timers := activeTimers now c, timerHeap := heap\<rparr>
        in map_option (\<lambda>c''. c''\<lparr>fc_tickers := filter (\<lambda>t. \<not> fk_stopped (tickerHeap c t)) (fc_tickers c)\<rparr>)
             (advanceTickers now (fc_tickers c) c'))"

subsection \<open>The ticks\<close>

lemma tickLoop_result: "tickLoop now i nxt evs = Some r \<Longrightarrow> i \<le> 0 \<longrightarrow> now < nxt"
proof (rule tickLoop.raw_induct [where P = "\<lambda>now i nxt evs r. i \<le> 0 \<longrightarrow> now < nxt"])
  fix loop :: "int \<Rightarrow> int \<Rightarrow> int \<Rightarrow> int list \<Rightarrow> (int list \<times> int) option" and now i nxt :: int and evs :: "int list" and r
  assume IH: "\<And>now i nxt evs r. loop now i nxt evs = Some r \<Longrightarrow> i \<le> 0 \<longrightarrow> now < nxt"
    and step: "(if nxt \<le> now then loop now i (nxt + i) (evs @ [nxt]) else Some (evs, nxt)) = Some r"
  show "i \<le> 0 \<longrightarrow> now < nxt"
    using step IH [of now i "nxt + i" "evs @ [nxt]" r] by (auto split: if_splits)
qed simp

lemma tickLoop_ticks:
  assumes "0 < i"
  shows "\<exists>n. tickLoop now i nxt evs = Some (evs @ map (\<lambda>k. nxt + int k * i) [0..<n], nxt + int n * i) \<and>
     now < nxt + int n * i \<and> (0 < n \<longrightarrow> nxt + (int n - 1) * i \<le> now)"
proof (induction "nat (now - nxt + 1)" arbitrary: nxt evs rule: less_induct)
  case less
  show ?case
  proof (cases "nxt \<le> now")
    case False
    then show ?thesis by (intro exI [of _ 0]) (simp add: tickLoop.simps)
  next
    case True
    with assms less [of "nxt + i" "evs @ [nxt]"] obtain n where
      n: "tickLoop now i (nxt + i) (evs @ [nxt]) =
          Some ((evs @ [nxt]) @ map (\<lambda>k. nxt + i + int k * i) [0..<n], nxt + i + int n * i)"
        "now < nxt + i + int n * i" "0 < n \<longrightarrow> nxt + i + (int n - 1) * i \<le> now"
      by auto
    have ticks: "nxt # map (\<lambda>k. nxt + i + int k * i) [0..<n] = map (\<lambda>k. nxt + int k * i) [0..<Suc n]"
      by (subst upt_conv_Cons) (simp_all add: map_Suc_upt [symmetric] algebra_simps del: upt_Suc)
    have "tickLoop now i nxt evs = Some (evs @ map (\<lambda>k. nxt + int k * i) [0..<Suc n], nxt + int (Suc n) * i)"
      using True n(1) unfolding ticks [symmetric] by (subst tickLoop.simps) (simp add: algebra_simps)
    moreover have "now < nxt + int (Suc n) * i" using n(2) by (simp add: algebra_simps)
    moreover have "nxt + (int (Suc n) - 1) * i \<le> now"
      using True n(3) by (cases n) (simp_all add: algebra_simps)
    ultimately show ?thesis by blast
  qed
qed

lemma advanceTickers_total:
  assumes "\<forall>t \<in> set ts. fk_stopped (tickerHeap c t) \<or> 0 < fk_interval (tickerHeap c t)"
  shows "\<exists>c'. advanceTickers now ts c = Some c' \<and> timerHeap c' = timerHeap c \<and> fc_now c' = fc_now c \<and>
     fc_timers c' = fc_timers c"
  using assms
proof (induction ts arbitrary: c)
  case (Cons t ts)
  show ?case
  proof (cases "fk_stopped (tickerHeap c t)")
    case True
    with Cons show ?thesis by (simp add: Let_def)
  next
    case False
    with Cons.prems have "0 < fk_interval (tickerHeap c t)" by simp
    from tickLoop_ticks [OF this, of now "fk_next (tickerHeap c t)" "[]"] obtain evs nxt where
      loop: "tickLoop now (fk_interval (tickerHeap c t)) (fk_next (tickerHeap c t)) [] = Some (evs, nxt)" by auto
    let ?c = "c\<lparr>tickerHeap := (tickerHeap c)(t := (tickerHeap c t)\<lparr>fk_next := nxt, fk_ch := fold try_send evs (fk_ch (tickerHeap c t))\<rparr>)\<rparr>"
    have "\<forall>u \<in> set ts. fk_stopped (tickerHeap ?c u) \<or> 0 < fk_interval (tickerHeap ?c u)"
      using Cons.prems by auto
    from Cons.IH [OF this] False loop show ?thesis by (simp add: Let_def)
  qed
qed simp

lemma advanceTickers_now: "advanceTickers now ts c = Some c' \<Longrightarrow> fc_now c' = fc_now c \<and> timerHeap c' = timerHeap c \<and> fc_timers c' = fc_timers c"
  by (induction now ts c rule: advanceTickers.induct) (auto simp: Let_def split: if_splits option.splits)

text \<open>
  Advancing the clock fires exactly the due timers: as long as every running ticker has a positive
  interval, \<^verbatim>\<open>Advance\<close> returns; a timer that is neither stopped nor fired fires if its time has come, with
  the new time on its channel, and stays active otherwise; no other timer changes, so none fires twice.
\<close>

lemma advance_fires_due:
  assumes "0 < d" and "\<forall>t \<in> set (fc_tickers c). fk_stopped (tickerHeap c t) \<or> 0 < fk_interval (tickerHeap c t)"
  shows "\<exists>c'. Advance d c = Some c' \<and> fc_now c' = fc_now c + d \<and>
     (\<forall>t \<in> set (fc_timers c).
        let x = timerHeap c t; x' = timerHeap c' t
        in if \<not> ft_stopped x \<and> \<not> ft_fired x \<and> ft_when x \<le> fc_now c'
           then ft_fired x' \<and> ft_ch x' \<noteq> None \<and> (ft_ch x = None \<longrightarrow> ft_ch x' = Some (fc_now c')) \<and> t \<notin> set (fc_timers c')
           else x' = x \<and> (t \<in> set (fc_timers c') \<longleftrightarrow> \<not> ft_stopped x \<and> \<not> ft_fired x))"
proof -
  let ?now = "fc_now c + d"
  define c1 where "c1 = c\<lparr>fc_now := ?now, fc_timers := activeTimers ?now c,
      timerHeap := (\<lambda>t. if t \<in> set (dueTimers ?now c)
                        then (timerHeap c t)\<lparr>ft_fired := True, ft_ch := try_send ?now (ft_ch (timerHeap c t))\<rparr>
                        else timerHeap c t)\<rparr>"
  obtain c2 where c2: "advanceTickers ?now (fc_tickers c) c1 = Some c2" "timerHeap c2 = timerHeap c1"
      "fc_now c2 = fc_now c1" "fc_timers c2 = fc_timers c1"
    using advanceTickers_total [of "fc_tickers c" c1 ?now] assms(2) by (auto simp: c1_def)
  have adv: "Advance d c = Some (c2\<lparr>fc_tickers := filter (\<lambda>t. \<not> fk_stopped (tickerHeap c t)) (fc_tickers c)\<rparr>)"
    using assms(1) c2(1) by (simp add: Advance_def Let_def c1_def)
  show ?thesis
    unfolding adv
    by (auto simp: c2 c1_def Let_def dueTimers_def activeTimers_def try_send_def split: option.splits)
qed

definition demo_clock :: FakeClock where
  "demo_clock = snd (NewTimer 5 (snd (NewTicker 2 (NewFakeClock 0))))"

text \<open>A running ticker that is due and whose interval is not positive.\<close>

definition endlessTicker :: "int \<Rightarrow> fakeTicker \<Rightarrow> bool" where
  "endlessTicker now x \<longleftrightarrow> \<not> fk_stopped x \<and> fk_interval x \<le> 0 \<and> fk_next x \<le> now"

lemma tickLoop_ends:
  "tickLoop now i nxt [] = None \<longleftrightarrow> i \<le> 0 \<and> nxt \<le> now"
proof (cases "0 < i")
  case True
  with tickLoop_ticks [of i now nxt "[]"] show ?thesis by auto
next
  case False
  show ?thesis
  proof (cases "nxt \<le> now")
    case True
    with False tickLoop_result [of now i nxt "[]"] show ?thesis
      by (cases "tickLoop now i nxt []") fastforce+
  next
    case False
    then show ?thesis by (simp add: tickLoop.simps)
  qed
qed

lemma advanceTickers_hangs:
  "advanceTickers now ts c = None \<longleftrightarrow> (\<exists>t \<in> set ts. endlessTicker now (tickerHeap c t))"
proof (induction now ts c rule: advanceTickers.induct)
  case (2 now t ts c)
  let ?x = "tickerHeap c t"
  show ?case
  proof (cases "fk_stopped ?x \<or> endlessTicker now ?x")
    case True
    with 2(1) tickLoop_ends [of now "fk_interval ?x" "fk_next ?x"] show ?thesis
      by (auto simp: Let_def endlessTicker_def)
  next
    case False
    then obtain evs nxt where loop: "tickLoop now (fk_interval ?x) (fk_next ?x) [] = Some (evs, nxt)"
      using tickLoop_ends [of now "fk_interval ?x" "fk_next ?x"]
      by (cases "tickLoop now (fk_interval ?x) (fk_next ?x) []") (auto simp: endlessTicker_def)
    then have "\<not> endlessTicker now (?x\<lparr>fk_next := nxt, fk_ch := ch\<rparr>)" for ch
      using False tickLoop.simps [of now "fk_interval ?x" "fk_next ?x" "[]"]
      by (auto simp: endlessTicker_def)
    then have "endlessTicker now (((tickerHeap c)(t := ?x\<lparr>fk_next := nxt, fk_ch := ch\<rparr>)) u) \<longleftrightarrow>
        endlessTicker now (tickerHeap c u)" for ch u
      using False by simp
    with False loop 2(2) show ?thesis by (simp add: Let_def del: fun_upd_apply)
  qed
qed simp

text \<open>
  C40.  \<^verbatim>\<open>Advance\<close> by a positive duration hangs, holding the mutex of the clock, exactly when one of the
  clock's tickers is running, is due by the new time and has an interval that is not positive; such a
  ticker may stand anywhere in the list, next to any others.  \<^verbatim>\<open>NewTicker\<close> accepts such an interval.
\<close>

theorem advance_hangs:
  assumes "0 < d"
  shows "Advance d c = None \<longleftrightarrow>
     (\<exists>t \<in> set (fc_tickers c). \<not> fk_stopped (tickerHeap c t) \<and> fk_interval (tickerHeap c t) \<le> 0 \<and>
        fk_next (tickerHeap c t) \<le> fc_now c + d)"
  using assms by (simp add: Advance_def Let_def advanceTickers_hangs endlessTicker_def)

theorem advance_hangs_witness:
  "Advance 1 (snd (NewTicker 0 (snd (NewTicker 5 (NewFakeClock 0))))) = None \<and>
   Advance 1 (snd (NewTicker 5 (NewFakeClock 0))) \<noteq> None"
  by (simp add: advance_hangs) (simp add: NewTicker_def NewFakeClock_def Let_def)

end
