(* ===== verification/Raft_Timers.thy ===== *)
theory Raft_Timers
  imports Raft_Properties Fake_Clock
begin

text \<open>
  The background goroutines of \<^verbatim>\<open>src/raft/raft.go\<close> that wait for time to pass, \<^verbatim>\<open>runElectionTimer\<close> and
  \<^verbatim>\<open>runHeartbeatLoop\<close>, over the clock of \<^verbatim>\<open>src/raft/fake_clock.go\<close>.  A loop is a state machine whose steps
  are the cases of its \<^verbatim>\<open>select\<close>; between them the clock advances and other goroutines run critical
  sections of the node.  \<open>tm_armed\<close> is a history variable, the time at which the current timer was made.
\<close>

subsection \<open>The loops\<close>

record 's Timing =
  tm_raft :: "'s Raft"
  tm_clock :: FakeClock
  tm_timer :: nat
  tm_armed :: int
  tm_election :: bool
  tm_ticker :: nat
  tm_heartbeat :: bool
  tm_effects :: "Effect list"

definition recvTimer :: "nat \<Rightarrow> FakeClock \<Rightarrow> FakeClock" where
  "recvTimer t c = c\<lparr>timerHeap := (timerHeap c)(t := (timerHeap c t)\<lparr>ft_ch := None\<rparr>)\<rparr>"

definition recvTicker :: "nat \<Rightarrow> FakeClock \<Rightarrow> FakeClock" where
  "recvTicker t c = c\<lparr>tickerHeap := (tickerHeap c)(t := (tickerHeap c t)\<lparr>fk_ch := None\<rparr>)\<rparr>"

text \<open>Stopping a timer, and emptying its channel if it had fired.\<close>

definition stopAndDrain :: "nat \<Rightarrow> FakeClock \<Rightarrow> FakeClock" where
  "stopAndDrain t c = (let (running, c) = fakeTimer_Stop t c in if \<not> running then recvTimer t c else c)"

text \<open>The start of an iteration: \<open>rnd\<close> is what \<^verbatim>\<open>rand.Int63n\<close> returns.\<close>

definition armElectionTimer :: "int \<Rightarrow> 's Timing \<Rightarrow> 's Timing" where
  "armElectionTimer rnd s =
     (let (t, c) = NewTimer (randomizedElectionTimeout rnd (tm_raft s)) (tm_clock s)
      in s\<lparr>tm_clock := c, tm_timer := t, tm_armed := fc_now (tm_clock s)\<rparr>)"

datatype ElectionCase = TimerFired | ResetReceived | ElectionStopped

text \<open>One case of the select, taken when it is ready, and the start of the next iteration.\<close>

fun runElectionTimer_select :: "'s StorageOps \<Rightarrow> ElectionCase \<Rightarrow> int \<Rightarrow> 's Timing \<Rightarrow> 's Timing option" where
  "runElectionTimer_select ops TimerFired rnd s =
     (if ft_ch (timerHeap (tm_clock s) (tm_timer s)) = None then None
      else let (r, effs) = startElection ops (tm_raft s)
           in Some (armElectionTimer rnd (s\<lparr>tm_clock := recvTimer (tm_timer s) (tm_clock s), tm_raft := r,
                tm_effects := tm_effects s @ effs\<rparr>)))"
| "runElectionTimer_select ops ResetReceived rnd s =
     (if \<not> resetElectionCh (tm_raft s) then None
      else Some (armElectionTimer rnd (s\<lparr>tm_raft := (tm_raft s)\<lparr>resetElectionCh := False\<rparr>,
             tm_clock := stopAndDrain (tm_timer s) (tm_clock s)\<rparr>)))"
| "runElectionTimer_select ops ElectionStopped rnd s =
     (if \<not> stopCh (tm_raft s) then None
      else Some (s\<lparr>tm_clock := stopAndDrain (tm_timer s) (tm_clock s), tm_election := False\<rparr>))"

datatype HeartbeatCase = TickReceived | HeartbeatStopped

fun runHeartbeatLoop_select :: "HeartbeatCase \<Rightarrow> 's Timing \<Rightarrow> 's Timing option" where
  "runHeartbeatLoop_select TickReceived s =
     (if fk_ch (tickerHeap (tm_clock s) (tm_ticker s)) = None then None
      else Some (s\<lparr>tm_clock := recvTicker (tm_ticker s) (tm_clock s),
             tm_effects := tm_effects s @ broadcastAppendEntries (tm_raft s)\<rparr>))"
| "runHeartbeatLoop_select HeartbeatStopped s =
     (if \<not> stopCh (tm_raft s) then None
      else Some (s\<lparr>tm_clock := fakeTicker_Stop (tm_ticker s) (tm_clock s), tm_heartbeat := False\<rparr>))"

text \<open>\<^verbatim>\<open>Run\<close> with the first iteration of both loops.\<close>

definition runTimers :: "int \<Rightarrow> 's Raft \<Rightarrow> FakeClock \<Rightarrow> 's Timing" where
  "runTimers rnd r c =
     (let (k, c) = NewTicker (heartbeatInterval r) c
      in armElectionTimer rnd \<lparr>tm_raft = r, tm_clock = c, tm_timer = 0, tm_armed = 0, tm_election = True,
           tm_ticker = k, tm_heartbeat = True, tm_effects = []\<rparr>)"

datatype TimingEvent =
    ElectionSelect ElectionCase int
  | HeartbeatSelect HeartbeatCase
  | ClockAdvance int
  | NodeSection NodeEvent

text \<open>What \<^verbatim>\<open>rand.Int63n(n)\<close> may return.\<close>

definition int63n :: "int \<Rightarrow> int \<Rightarrow> bool" where
  "int63n n rnd \<longleftrightarrow> 0 \<le> rnd \<and> rnd < n"

fun timing_exec :: "'s StorageOps \<Rightarrow> TimingEvent \<Rightarrow> 's Timing \<Rightarrow> 's Timing option" where
  "timing_exec ops (ElectionSelect k rnd) s =
     (if tm_election s \<and> int63n (electionTimeout (tm_raft s)) rnd then runElectionTimer_select ops k rnd s else None)"
| "timing_exec ops (HeartbeatSelect k) s = (if tm_heartbeat s then runHeartbeatLoop_select k s else None)"
| "timing_exec ops (ClockAdvance d) s = map_option (\<lambda>c. s\<lparr>tm_clock := c\<rparr>) (Advance d (tm_clock s))"
| "timing_exec ops (NodeSection ev) s = map_option (\<lambda>r. s\<lparr>tm_raft := r\<rparr>) (node_exec ops ev (tm_raft s))"

fun timing_run :: "'s StorageOps \<Rightarrow> TimingEvent list \<Rightarrow> 's Timing \<Rightarrow> 's Timing option" where
  "timing_run ops [] s = Some s"
| "timing_run ops (e # es) s = (case timing_exec ops e s of None \<Rightarrow> None | Some s' \<Rightarrow> timing_run ops es s')"

subsection \<open>The timeouts of a node never change\<close>

lemma timeouts_simps [simp]:
  "electionTimeout (becomeFollowerLocked ops t r) = electionTimeout r"
  "heartbeatInterval (becomeFollowerLocked ops t r) = heartbeatInterval r"
  "electionTimeout (becomeLeaderLocked r) = electionTimeout r"
  "heartbeatInterval (becomeLeaderLocked r) = heartbeatInterval r"
  "electionTimeout (resetElectionTimerLocked r) = electionTimeout r"
  "heartbeatInterval (resetElectionTimerLocked r) = heartbeatInterval r"
  by (simp_all add: becomeFollowerLocked_def becomeLeaderLocked_def resetElectionTimerLocked_def Let_def)

lemma appendLoop_timeouts [simp]:
  "electionTimeout (appendLoop ops prev k es r) = electionTimeout r \<and>
   heartbeatInterval (appendLoop ops prev k es r) = heartbeatInterval r"
  by (induction ops prev k es r rule: appendLoop.induct) (auto simp: Let_def)

lemma node_exec_timeouts:
  assumes "node_exec ops ev r = Some r'"
  shows "electionTimeout r' = electionTimeout r \<and> heartbeatInterval r' = heartbeatInterval r"
proof (cases ev)
  case EvAdvanceCommit
  with assms show ?thesis by (cases ops r rule: advanceCommitIndex_locked_cases) auto
next
  case EvApplyTake
  with assms show ?thesis by (auto split: ApplyTake.splits dest!: applyCommitted_take_shape)
next
  case (EvSendAppendEntries peer)
  with assms sendAppendEntries_locked_shape [of r peer] show ?thesis
    by (auto split: prod.splits SendStep.splits)
next
  case (EvWaitSelect err pick ch index)
  with assms show ?thesis by (auto split: option.splits dest!: WaitForCommit_select_shape)
next
  case (EvWaitBegin index trm)
  with assms WaitForCommit_begin_shape [of r index trm] show ?thesis by auto
next
  case (EvSnapshot index data)
  with assms show ?thesis
    by (cases rule: takeSnapshot_cases [of index r ops data]) (auto simp: persistLocked_shape)
next
  case (EvAppendEntries args)
  with assms show ?thesis
    by (auto simp: HandleAppendEntries_locked_def followLeader_def Let_def split: if_splits)
qed (use assms in \<open>auto simp: HandleRequestVote_def handleVoteReply_def Start_locked_eq appended_def
    startElection_begin_def startElection_alone_def applyCommitted_deliver_def
    handleAppendEntriesReply_locked_def HandleInstallSnapshot_locked_def followLeader_def
    handleInstallSnapshotReply_def Stop_def Let_def split: if_splits option.splits\<close>)

lemma startElection_timeouts [simp]:
  "electionTimeout (fst (startElection ops r)) = electionTimeout r"
  "heartbeatInterval (fst (startElection ops r)) = heartbeatInterval r"
  by (auto simp: startElection_def startElection_begin_def startElection_alone_def Let_def split: option.splits)

subsection \<open>What a step of the clock does to one timer and one ticker\<close>

lemma Advance_frame:
  assumes "Advance d c = Some c'" and "0 < d"
  shows "fc_now c' = fc_now c + d" and "fc_timers c' = activeTimers (fc_now c + d) c"
    and "fc_tickers c' = filter (\<lambda>t. \<not> fk_stopped (tickerHeap c t)) (fc_tickers c)"
    and "timerHeap c' t = (if t \<in> set (dueTimers (fc_now c + d) c)
      then (timerHeap c t)\<lparr>ft_fired := True, ft_ch := try_send (fc_now c + d) (ft_ch (timerHeap c t))\<rparr>
      else timerHeap c t)"
  using assms by (auto simp: Advance_def Let_def dest!: advanceTickers_now)

lemma advanceTickers_fresh: "advanceTickers now ts c = Some c' \<Longrightarrow> fc_fresh c' = fc_fresh c"
  by (induction now ts c rule: advanceTickers.induct) (auto simp: Let_def split: if_splits option.splits)

lemma Advance_fresh: "Advance d c = Some c' \<Longrightarrow> fc_fresh c' = fc_fresh c"
  by (auto simp: Advance_def Let_def dest!: advanceTickers_fresh split: if_splits)

lemma fold_try_send: "fold try_send evs ch \<noteq> None \<longleftrightarrow> ch \<noteq> None \<or> evs \<noteq> []"
proof (induction evs arbitrary: ch)
  case (Cons e evs)
  have "try_send e ch \<noteq> None" by (simp add: try_send_def split: option.split)
  with Cons show ?case by simp
qed simp

definition ticker_ok :: "FakeClock \<Rightarrow> nat \<Rightarrow> bool" where
  "ticker_ok c k \<longleftrightarrow> fc_tickers c = [k] \<and> \<not> fk_stopped (tickerHeap c k) \<and> 0 < fk_interval (tickerHeap c k) \<and>
     fk_next (tickerHeap c k) \<le> fc_now c + fk_interval (tickerHeap c k)"

definition ticker_off :: "FakeClock \<Rightarrow> nat \<Rightarrow> bool" where
  "ticker_off c k \<longleftrightarrow> set (fc_tickers c) \<subseteq> {k} \<and> fk_stopped (tickerHeap c k)"

lemma Advance_ticker:
  assumes "ticker_ok c k" and "0 < d"
  shows "\<exists>c'. Advance d c = Some c' \<and> ticker_ok c' k \<and> fk_interval (tickerHeap c' k) = fk_interval (tickerHeap c k) \<and>
    (fk_next (tickerHeap c k) \<le> fc_now c + d \<longrightarrow> fk_ch (tickerHeap c' k) \<noteq> None)"
proof -
  let ?x = "tickerHeap c k" and ?now = "fc_now c + d"
  have k: "fc_tickers c = [k]" "\<not> fk_stopped ?x" "0 < fk_interval ?x" "fk_next ?x \<le> fc_now c + fk_interval ?x"
    using assms(1) by (simp_all add: ticker_ok_def)
  obtain n where n: "tickLoop ?now (fk_interval ?x) (fk_next ?x) [] =
        Some (map (\<lambda>j. fk_next ?x + int j * fk_interval ?x) [0..<n], fk_next ?x + int n * fk_interval ?x)"
    "?now < fk_next ?x + int n * fk_interval ?x"
    "0 < n \<longrightarrow> fk_next ?x + (int n - 1) * fk_interval ?x \<le> ?now"
    using tickLoop_ticks [OF k(3), of ?now "fk_next ?x" "[]"] by auto
  have nxt: "fk_next ?x + int n * fk_interval ?x \<le> ?now + fk_interval ?x"
    using n(3) k(4) assms(2) by (cases "n = 0") (simp_all add: left_diff_distrib)
  have fired: "fold try_send (map (\<lambda>j. fk_next ?x + int j * fk_interval ?x) [0..<n]) (fk_ch ?x) \<noteq> None"
    if "fk_next ?x \<le> ?now" unfolding fold_try_send using that n(2) by (cases n) simp_all
  show ?thesis
    using k assms(2) n(1) nxt fired
    by (simp add: Advance_def Let_def ticker_ok_def del: not_None_eq)
qed

lemma Advance_off:
  assumes "ticker_off c k" and "0 < d"
  shows "\<exists>c'. Advance d c = Some c' \<and> ticker_off c' k"
proof -
  have run: "advanceTickers now ts c1 = Some c1" if "set ts \<subseteq> {k}" and "fk_stopped (tickerHeap c1 k)" for ts c1 now
    using that by (induction ts) (auto simp: Let_def)
  show ?thesis
    using assms by (auto simp: Advance_def Let_def ticker_off_def run)
qed

subsection \<open>The invariant of the loops\<close>

definition idle :: "fakeTimer \<Rightarrow> bool" where
  "idle x \<longleftrightarrow> ft_stopped x \<or> ft_fired x"

definition timer_ok :: "FakeClock \<Rightarrow> nat \<Rightarrow> int \<Rightarrow> int \<Rightarrow> bool" where
  "timer_ok c t armed timeout \<longleftrightarrow>
     (let x = timerHeap c t
      in \<not> ft_stopped x \<and> armed + timeout \<le> ft_when x \<and> ft_when x < armed + 2 * timeout \<and>
         (if ft_fired x then ft_ch x \<noteq> None \<and> ft_when x \<le> fc_now c
          else t \<in> set (fc_timers c) \<and> ft_ch x = None \<and> fc_now c < ft_when x))"

definition heartbeat_inv :: "'s Timing \<Rightarrow> bool" where
  "heartbeat_inv s \<longleftrightarrow>
     (if tm_heartbeat s
      then ticker_ok (tm_clock s) (tm_ticker s) \<and>
        fk_interval (tickerHeap (tm_clock s) (tm_ticker s)) = heartbeatInterval (tm_raft s)
      else ticker_off (tm_clock s) (tm_ticker s))"

definition timing_inv :: "'s Timing \<Rightarrow> bool" where
  "timing_inv s \<longleftrightarrow>
     0 < electionTimeout (tm_raft s) \<and> 2 * electionTimeout (tm_raft s) \<le> 2 ^ 63 \<and> heartbeat_inv s \<and>
     tm_armed s \<le> fc_now (tm_clock s) \<and>
     (\<forall>u \<in> set (fc_timers (tm_clock s)). u < fc_fresh (tm_clock s) \<and>
        (u = tm_timer s \<or> idle (timerHeap (tm_clock s) u))) \<and>
     (if tm_election s then timer_ok (tm_clock s) (tm_timer s) (tm_armed s) (electionTimeout (tm_raft s))
      else ft_stopped (timerHeap (tm_clock s) (tm_timer s)))"

lemma randomized_range:
  assumes "0 < electionTimeout r" and "2 * electionTimeout r \<le> 2 ^ 63" and "int63n (electionTimeout r) rnd"
  shows "electionTimeout r \<le> randomizedElectionTimeout rnd r" "randomizedElectionTimeout rnd r < 2 * electionTimeout r"
  using assms by (simp_all add: randomizedElectionTimeout_def Let_def int63n_def wrap64_id)

lemma ticker_cong:
  assumes "fc_tickers c' = fc_tickers c" and "tickerHeap c' k = tickerHeap c k" and "fc_now c' = fc_now c"
  shows "ticker_ok c' k = ticker_ok c k" "ticker_off c' k = ticker_off c k"
  using assms by (simp_all add: ticker_ok_def ticker_off_def)

text \<open>Arming the next timer is safe once every earlier one is idle.\<close>

lemma arm_inv:
  assumes "0 < electionTimeout (tm_raft s)" and "2 * electionTimeout (tm_raft s) \<le> 2 ^ 63"
    and "int63n (electionTimeout (tm_raft s)) rnd" and "heartbeat_inv s" and "tm_election s"
    and "\<forall>u \<in> set (fc_timers (tm_clock s)). u < fc_fresh (tm_clock s) \<and> idle (timerHeap (tm_clock s) u)"
  shows "timing_inv (armElectionTimer rnd s)"
proof -
  let ?c = "tm_clock s"
  define c' where "c' = snd (NewTimer (randomizedElectionTimeout rnd (tm_raft s)) ?c)"
  have arm: "armElectionTimer rnd s = s\<lparr>tm_clock := c', tm_timer := fc_fresh ?c, tm_armed := fc_now ?c\<rparr>"
    by (simp add: armElectionTimer_def c'_def NewTimer_def Let_def)
  have "heartbeat_inv (s\<lparr>tm_clock := c', tm_timer := fc_fresh ?c, tm_armed := fc_now ?c\<rparr>)"
    using assms(4) ticker_cong [of c' ?c "tm_ticker s"] by (simp add: heartbeat_inv_def c'_def NewTimer_def Let_def)
  moreover have "timer_ok c' (fc_fresh ?c) (fc_now ?c) (electionTimeout (tm_raft s))"
    using randomized_range [OF assms(1-3)] assms(1) by (simp add: timer_ok_def c'_def NewTimer_def Let_def)
  moreover have "\<forall>u \<in> set (fc_timers c'). u < fc_fresh c' \<and> (u = fc_fresh ?c \<or> idle (timerHeap c' u))"
    using assms(6) by (auto simp: c'_def NewTimer_def Let_def)
  moreover have "fc_now c' = fc_now ?c" by (simp add: c'_def NewTimer_def Let_def)
  ultimately show ?thesis using assms(1,2,5) by (simp add: arm timing_inv_def)
qed

lemma stopAndDrain_simps [simp]:
  "fc_now (stopAndDrain t c) = fc_now c" "fc_timers (stopAndDrain t c) = fc_timers c"
  "fc_tickers (stopAndDrain t c) = fc_tickers c" "tickerHeap (stopAndDrain t c) = tickerHeap c"
  "fc_fresh (stopAndDrain t c) = fc_fresh c" "ft_stopped (timerHeap (stopAndDrain t c) t)"
  "u \<noteq> t \<Longrightarrow> timerHeap (stopAndDrain t c) u = timerHeap c u"
  by (auto simp: stopAndDrain_def fakeTimer_Stop_def recvTimer_def Let_def)

lemma recvTimer_simps [simp]:
  "fc_now (recvTimer t c) = fc_now c" "fc_timers (recvTimer t c) = fc_timers c"
  "fc_tickers (recvTimer t c) = fc_tickers c" "tickerHeap (recvTimer t c) = tickerHeap c"
  "fc_fresh (recvTimer t c) = fc_fresh c" "idle (timerHeap (recvTimer t c) u) = idle (timerHeap c u)"
  by (auto simp: recvTimer_def idle_def)

lemma heartbeat_cong:
  assumes "tm_heartbeat s' = tm_heartbeat s" and "tm_ticker s' = tm_ticker s"
    and "heartbeatInterval (tm_raft s') = heartbeatInterval (tm_raft s)"
    and "fc_tickers (tm_clock s') = fc_tickers (tm_clock s)" and "tickerHeap (tm_clock s') = tickerHeap (tm_clock s)"
    and "fc_now (tm_clock s') = fc_now (tm_clock s)"
  shows "heartbeat_inv s' = heartbeat_inv s"
  using assms ticker_cong [of "tm_clock s'" "tm_clock s" "tm_ticker s"] by (simp add: heartbeat_inv_def)

lemma timing_invD:
  assumes "timing_inv s"
  shows "0 < electionTimeout (tm_raft s)" and "2 * electionTimeout (tm_raft s) \<le> 2 ^ 63" and "heartbeat_inv s"
    and "u \<in> set (fc_timers (tm_clock s)) \<Longrightarrow> u < fc_fresh (tm_clock s)"
    and "u \<in> set (fc_timers (tm_clock s)) \<Longrightarrow> u \<noteq> tm_timer s \<Longrightarrow> idle (timerHeap (tm_clock s) u)"
    and "tm_election s \<Longrightarrow> timer_ok (tm_clock s) (tm_timer s) (tm_armed s) (electionTimeout (tm_raft s))"
    and "\<not> tm_election s \<Longrightarrow> ft_stopped (timerHeap (tm_clock s) (tm_timer s))"
    and "tm_armed s \<le> fc_now (tm_clock s)"
  using assms by (auto simp: timing_inv_def)

lemma stopped_idle:
  assumes "timing_inv s"
  shows "\<forall>u \<in> set (fc_timers (tm_clock s)). u < fc_fresh (tm_clock s) \<and>
    idle (timerHeap (stopAndDrain (tm_timer s) (tm_clock s)) u)"
proof
  fix u assume u: "u \<in> set (fc_timers (tm_clock s))"
  show "u < fc_fresh (tm_clock s) \<and> idle (timerHeap (stopAndDrain (tm_timer s) (tm_clock s)) u)"
    using timing_invD(4,5) [OF assms u] by (cases "u = tm_timer s") (simp_all add: idle_def)
qed

lemma election_select_inv:
  assumes inv: "timing_inv s" and "tm_election s" and "int63n (electionTimeout (tm_raft s)) rnd"
    and step: "runElectionTimer_select ops k rnd s = Some s'"
  shows "timing_inv s'"
proof (cases k)
  case TimerFired
  let ?r = "fst (startElection ops (tm_raft s))"
  let ?s = "s\<lparr>tm_clock := recvTimer (tm_timer s) (tm_clock s), tm_raft := ?r,
     tm_effects := tm_effects s @ snd (startElection ops (tm_raft s))\<rparr>"
  from step TimerFired have ch: "ft_ch (timerHeap (tm_clock s) (tm_timer s)) \<noteq> None"
    and s': "s' = armElectionTimer rnd ?s" by (auto simp: split_beta split: if_splits)
  have "idle (timerHeap (tm_clock s) (tm_timer s))"
    using timing_invD(6) [OF inv assms(2)] ch by (auto simp: timer_ok_def idle_def Let_def split: if_splits)
  then have "\<forall>u \<in> set (fc_timers (tm_clock s)). u < fc_fresh (tm_clock s) \<and> idle (timerHeap (tm_clock s) u)"
    using timing_invD(4,5) [OF inv] by metis
  moreover have "heartbeat_inv ?s" using timing_invD(3) [OF inv] heartbeat_cong [of ?s s] by simp
  ultimately show ?thesis unfolding s' using timing_invD(1,2) [OF inv] assms(2,3) by (intro arm_inv) simp_all
next
  case ResetReceived
  let ?s = "s\<lparr>tm_raft := (tm_raft s)\<lparr>resetElectionCh := False\<rparr>, tm_clock := stopAndDrain (tm_timer s) (tm_clock s)\<rparr>"
  from step ResetReceived have s': "s' = armElectionTimer rnd ?s" by (auto split: if_splits)
  have "heartbeat_inv ?s" using timing_invD(3) [OF inv] heartbeat_cong [of ?s s] by simp
  then show ?thesis unfolding s' using timing_invD(1,2) [OF inv] stopped_idle [OF inv] assms(2,3)
    by (intro arm_inv) simp_all
next
  case ElectionStopped
  then have s': "s' = s\<lparr>tm_clock := stopAndDrain (tm_timer s) (tm_clock s), tm_election := False\<rparr>"
    using step by (auto split: if_splits)
  have "heartbeat_inv s'" using timing_invD(3) [OF inv] heartbeat_cong [of s' s] by (simp add: s')
  then show ?thesis
    using timing_invD(1,2,8) [OF inv] stopped_idle [OF inv] by (simp add: timing_inv_def s')
qed

lemma tickers_only_simps [simp]:
  "timer_ok (recvTicker k c) t armed timeout = timer_ok c t armed timeout"
  "timer_ok (fakeTicker_Stop k c) t armed timeout = timer_ok c t armed timeout"
  "timerHeap (recvTicker k c) = timerHeap c" "timerHeap (fakeTicker_Stop k c) = timerHeap c"
  "fc_timers (recvTicker k c) = fc_timers c" "fc_timers (fakeTicker_Stop k c) = fc_timers c"
  "fc_fresh (recvTicker k c) = fc_fresh c" "fc_fresh (fakeTicker_Stop k c) = fc_fresh c"
  "fc_now (recvTicker k c) = fc_now c" "fc_now (fakeTicker_Stop k c) = fc_now c"
  by (simp_all add: recvTicker_def fakeTicker_Stop_def timer_ok_def)

lemma heartbeat_select_inv:
  assumes inv: "timing_inv s" and on: "tm_heartbeat s" and step: "runHeartbeatLoop_select k s = Some s'"
  shows "timing_inv s'"
proof -
  have tick: "ticker_ok (tm_clock s) (tm_ticker s)"
    "fk_interval (tickerHeap (tm_clock s) (tm_ticker s)) = heartbeatInterval (tm_raft s)"
    using timing_invD(3) [OF inv] on by (simp_all add: heartbeat_inv_def)
  have "heartbeat_inv s'"
    using step on tick
    by (cases k) (auto simp: heartbeat_inv_def ticker_ok_def ticker_off_def recvTicker_def fakeTicker_Stop_def
        split: if_splits)
  moreover have "tm_raft s' = tm_raft s \<and> tm_timer s' = tm_timer s \<and> tm_armed s' = tm_armed s \<and>
      tm_election s' = tm_election s \<and>
      (tm_clock s' = recvTicker (tm_ticker s) (tm_clock s) \<or> tm_clock s' = fakeTicker_Stop (tm_ticker s) (tm_clock s))"
    using step by (cases k) (auto split: if_splits)
  ultimately show ?thesis using inv unfolding timing_inv_def by auto
qed

lemma advance_inv:
  assumes inv: "timing_inv s" and adv: "Advance d (tm_clock s) = Some c'"
  shows "timing_inv (s\<lparr>tm_clock := c'\<rparr>)"
proof (cases "0 < d")
  case False
  with adv have "s\<lparr>tm_clock := c'\<rparr> = s" by (simp add: Advance_def)
  with inv show ?thesis by simp
next
  case True
  let ?c = "tm_clock s" and ?t = "tm_timer s"
  note F = Advance_frame [OF adv True] Advance_fresh [OF adv]
  have "heartbeat_inv (s\<lparr>tm_clock := c'\<rparr>)"
    using timing_invD(3) [OF inv] Advance_ticker [of ?c "tm_ticker s", OF _ True] Advance_off [of ?c "tm_ticker s", OF _ True]
      adv by (auto simp: heartbeat_inv_def split: if_splits)
  moreover have "u < fc_fresh c' \<and> (u = ?t \<or> idle (timerHeap c' u))" if "u \<in> set (fc_timers c')" for u
    using that timing_invD(4,5) [OF inv, of u] F by (auto simp: activeTimers_def idle_def)
  moreover have "timer_ok c' ?t (tm_armed s) (electionTimeout (tm_raft s))" if "tm_election s"
    using timing_invD(6) [OF inv that] True F(1,2) F(4) [of ?t]
    by (auto simp: timer_ok_def Let_def dueTimers_def activeTimers_def try_send_def split: if_splits)
  moreover have "ft_stopped (timerHeap c' ?t)" if "\<not> tm_election s"
    using timing_invD(7) [OF inv that] F(4) [of ?t] by (auto simp: dueTimers_def)
  moreover have "tm_armed s \<le> fc_now c'" using timing_invD(8) [OF inv] F(1) True by simp
  ultimately show ?thesis using timing_invD(1,2) [OF inv] by (auto simp: timing_inv_def)
qed

lemma timing_exec_inv:
  assumes "timing_inv s" and "timing_exec ops e s = Some s'"
  shows "timing_inv s'"
proof (cases e)
  case (ElectionSelect k rnd)
  with assms show ?thesis using election_select_inv [of s rnd ops k s'] by (auto split: if_splits)
next
  case (HeartbeatSelect k)
  with assms show ?thesis using heartbeat_select_inv [of s k s'] by (auto split: if_splits)
next
  case (ClockAdvance d)
  with assms show ?thesis using advance_inv by auto
next
  case (NodeSection ev)
  then obtain r where r: "node_exec ops ev (tm_raft s) = Some r" "s' = s\<lparr>tm_raft := r\<rparr>" using assms(2) by auto
  from node_exec_timeouts [OF r(1)] assms(1) show ?thesis
    by (auto simp: timing_inv_def heartbeat_inv_def r(2))
qed

lemma timing_run_inv: "timing_inv s \<Longrightarrow> timing_run ops es s = Some s' \<Longrightarrow> timing_inv s'"
  by (induction es arbitrary: s) (auto split: option.splits dest: timing_exec_inv)

lemma runTimers_inv:
  assumes "0 < electionTimeout r" and "2 * electionTimeout r \<le> 2 ^ 63" and "0 < heartbeatInterval r"
    and "int63n (electionTimeout r) rnd"
  shows "timing_inv (runTimers rnd r (NewFakeClock start))"
  unfolding runTimers_def Let_def split_beta
  by (rule arm_inv)
    (use assms in \<open>simp_all add: heartbeat_inv_def ticker_ok_def NewTicker_def NewFakeClock_def Let_def\<close>)

subsection \<open>Properties\<close>

text \<open>The timeouts of a node whose loops behave: positive, and twice the election timeout fits 63 bits.\<close>

definition timeouts_ok :: "'s Raft \<Rightarrow> bool" where
  "timeouts_ok r \<longleftrightarrow> 0 < electionTimeout r \<and> 2 * electionTimeout r \<le> 2 ^ 63 \<and> 0 < heartbeatInterval r"

text \<open>What the loops reach from \<^verbatim>\<open>Run\<close> on a new clock.\<close>

definition timing_reach :: "'s StorageOps \<Rightarrow> 's Raft \<Rightarrow> 's Timing \<Rightarrow> bool" where
  "timing_reach ops r s \<longleftrightarrow> timeouts_ok r \<and>
     (\<exists>rnd start es. int63n (electionTimeout r) rnd \<and>
        timing_run ops es (runTimers rnd r (NewFakeClock start)) = Some s)"

lemma timing_exec_timeouts:
  assumes "timing_exec ops e s = Some s'"
  shows "electionTimeout (tm_raft s') = electionTimeout (tm_raft s) \<and>
    heartbeatInterval (tm_raft s') = heartbeatInterval (tm_raft s)"
proof (cases e)
  case (ElectionSelect k rnd)
  with assms show ?thesis
    by (cases k) (auto simp: armElectionTimer_def NewTimer_def Let_def split_beta split: if_splits)
next
  case (HeartbeatSelect k)
  with assms show ?thesis by (cases k) (auto split: if_splits)
qed (use assms in \<open>auto dest!: node_exec_timeouts\<close>)

lemma timing_run_timeouts:
  "timing_run ops es s = Some s' \<Longrightarrow> electionTimeout (tm_raft s') = electionTimeout (tm_raft s) \<and>
     heartbeatInterval (tm_raft s') = heartbeatInterval (tm_raft s)"
  by (induction es arbitrary: s) (auto split: option.splits dest: timing_exec_timeouts)

lemma timing_reachD:
  assumes "timing_reach ops r s"
  shows "timing_inv s" and "electionTimeout (tm_raft s) = electionTimeout r"
    and "heartbeatInterval (tm_raft s) = heartbeatInterval r"
proof -
  obtain rnd start es where run: "int63n (electionTimeout r) rnd" "timeouts_ok r"
    "timing_run ops es (runTimers rnd r (NewFakeClock start)) = Some s" using assms by (auto simp: timing_reach_def)
  then have "timing_inv (runTimers rnd r (NewFakeClock start))" by (intro runTimers_inv) (simp_all add: timeouts_ok_def)
  then show "timing_inv s" using run(3) by (rule timing_run_inv)
  show "electionTimeout (tm_raft s) = electionTimeout r" "heartbeatInterval (tm_raft s) = heartbeatInterval r"
    using timing_run_timeouts [OF run(3)] by (simp_all add: runTimers_def armElectionTimer_def NewTimer_def
        NewTicker_def Let_def)
qed

text \<open>
  C23.  The election loop never times out early.  In every run of the loops, with any interleaving of the
  clock and of the node's other goroutines, the timer case is taken at least the election timeout after
  the iteration began, and an election or a received reset begins a new iteration at the current time:
  two elections of the loop are at least a timeout apart, and a reset postpones the next one by as much.
\<close>

theorem elections_not_early:
  assumes "timing_reach ops r s" and "timing_exec ops (ElectionSelect k rnd) s = Some s'"
  shows "(k = TimerFired \<longrightarrow> tm_armed s + electionTimeout r \<le> fc_now (tm_clock s)) \<and>
    (k \<noteq> ElectionStopped \<longrightarrow> tm_armed s' = fc_now (tm_clock s) \<and> tm_election s')"
proof -
  note R = timing_reachD [OF assms(1)]
  have on: "tm_election s" using assms(2) by (simp split: if_splits)
  have "timer_ok (tm_clock s) (tm_timer s) (tm_armed s) (electionTimeout r)"
    using timing_invD(6) [OF R(1) on] R(2) by simp
  with assms(2) on show ?thesis
    by (cases k) (auto simp: timer_ok_def armElectionTimer_def Let_def split_beta NewTimer_def split: if_splits)
qed

text \<open>After two timeouts the timer case is ready and runs \<^verbatim>\<open>startElection\<close>.\<close>

lemma timer_ready:
  assumes "timing_reach ops r s" and "tm_election s" and "2 * electionTimeout r \<le> d" and "int63n (electionTimeout r) rnd"
  obtains c1 s2 where "timing_exec ops (ClockAdvance d) s = Some (s\<lparr>tm_clock := c1\<rparr>)"
    and "timing_exec ops (ElectionSelect TimerFired rnd) (s\<lparr>tm_clock := c1\<rparr>) = Some s2"
    and "tm_raft s2 = fst (startElection ops (tm_raft s))"
    and "tm_effects s2 = tm_effects s @ snd (startElection ops (tm_raft s))"
proof -
  note R = timing_reachD [OF assms(1)]
  have d: "0 < d" using timing_invD(1) [OF R(1)] assms(3) R(2) by simp
  obtain c1 where c1: "Advance d (tm_clock s) = Some c1"
    using Advance_ticker [OF _ d] Advance_off [OF _ d] timing_invD(3) [OF R(1)]
    by (fastforce simp: heartbeat_inv_def split: if_splits)
  have "timer_ok (tm_clock s) (tm_timer s) (tm_armed s) (electionTimeout r)"
    using timing_invD(6) [OF R(1) assms(2)] R(2) by simp
  moreover have "timer_ok c1 (tm_timer s) (tm_armed s) (electionTimeout r)"
    using timing_invD(6) [OF advance_inv [OF R(1) c1]] assms(2) R(2) by simp
  moreover note timing_invD(8) [OF R(1)] Advance_frame(1) [OF c1 d]
  ultimately have "ft_ch (timerHeap c1 (tm_timer s)) \<noteq> None"
    using assms(3) by (auto simp: timer_ok_def Let_def split: if_splits)
  then show ?thesis
    using assms(2,4) R(2) c1 by (intro that [of c1]) (auto simp: split_beta armElectionTimer_def NewTimer_def Let_def)
qed

text \<open>
  C21.  Silence leads to an election.  Whatever the loops did before, if the clock advances by twice the
  election timeout, the advance returns, the timer case of the running loop is ready, and taking it makes
  a node that does not lead a candidate of the next term with its own vote, or at once the leader if it
  is alone, and asks every peer for its vote.
\<close>

theorem silence_elects:
  assumes "timing_reach ops r s" and "tm_election s" and "2 * electionTimeout r \<le> d"
    and "int63n (electionTimeout r) rnd"
  shows "\<exists>s1 s2. timing_exec ops (ClockAdvance d) s = Some s1 \<and>
    timing_exec ops (ElectionSelect TimerFired rnd) s1 = Some s2 \<and>
    (state (tm_raft s) \<noteq> Leader \<longrightarrow>
       currentTerm (tm_raft s2) = currentTerm (tm_raft s) + 1 \<and> votedFor (tm_raft s2) = raft_id (tm_raft s) \<and>
       state (tm_raft s2) = (if quorumSize (tm_raft s) = 1 then Leader else Candidate) \<and>
       (quorumSize (tm_raft s) \<noteq> 1 \<and> hasTransport (tm_raft s) \<longrightarrow>
          (\<forall>p \<in> set (peers (tm_raft s)). \<exists>a. SendRequestVote (fst p) a \<in> set (tm_effects s2) \<and>
             rva_Term a = currentTerm (tm_raft s) + 1)))"
proof -
  from assms obtain c1 s2 where s2: "timing_exec ops (ClockAdvance d) s = Some (s\<lparr>tm_clock := c1\<rparr>)"
    "timing_exec ops (ElectionSelect TimerFired rnd) (s\<lparr>tm_clock := c1\<rparr>) = Some s2"
    "tm_raft s2 = fst (startElection ops (tm_raft s))"
    "tm_effects s2 = tm_effects s @ snd (startElection ops (tm_raft s))" by (rule timer_ready)
  show ?thesis
    by (intro exI [of _ "s\<lparr>tm_clock := c1\<rparr>"] exI [of _ s2] conjI s2(1,2))
      (auto simp: s2(3,4) startElection_def startElection_begin_def startElection_alone_def Let_def split: option.splits)
qed

text \<open>
  C22.  A leader keeps its peers informed.  Whatever the loops did before, if the clock advances by the
  heartbeat interval, the advance returns, the tick case of the running heartbeat loop is ready, and taking
  it starts an append to every peer if the node leads, and sends nothing otherwise.
\<close>

theorem leader_heartbeats:
  assumes "timing_reach ops r s" and "tm_heartbeat s" and "heartbeatInterval r \<le> d"
  shows "\<exists>s1 s2. timing_exec ops (ClockAdvance d) s = Some s1 \<and>
    timing_exec ops (HeartbeatSelect TickReceived) s1 = Some s2 \<and> tm_raft s2 = tm_raft s \<and>
    tm_effects s2 = tm_effects s @
      (if state (tm_raft s) = Leader then map (\<lambda>p. SpawnAppendEntries (fst p)) (peers (tm_raft s)) else [])"
proof -
  note R = timing_reachD [OF assms(1)]
  have tick: "ticker_ok (tm_clock s) (tm_ticker s)"
    "fk_interval (tickerHeap (tm_clock s) (tm_ticker s)) = heartbeatInterval r"
    using timing_invD(3) [OF R(1)] assms(2) R(3) by (simp_all add: heartbeat_inv_def)
  then have "0 < d" "fk_next (tickerHeap (tm_clock s) (tm_ticker s)) \<le> fc_now (tm_clock s) + d"
    using assms(3) by (auto simp: ticker_ok_def)
  with Advance_ticker [OF tick(1), of d] obtain c1 where
    "Advance d (tm_clock s) = Some c1" "fk_ch (tickerHeap c1 (tm_ticker s)) \<noteq> None" by auto
  then show ?thesis using assms(2) by (auto simp: broadcastAppendEntries_def)
qed

text \<open>
  C33.  \<^verbatim>\<open>Stop\<close> ends the loops.  Once \<^verbatim>\<open>stopCh\<close> is closed, both loops can take their stop case, in whatever
  state they are; they then have ended, have started nothing, and leave no running timer or ticker behind,
  so that the clock can advance by any amount.
\<close>

theorem stop_ends_loops:
  assumes "timing_reach ops r s" and "tm_election s" and "tm_heartbeat s" and "stopCh (tm_raft s)"
  shows "\<exists>s1 s2. timing_exec ops (ElectionSelect ElectionStopped 0) s = Some s1 \<and>
    timing_exec ops (HeartbeatSelect HeartbeatStopped) s1 = Some s2 \<and>
    \<not> tm_election s2 \<and> \<not> tm_heartbeat s2 \<and> tm_raft s2 = tm_raft s \<and> tm_effects s2 = tm_effects s \<and>
    (\<forall>u \<in> set (fc_timers (tm_clock s2)). idle (timerHeap (tm_clock s2) u)) \<and>
    (\<forall>u \<in> set (fc_tickers (tm_clock s2)). fk_stopped (tickerHeap (tm_clock s2) u)) \<and>
    (\<forall>d. Advance d (tm_clock s2) \<noteq> None)"
proof -
  note R = timing_reachD [OF assms(1)]
  have rnd: "int63n (electionTimeout (tm_raft s)) 0" using timing_invD(1) [OF R(1)] by (simp add: int63n_def)
  obtain s1 s2 where
    s1: "timing_exec ops (ElectionSelect ElectionStopped 0) s = Some s1"
    and s2: "timing_exec ops (HeartbeatSelect HeartbeatStopped) s1 = Some s2"
    and eq: "\<not> tm_election s2" "\<not> tm_heartbeat s2" "tm_raft s2 = tm_raft s" "tm_effects s2 = tm_effects s"
    using assms(2-4) rnd by auto
  have inv: "timing_inv s2" using R(1) s1 s2 timing_exec_inv by blast
  have off: "ticker_off (tm_clock s2) (tm_ticker s2)" using timing_invD(3) [OF inv] eq(2) by (simp add: heartbeat_inv_def)
  have "idle (timerHeap (tm_clock s2) u)" if "u \<in> set (fc_timers (tm_clock s2))" for u
    using timing_invD(5) [OF inv that] timing_invD(7) [OF inv eq(1)] by (cases "u = tm_timer s2") (simp_all add: idle_def)
  moreover have "fk_stopped (tickerHeap (tm_clock s2) u)" if "u \<in> set (fc_tickers (tm_clock s2))" for u
    using off that by (auto simp: ticker_off_def)
  moreover have "Advance d (tm_clock s2) \<noteq> None" for d
    using Advance_off [OF off, of d] by (cases "0 < d") (auto simp: Advance_def)
  ultimately show ?thesis using s1 s2 eq by blast
qed

text \<open>The loops of a new node of the trio, and of a leader that is stopped.\<close>

definition new_loops :: "MemoryStorage Timing" where
  "new_loops = runTimers 5 (fresh ''n1'') (NewFakeClock 0)"

lemma trio_timeouts: "timeouts_ok (fresh ''n1'')" "electionTimeout (fresh ''n1'') = 350000000"
    "timeouts_ok leader_one" "heartbeatInterval leader_one = 100000000" "electionTimeout leader_one = 350000000"
  by code_simp+

lemma new_loops_reach: "timing_reach memory_ops (fresh ''n1'') new_loops"
  unfolding timing_reach_def new_loops_def
  by (intro conjI exI [of _ 5] exI [of _ 0] exI [of _ "[]"]) (simp_all add: trio_timeouts int63n_def)

lemma new_loops_simps [simp]:
  "tm_raft new_loops = fresh ''n1''" "tm_election new_loops" "tm_heartbeat new_loops" "tm_effects new_loops = []"
  by (simp_all add: new_loops_def runTimers_def armElectionTimer_def NewTimer_def NewTicker_def Let_def)

theorem silence_elects_witness:
  "\<exists>s1 s2. timing_exec memory_ops (ClockAdvance 700000000) new_loops = Some s1 \<and>
     timing_exec memory_ops (ElectionSelect TimerFired 9) s1 = Some s2 \<and>
     state (tm_raft s2) = Candidate \<and> currentTerm (tm_raft s2) = 1"
proof -
  have node: "state (fresh ''n1'') \<noteq> Leader \<and> quorumSize (fresh ''n1'') \<noteq> 1 \<and> currentTerm (fresh ''n1'') = 0"
    by code_simp
  have "2 * electionTimeout (fresh ''n1'') \<le> 700000000" "int63n (electionTimeout (fresh ''n1'')) 9"
    by (simp_all add: trio_timeouts int63n_def)
  from silence_elects [OF new_loops_reach new_loops_simps(2) this] node show ?thesis
    by (simp del: timing_exec.simps) blast
qed

text \<open>The timer case two timeouts later.\<close>

definition later_loops :: "MemoryStorage Timing" where
  "later_loops = the (timing_exec memory_ops (ClockAdvance 700000000) new_loops)"

lemma later_loops_run: "timing_exec memory_ops (ClockAdvance 700000000) new_loops = Some later_loops"
proof -
  have "ticker_ok (tm_clock new_loops) (tm_ticker new_loops)"
    using timing_invD(3) [OF timing_reachD(1) [OF new_loops_reach]] by (simp add: heartbeat_inv_def)
  from Advance_ticker [OF this, of 700000000] show ?thesis unfolding later_loops_def by auto
qed

lemma later_loops_reach: "timing_reach memory_ops (fresh ''n1'') later_loops"
  using later_loops_run unfolding timing_reach_def new_loops_def
  by (intro conjI exI [of _ 5] exI [of _ 0] exI [of _ "[ClockAdvance 700000000]"])
    (simp_all add: trio_timeouts int63n_def del: timing_exec.simps)

theorem elections_not_early_witness:
  "tm_armed later_loops + 350000000 \<le> fc_now (tm_clock later_loops)"
proof -
  have T: "2 * electionTimeout (fresh ''n1'') \<le> 700000000" "int63n (electionTimeout (fresh ''n1'')) 9"
    by (simp_all add: trio_timeouts int63n_def)
  obtain s2 where "timing_exec memory_ops (ElectionSelect TimerFired 9) later_loops = Some s2"
    by (rule timer_ready [OF new_loops_reach new_loops_simps(2) T]) (simp add: later_loops_run del: timing_exec.simps)
  from elections_not_early [OF later_loops_reach this] show ?thesis by (simp add: trio_timeouts)
qed

definition lead_loops :: "MemoryStorage Timing" where
  "lead_loops = runTimers 5 leader_one (NewFakeClock 0)"

lemma lead_loops_reach: "timing_reach memory_ops leader_one lead_loops"
  unfolding timing_reach_def lead_loops_def
  by (intro conjI exI [of _ 5] exI [of _ 0] exI [of _ "[]"]) (simp_all add: trio_timeouts int63n_def)

lemma lead_loops_simps [simp]:
  "tm_raft lead_loops = leader_one" "tm_election lead_loops" "tm_heartbeat lead_loops" "tm_effects lead_loops = []"
  by (simp_all add: lead_loops_def runTimers_def armElectionTimer_def NewTimer_def NewTicker_def Let_def)

theorem leader_heartbeats_witness:
  "\<exists>s1 s2. timing_exec memory_ops (ClockAdvance 100000000) lead_loops = Some s1 \<and>
     timing_exec memory_ops (HeartbeatSelect TickReceived) s1 = Some s2 \<and>
     tm_effects s2 = [SpawnAppendEntries ''n2'', SpawnAppendEntries ''n3'']"
proof -
  have node: "state leader_one = Leader \<and> map fst (peers leader_one) = [''n2'', ''n3'']" by code_simp
  then have "map (\<lambda>p. SpawnAppendEntries (fst p)) (peers leader_one) = [SpawnAppendEntries ''n2'', SpawnAppendEntries ''n3'']"
    by (metis (no_types, lifting) list.map_comp list.simps(8,9) comp_apply map_eq_conv)
  with leader_heartbeats [OF lead_loops_reach lead_loops_simps(3), of 100000000] node show ?thesis
    by (simp add: trio_timeouts del: timing_exec.simps) blast
qed

definition stopped_loops :: "MemoryStorage Timing" where
  "stopped_loops = lead_loops\<lparr>tm_raft := leader_one\<lparr>stopCh := True\<rparr>\<rparr>"

lemma stopped_loops_reach: "timing_reach memory_ops leader_one stopped_loops"
proof -
  have "stopCh leader_one = False" by code_simp
  then show ?thesis
    unfolding timing_reach_def stopped_loops_def
    by (intro conjI exI [of _ 5] exI [of _ 0] exI [of _ "[NodeSection EvStop]"])
      (simp_all add: trio_timeouts int63n_def Stop_def lead_loops_def [symmetric])
qed

theorem stop_ends_loops_witness:
  "\<exists>s1 s2. timing_exec memory_ops (ElectionSelect ElectionStopped 0) stopped_loops = Some s1 \<and>
     timing_exec memory_ops (HeartbeatSelect HeartbeatStopped) s1 = Some s2 \<and>
     \<not> tm_election s2 \<and> \<not> tm_heartbeat s2 \<and> Advance 1 (tm_clock s2) \<noteq> None"
proof -
  have "tm_election stopped_loops" "tm_heartbeat stopped_loops" "stopCh (tm_raft stopped_loops)"
    by (simp_all add: stopped_loops_def)
  from stop_ends_loops [OF stopped_loops_reach this] show ?thesis by blast
qed

end
