(* ===== verification/Races.thy ===== *)
theory Races
  imports Service
begin

text \<open>
  What happens between the critical sections of one node.  \<^verbatim>\<open>applyCommitted\<close> and
  \<^verbatim>\<open>HandleInstallSnapshot\<close> of \<^verbatim>\<open>src/raft/raft.go\<close> send on \<^verbatim>\<open>applyCh\<close> after they release the mutex, and most
  callers of \<^verbatim>\<open>persistLocked\<close> ignore its error.  Each theorem follows one interleaving, or one failing save,
  through the node and the apply loop of the server to what it does to the store or the vote.
\<close>

subsection \<open>Two goroutines apply\<close>

lemma applyCommitted_take_eq:
  assumes "lastApplied r < commitIndex r" and "logOffset r \<le> lastApplied r + 1" and "commitIndex r \<le> lastLogIndex r"
  obtains r' where "applyCommitted_take r =
      ApplyNext r' (entryAt r (lastApplied r + 1)) (map_of (notifyCh r) (lastApplied r + 1))"
    and "lastApplied r' = lastApplied r + 1" and "commitIndex r' = commitIndex r" and "raft_log r' = raft_log r"
    and "logOffset r' = logOffset r" and "applyCh r' = applyCh r"
    and "map_of (notifyCh r') (lastApplied r + 2) = map_of (notifyCh r) (lastApplied r + 2)"
proof -
  obtain r' e ch where t: "applyCommitted_take r = ApplyNext r' e ch"
    using assms by (auto simp: applyCommitted_take_def Let_def log_defs split: option.splits)
  note f = applyCommitted_take_next [OF t]
  have "map_of (notifyCh r') (lastApplied r + 2) = map_of (notifyCh r) (lastApplied r + 2)"
    using t by (auto simp: applyCommitted_take_def Let_def delete_conv' split: if_splits option.splits)
  with f t that show ?thesis by (simp add: entryAt_def)
qed

text \<open>
  C36.  Two goroutines in \<^verbatim>\<open>applyCommitted\<close>.  Whenever two entries are waiting to be applied, two goroutines
  may each take one before either sends its message.  The index of a message is read after the lock is
  released: both messages then carry the index of the second entry, and nothing keeps the second entry
  from being sent before the first.
\<close>

theorem apply_race:
  assumes "raft_inv r" and "lastApplied r + 2 \<le> commitIndex r"
  shows "let i = lastApplied r + 1; j = lastApplied r + 2;
      first = EvApplyDeliver (entryAt r i) (map_of (notifyCh r) i);
      second = EvApplyDeliver (entryAt r j) (map_of (notifyCh r) j)
    in (\<exists>r1 r2. applyCommitted_take r = ApplyNext r1 (entryAt r i) (map_of (notifyCh r) i) \<and>
          applyCommitted_take r1 = ApplyNext r2 (entryAt r j) (map_of (notifyCh r) j)) \<and>
       (\<exists>r'. node_run ops [EvApplyTake, EvApplyTake, first, second] r = Some r' \<and>
          applyCh r' = applyCh r @ [command_msg j (le_Command (entryAt r i)), command_msg j (le_Command (entryAt r j))]) \<and>
       (\<exists>r'. node_run ops [EvApplyTake, EvApplyTake, second, first] r = Some r' \<and>
          applyCh r' = applyCh r @ [command_msg j (le_Command (entryAt r j)), command_msg j (le_Command (entryAt r i))])"
proof -
  note i = raft_invD [OF assms(1)]
  have "lastApplied r < commitIndex r" "logOffset r \<le> lastApplied r + 1" using i assms(2) by simp_all
  then obtain r1 where r1: "applyCommitted_take r =
      ApplyNext r1 (entryAt r (lastApplied r + 1)) (map_of (notifyCh r) (lastApplied r + 1))"
    "lastApplied r1 = lastApplied r + 1" "commitIndex r1 = commitIndex r" "raft_log r1 = raft_log r"
    "logOffset r1 = logOffset r" "applyCh r1 = applyCh r"
    "map_of (notifyCh r1) (lastApplied r + 2) = map_of (notifyCh r) (lastApplied r + 2)"
    using i(6) by (rule applyCommitted_take_eq)
  have "lastApplied r1 < commitIndex r1" "logOffset r1 \<le> lastApplied r1 + 1" "commitIndex r1 \<le> lastLogIndex r1"
    using r1 i assms(2) by (simp_all add: lastLogIndex_def)
  then obtain r2 where r2: "applyCommitted_take r1 =
      ApplyNext r2 (entryAt r1 (lastApplied r1 + 1)) (map_of (notifyCh r1) (lastApplied r1 + 1))"
    "lastApplied r2 = lastApplied r1 + 1" "applyCh r2 = applyCh r1"
    by (rule applyCommitted_take_eq)
  have "entryAt r1 (lastApplied r1 + 1) = entryAt r (lastApplied r + 2)"
    "map_of (notifyCh r1) (lastApplied r1 + 1) = map_of (notifyCh r) (lastApplied r + 2)"
    using r1 by (simp_all add: entryAt_def algebra_simps)
  with r1 r2 show ?thesis by (simp add: Let_def algebra_simps)
qed

text \<open>A follower that has just committed two writes of the same key: the store keeps the older value.\<close>

definition put_k :: "string \<Rightarrow> LogEntry" where
  "put_k v = \<lparr>le_Term = 1, le_Command = EncodeCommand \<lparr>Op = OpSet, Key = ''k'', Value = v\<rparr>\<rparr>"

definition append_writes :: AppendEntriesArgs where
  "append_writes = append_a\<lparr>aea_Entries := [put_k ''old'', put_k ''new''], aea_LeaderCommit := 2\<rparr>"

definition two_waiting :: mraft where
  "two_waiting = fst (snd (HandleAppendEntries_locked memory_ops (fresh ''n2'') append_writes))"

lemma two_waiting_facts:
  "raft_inv two_waiting \<and> lastApplied two_waiting = 0 \<and> commitIndex two_waiting = 2 \<and> applyCh two_waiting = [] \<and>
   map_of (notifyCh two_waiting) 1 = None \<and> map_of (notifyCh two_waiting) 2 = None \<and>
   le_Command (entryAt two_waiting 1) = le_Command (put_k ''old'') \<and> le_Command (entryAt two_waiting 2) = le_Command (put_k ''new'')"
  by code_simp

lemma spec_msg_put:
  assumes "valid_utf8 v"
  shows "spec_msg (command_msg i (le_Command (put_k v))) m = m(''k'' \<mapsto> v)"
proof -
  have "valid_utf8 ''k''" "valid_utf8 ''set''" by code_simp+
  with assms show ?thesis
    by (simp add: spec_msg_def command_msg_def put_k_def DecodeCommand_EncodeCommand sanitize_valid OpSet_def kv_spec_def)
qed

theorem apply_race_witness:
  "\<exists>r'. node_run memory_ops [EvApplyTake, EvApplyTake, EvApplyDeliver (entryAt two_waiting 2) None,
        EvApplyDeliver (entryAt two_waiting 1) None] two_waiting = Some r' \<and>
     fold spec_msg (applyCh r') Map.empty ''k'' = Some ''old''"
proof -
  have "valid_utf8 ''old''" by code_simp
  then have "spec_msg (command_msg i (le_Command (entryAt two_waiting 1))) m ''k'' = Some ''old''" for i m
    using spec_msg_put [of "''old''"] two_waiting_facts by simp
  with apply_race [of two_waiting memory_ops] two_waiting_facts show ?thesis by (auto simp: Let_def)
qed

subsection \<open>A snapshot is overtaken\<close>

lemma send_results_store [simp]:
  "srv_store (fold (\<lambda>p. send_result (snd p) err) ps s) = srv_store s"
  by (induction ps arbitrary: s) (simp_all add: send_result_def)

lemma applySnapshot_store: "srv_store (applySnapshot msg s) = snd (RestoreSnapshot (am_SnapshotData msg) (srv_store s))"
  by (simp add: applySnapshot_def split: prod.split)

lemma applyLoop_restore:
  assumes "store_ok st" and "isa_Data snap = StoreSnapshot st"
  obtains s' where "applyLoop_msg ops (snapshot_msg (isa_Data snap) i t) s = Some s'"
    and "lookup (srv_store s') = lookup st" and "store_data (srv_store s') \<noteq> None"
proof -
  let ?s' = "applySnapshot (snapshot_msg (isa_Data snap) i t) s"
  from restore_snapshot [OF assms(1), of "srv_store s"] obtain st' where
    "RestoreSnapshot (StoreSnapshot st) (srv_store s) = (None, st')" "same_store st' st" by blast
  with assms(2) have "same_store (srv_store ?s') st" by (simp add: applySnapshot_store snapshot_msg_def)
  then show thesis
    using that [of ?s'] assms(1) by (simp add: applyLoop_msg_def snapshot_msg_def same_store_def)
qed

lemma install_locked:
  assumes "raft_inv r" and "currentTerm r \<le> isa_Term args" and "logOffset r < isa_LastIncludedIndex args"
    and "commitIndex r \<le> isa_LastIncludedIndex args"
  obtains reply r' where "HandleInstallSnapshot_locked ops r args =
      (reply, r', Some (snapshot_msg (isa_Data args) (isa_LastIncludedIndex args) (isa_LastIncludedTerm args)))"
    and "raft_inv r'" and "raft_log r' = [sentinel (isa_LastIncludedTerm args)]"
    and "logOffset r' = isa_LastIncludedIndex args" and "commitIndex r' = isa_LastIncludedIndex args"
    and "lastApplied r' = isa_LastIncludedIndex args" and "applyCh r' = applyCh r" and "currentTerm r' = isa_Term args"
proof -
  obtain reply r' m where eq: "HandleInstallSnapshot_locked ops r args = (reply, r', m)"
    by (cases "HandleInstallSnapshot_locked ops r args") auto
  note i = raft_invD [OF assms(1)]
  have "raft_inv r'" using HandleInstallSnapshot_inv [OF assms(1), of args ops] assms(4) eq by simp
  moreover have "m = Some (snapshot_msg (isa_Data args) (isa_LastIncludedIndex args) (isa_LastIncludedTerm args))"
    "raft_log r' = [sentinel (isa_LastIncludedTerm args)]" "logOffset r' = isa_LastIncludedIndex args"
    "commitIndex r' = isa_LastIncludedIndex args" "lastApplied r' = isa_LastIncludedIndex args"
    "applyCh r' = applyCh r" "currentTerm r' = isa_Term args"
    using eq assms(2-4) i by (auto simp: HandleInstallSnapshot_locked_def Let_def split: if_splits)
  ultimately show thesis using that eq by blast
qed

text \<open>
  C37.  A snapshot can be overtaken.  \<^verbatim>\<open>HandleInstallSnapshot\<close> hands the snapshot to the server only after it
  has released the lock.  If the next append of the leader is handled in between, the entry above the
  snapshot reaches the server first, and restoring the snapshot then takes its effect back: the node
  counts the entry as applied, and the store is the snapshot's.  In the other order the store would hold
  the entry.
\<close>

theorem snapshot_overtaken:
  assumes "raft_inv r" and "currentTerm r \<le> isa_Term snap" and "isa_Term snap \<le> aea_Term app"
    and "logOffset r < isa_LastIncludedIndex snap" and "commitIndex r \<le> isa_LastIncludedIndex snap"
    and "store_ok st" and "isa_Data snap = StoreSnapshot st"
    and "aea_PrevLogIndex app = isa_LastIncludedIndex snap" and "aea_PrevLogTerm app = isa_LastIncludedTerm snap"
    and "aea_Entries app = [e]" and "isa_LastIncludedIndex snap < aea_LeaderCommit app"
    and "store_data (srv_store s) \<noteq> None"
  shows "\<exists>reply r1 restore reply' r2. HandleInstallSnapshot_locked ops r snap = (reply, r1, Some restore) \<and>
    HandleAppendEntries ops r1 app = Some (reply', r2) \<and>
    (let entry = command_msg (isa_LastIncludedIndex snap + 1) (le_Command e)
     in lastApplied r2 = isa_LastIncludedIndex snap + 1 \<and> applyCh r2 = applyCh r @ [entry] \<and>
        (\<exists>s'. applyLoop ops [entry, restore] s = Some s' \<and> lookup (srv_store s') = lookup st) \<and>
        (\<exists>s'. applyLoop ops [restore, entry] s = Some s' \<and> lookup (srv_store s') = spec_msg entry (lookup st)))"
proof (rule install_locked [OF assms(1,2,4,5)])
  let ?i = "isa_LastIncludedIndex snap"
  let ?restore = "snapshot_msg (isa_Data snap) ?i (isa_LastIncludedTerm snap)"
  let ?entry = "command_msg (?i + 1) (le_Command e)"
  fix reply r1
  assume r1: "HandleInstallSnapshot_locked ops r snap = (reply, r1, Some ?restore)"
    "raft_inv r1" "raft_log r1 = [sentinel (isa_LastIncludedTerm snap)]" "logOffset r1 = ?i" "commitIndex r1 = ?i"
    "lastApplied r1 = ?i" "applyCh r1 = applyCh r" "currentTerm r1 = isa_Term snap"
  obtain reply' r2 ap where eq: "HandleAppendEntries_locked ops r1 app = (reply', r2, ap)"
    by (cases "HandleAppendEntries_locked ops r1 app") auto
  have acc: "acceptsAppend r1 app"
    using r1 assms(3,8,9) by (simp add: acceptsAppend_def log_defs)
  note f = HandleAppendEntries_accepted [OF eq acc]
  have r2: "raft_log r2 = [sentinel (isa_LastIncludedTerm snap), e]" "logOffset r2 = ?i" "lastApplied r2 = ?i"
    "commitIndex r2 = ?i + 1" "applyCh r2 = applyCh r" "ap" "lastLogIndex r2 = ?i + 1"
    using f r1 assms(8,10,11) by (simp_all add: mergedLog_def Let_def lastLogIndex_def)
  obtain r3 where r3: "applyCommitted r2 = Some r3" "lastApplied r3 = ?i + 1" "applyCh r3 = applyCh r @ [?entry]"
    using applyCommitted_total [of r2] r2 by (auto simp: applied_msgs_def entryAt_def)
  have "HandleAppendEntries ops r1 app = Some (reply', r3)" using r2(6) r3(1) by (simp add: HandleAppendEntries_def eq)
  moreover have "\<exists>s'. applyLoop ops [?entry, ?restore] s = Some s' \<and> lookup (srv_store s') = lookup st"
  proof (rule applyLoop_msg_command [of ?entry s ops])
    fix st1 assume "applyLoop_msg ops ?entry s = Some (maybeSnapshot ops (am_Index ?entry)
        (deliverResult (am_Index ?entry) (spec_result ?entry (lookup (srv_store s))) (s\<lparr>srv_store := st1\<rparr>)))"
    then obtain s1 where "applyLoop_msg ops ?entry s = Some s1" by blast
    then show ?thesis using applyLoop_restore [OF assms(6,7), of ops ?i _ s1] by (metis applyLoop.simps option.simps(5))
  qed (use assms(12) in \<open>simp_all add: command_msg_def\<close>)
  moreover have "\<exists>s'. applyLoop ops [?restore, ?entry] s = Some s' \<and> lookup (srv_store s') = spec_msg ?entry (lookup st)"
  proof (rule applyLoop_restore [OF assms(6,7), of ops ?i "isa_LastIncludedTerm snap" s])
    fix s1 assume s1: "applyLoop_msg ops ?restore s = Some s1" "lookup (srv_store s1) = lookup st"
      "store_data (srv_store s1) \<noteq> None"
    have "list_all (\<lambda>msg. \<not> am_Snapshot msg) [?entry]" by (simp add: command_msg_def)
    from applyLoop_contents [OF this s1(3), of ops] s1 show ?thesis by auto
  qed
  ultimately show ?thesis using r1(1) r3(2,3) by (simp add: Let_def)
qed

text \<open>A follower that gets a snapshot of the empty store up to index 1, and then the write at index 2.\<close>

definition empty_snap :: InstallSnapshotArgs where
  "empty_snap = snap_one\<lparr>isa_Data := StoreSnapshot NewStore\<rparr>"

definition append_next :: AppendEntriesArgs where
  "append_next = append_a\<lparr>aea_PrevLogIndex := 1, aea_PrevLogTerm := 1, aea_Entries := [put_k ''new''], aea_LeaderCommit := 2\<rparr>"

definition replica :: "mraft \<Rightarrow> MemoryStorage Server" where
  "replica r = \<lparr>srv_id = ''n2'', srv_addr = ''a'', srv_peers = [], srv_store = NewStore, srv_raft = r,
     snapshotThreshold = 100, srv_debug = False, srv_verbose = False, applyWaiters = [], applyResults = [],
     waiterCount = 0, waiterVals = []\<rparr>"

theorem snapshot_overtaken_witness:
  "\<exists>r1 restore s' s''. snd (HandleInstallSnapshot_locked memory_ops (fresh ''n2'') empty_snap) = (r1, Some restore) \<and>
     applyLoop memory_ops [command_msg 2 (le_Command (put_k ''new'')), restore] (replica r1) = Some s' \<and>
     applyLoop memory_ops [restore, command_msg 2 (le_Command (put_k ''new''))] (replica r1) = Some s'' \<and>
     lookup (srv_store s') ''k'' = None \<and> lookup (srv_store s'') ''k'' = Some ''new''"
proof -
  obtain reply r1 m where eq: "HandleInstallSnapshot_locked memory_ops (fresh ''n2'') empty_snap = (reply, r1, m)"
    by (cases "HandleInstallSnapshot_locked memory_ops (fresh ''n2'') empty_snap") auto
  have H: "raft_inv (fresh ''n2'')" "currentTerm (fresh ''n2'') \<le> isa_Term empty_snap"
    "isa_Term empty_snap \<le> aea_Term append_next" "logOffset (fresh ''n2'') < isa_LastIncludedIndex empty_snap"
    "commitIndex (fresh ''n2'') \<le> isa_LastIncludedIndex empty_snap" "store_ok NewStore"
    "isa_LastIncludedIndex empty_snap < aea_LeaderCommit append_next" "valid_utf8 ''new''"
    by code_simp+
  have D: "isa_Data empty_snap = StoreSnapshot NewStore" "isa_LastIncludedIndex empty_snap = 1"
    "aea_PrevLogIndex append_next = isa_LastIncludedIndex empty_snap"
    "aea_PrevLogTerm append_next = isa_LastIncludedTerm empty_snap" "aea_Entries append_next = [put_k ''new'']"
    "store_data (srv_store (replica r1)) \<noteq> None" "lookup NewStore ''k'' = None"
    by (simp_all add: empty_snap_def snap_one_def append_next_def append_a_def replica_def NewStore_def lookup_def)
  from snapshot_overtaken [OF H(1-6) D(1,3-5) H(7) D(6), of memory_ops] eq D(2,7) spec_msg_put [OF H(8)]
  show ?thesis by (auto simp: Let_def)
qed

subsection \<open>A save fails\<close>

lemma FileStorage_Save_fault:
  assumes "fs_faults f = x # xs" and "x \<noteq> NoFault"
  obtains e f' where "FileStorage_Save f st = (Some e, f')" and "fs_faults f' = xs"
  using assms that by (cases x) (auto simp: FileStorage_Save_def Let_def)

lemma failing_save:
  assumes "fs_faults f = x # xs" and "x \<noteq> NoFault"
  shows "Load file_ops (snd (Save file_ops f st)) = Load file_ops f" and "fs_faults (snd (Save file_ops f st)) = xs"
proof -
  from FileStorage_Save_fault [OF assms, of st] obtain e f' where
    "Save file_ops f st = (Some e, f')" "fs_faults f' = xs" by (auto simp: file_ops_def)
  with files.save_failed show "Load file_ops (snd (Save file_ops f st)) = Load file_ops f"
    "fs_faults (snd (Save file_ops f st)) = xs" by auto
qed

lemma NewRaft_from:
  assumes "NewRaft ops newMem cfg = Inr r" and "cfg_Storage cfg = Some f" and "Load ops f' = Load ops f"
  shows "NewRaft ops newMem (cfg\<lparr>cfg_Storage := Some f'\<rparr>) = Inr (r\<lparr>storage := f'\<rparr>)"
  using assms by (auto simp: NewRaft_def Let_def clampIndexes_eq lastLogIndex_def split: if_splits sum.splits)

lemma new_term_vote:
  assumes "currentTerm r < rva_Term args" and "isUpToDate r (rva_LastLogIndex args) (rva_LastLogTerm args)"
  obtains st st' r' where "HandleRequestVote ops r args = (\<lparr>rvr_Term = rva_Term args, rvr_VoteGranted = True\<rparr>, r')"
    and "votedFor r' = rva_CandidateID args" and "storage r' = snd (Save ops (snd (Save ops (storage r) st)) st')"
proof -
  let ?r1 = "becomeFollowerLocked ops (rva_Term args) r"
  let ?r2 = "?r1\<lparr>votedFor := rva_CandidateID args\<rparr>"
  have "HandleRequestVote ops r args =
      (\<lparr>rvr_Term = rva_Term args, rvr_VoteGranted = True\<rparr>, resetElectionTimerLocked (persist ops ?r2))"
    using assms by (simp add: HandleRequestVote_def Let_def isUpToDate_order lastPos_def)
  moreover obtain st where "storage ?r1 = snd (Save ops (storage r) st)"
    using assms(1) by (auto simp: becomeFollowerLocked_def Let_def persist_eq)
  ultimately show thesis
    using that [of _ st "persistentState ?r2"] by (simp add: resetElectionTimerLocked_def persist_eq)
qed

text \<open>
  C38.  A vote can be lost.  \<^verbatim>\<open>HandleRequestVote\<close> answers that it granted its vote even if neither the new
  term nor the vote could be saved.  A node whose disk refuses both saves and that is restarted then votes
  again, for another candidate in the same term, so election safety rests on saves that succeed.
\<close>

theorem lost_vote:
  assumes "NewRaft file_ops newMem cfg = Inr r" and "cfg_Storage cfg = Some f"
    and "fs_faults f = x # y # faults" and "x \<noteq> NoFault" and "y \<noteq> NoFault"
    and "currentTerm r < rva_Term a" and "rva_Term b = rva_Term a"
    and "isUpToDate r (rva_LastLogIndex a) (rva_LastLogTerm a)"
    and "isUpToDate r (rva_LastLogIndex b) (rva_LastLogTerm b)"
    and "HandleRequestVote file_ops r a = (reply, r1)"
  shows "\<exists>r2. NewRaft file_ops newMem (cfg\<lparr>cfg_Storage := Some (storage r1)\<rparr>) = Inr r2 \<and>
    (let (reply', r3) = HandleRequestVote file_ops r2 b
     in rvr_VoteGranted reply \<and> rvr_VoteGranted reply' \<and> rvr_Term reply' = rvr_Term reply \<and>
        votedFor r1 = rva_CandidateID a \<and> votedFor r3 = rva_CandidateID b)"
proof -
  have f: "storage r = f" using NewRaft_fields [OF assms(1)] assms(2) by (metis option.simps(5))
  obtain st st' where r1: "reply = \<lparr>rvr_Term = rva_Term a, rvr_VoteGranted = True\<rparr>" "votedFor r1 = rva_CandidateID a"
    "storage r1 = snd (Save file_ops (snd (Save file_ops f st)) st')"
    using new_term_vote [OF assms(6,8), of file_ops] assms(10) f by (metis Pair_inject)
  have "Load file_ops (storage r1) = Load file_ops f"
    unfolding r1(3) using failing_save [OF assms(3,4), of st] failing_save(1) [OF _ assms(5)] by simp
  from NewRaft_from [OF assms(1,2) this]
  have "NewRaft file_ops newMem (cfg\<lparr>cfg_Storage := Some (storage r1)\<rparr>) = Inr (r\<lparr>storage := storage r1\<rparr>)" .
  moreover have "currentTerm (r\<lparr>storage := storage r1\<rparr>) < rva_Term b"
    "isUpToDate (r\<lparr>storage := storage r1\<rparr>) (rva_LastLogIndex b) (rva_LastLogTerm b)"
    using assms(6,7,9) by (auto simp: isUpToDate_order lastPos_def log_defs)
  from new_term_vote [OF this, of file_ops] obtain r3 where
    "HandleRequestVote file_ops (r\<lparr>storage := storage r1\<rparr>) b = (\<lparr>rvr_Term = rva_Term b, rvr_VoteGranted = True\<rparr>, r3)"
    "votedFor r3 = rva_CandidateID b" by metis
  ultimately show ?thesis using r1 assms(7) by simp
qed

text \<open>A node on an empty disk that is full, asked by two candidates.\<close>

definition full_disk :: FileStorage where
  "full_disk = NewFileStorage ''data/n1/raft.json'' (\<lambda>_. NotExist)
     [WriteFileFails ''no space left on device'' [], WriteFileFails ''no space left on device'' []]"

definition full_cfg :: "FileStorage RaftConfig" where
  "full_cfg = \<lparr>cfg_ID = ''n1'', cfg_Peers = [(''n2'', []), (''n3'', [])], cfg_hasTransport = True,
     cfg_Storage = Some full_disk, cfg_ElectionTimeout = 0, cfg_HeartbeatInterval = 0, cfg_Debug = False,
     cfg_Verbose = False\<rparr>"

theorem lost_vote_witness:
  "\<exists>r r1 r2. NewRaft file_ops full_disk full_cfg = Inr r \<and>
     HandleRequestVote file_ops r (ask_vote ''n2'') = (\<lparr>rvr_Term = 1, rvr_VoteGranted = True\<rparr>, r1) \<and>
     NewRaft file_ops full_disk (full_cfg\<lparr>cfg_Storage := Some (storage r1)\<rparr>) = Inr r2 \<and>
     rvr_VoteGranted (fst (HandleRequestVote file_ops r2 (ask_vote ''n3'')))"
proof -
  let ?P = "\<lambda>r. currentTerm r < 1 \<and> isUpToDate r 0 0"
  have "case NewRaft file_ops full_disk full_cfg of Inl _ \<Rightarrow> False | Inr r \<Rightarrow> ?P r" by code_simp
  then obtain r where r: "NewRaft file_ops full_disk full_cfg = Inr r" "?P r" by (auto split: sum.splits)
  obtain reply r1 where v: "HandleRequestVote file_ops r (ask_vote ''n2'') = (reply, r1)" by fastforce
  have w: "reply = \<lparr>rvr_Term = 1, rvr_VoteGranted = True\<rparr>"
    using new_term_vote [of r "ask_vote ''n2''" file_ops] r(2) v by (auto simp: ask_vote_def)
  have "cfg_Storage full_cfg = Some full_disk" "fs_faults full_disk =
      WriteFileFails ''no space left on device'' [] # WriteFileFails ''no space left on device'' [] # []"
    by (simp_all add: full_cfg_def full_disk_def NewFileStorage_def)
  from lost_vote [OF r(1) this _ _ _ _ _ _ v, of "ask_vote ''n3''"] r v w show ?thesis
    by (auto simp: ask_vote_def case_prod_beta)
qed

end
