(* ===== verification/Client_Service.thy ===== *)
theory Client_Service
  imports Service Transports Router
begin

text \<open>
  The clients and the servers together: the calls of the RPC client and of the RPC transport reach the
  methods they mean with arguments of the right types, a mutation makes a bounded number of calls, and a
  read finds the leader.
\<close>

subsection \<open>Redirects\<close>

text \<open>The calls a client makes, counted.\<close>

definition counting :: "('r, 'w) rpc \<Rightarrow> ('r, 'w \<times> nat) rpc" where
  "counting call addr meth a w = (let (r, w') = call addr meth a (fst w) in (r, (w', Suc (snd w))))"

lemma counting_pair [simp]:
  "counting call addr meth a (w, k) = (case call addr meth a w of (r, w') \<Rightarrow> (r, (w', Suc k)))"
  by (simp add: counting_def split: prod.split)

lemma mutateLoop_counting:
  "fst (mutateLoop n (counting call) addr meth args (w, k)) = fst (mutateLoop n call addr meth args w) \<and>
   snd (snd (mutateLoop n (counting call) addr meth args (w, k))) \<le> k + n"
proof (induction n arbitrary: addr w k)
  case (Suc n)
  obtain r w' where call: "call addr meth args w = (r, w')" by (cases "call addr meth args w")
  show ?case
  proof (cases r)
    case (Inl e)
    then show ?thesis using call by simp
  next
    case (Inr reply)
    then show ?thesis
      using call Suc.IH [of "mr_LeaderAddr reply" w' "Suc k"] by (simp add: rpc_ErrNotLeader_def)
  qed
qed simp

text \<open>The addresses a mutation is redirected through, with the world after each redirect.\<close>

inductive redirected :: "(MutateReply, 'w) rpc \<Rightarrow> string \<Rightarrow> RpcArgs \<Rightarrow> string \<times> 'w \<Rightarrow> string \<times> 'w \<Rightarrow> bool"
  for call meth args where
  redirected_here: "redirected call meth args aw aw"
| redirected_on: "call addr meth args w = (Inr reply, w1) \<Longrightarrow> mr_Error reply = rpc_ErrNotLeader \<Longrightarrow>
     mr_LeaderAddr reply \<noteq> [] \<Longrightarrow> redirected call meth args (mr_LeaderAddr reply, w1) aw \<Longrightarrow>
     redirected call meth args (addr, w) aw"

lemma mutateLoop_success:
  "mutateLoop n call addr meth args w = (None, w') \<Longrightarrow>
     \<exists>addr' v reply. redirected call meth args (addr, w) (addr', v) \<and> call addr' meth args v = (Inr reply, w') \<and>
       mr_Error reply = []"
proof (induction n arbitrary: addr w)
  case (Suc n)
  obtain r w1 where call: "call addr meth args w = (r, w1)" by (cases "call addr meth args w")
  show ?case
  proof (cases r)
    case (Inl e)
    then show ?thesis using call Suc.prems by simp
  next
    case (Inr reply)
    show ?thesis
    proof (cases "mr_Error reply = rpc_ErrNotLeader \<and> mr_LeaderAddr reply \<noteq> []")
      case True
      then have "mutateLoop n call (mr_LeaderAddr reply) meth args w1 = (None, w')"
        using call Inr Suc.prems by simp
      from Suc.IH [OF this] True call Inr show ?thesis by (blast intro: redirected_on)
    next
      case False
      then have "mr_Error reply = []" "w1 = w'" using call Inr Suc.prems by (auto split: if_splits)
      with call Inr show ?thesis by (blast intro: redirected_here)
    qed
  qed
qed simp

text \<open>
  A mutation of the RPC client ends after at most three calls, whatever the servers answer, and
  it reports success only if a server it was redirected to step by step answered without an error.
\<close>

lemma mutate_bounded:
  "snd (snd (doMutate (counting call) c meth args (w, 0))) \<le> 3 \<and>
   fst (doMutate (counting call) c meth args (w, 0)) = fst (doMutate call c meth args w) \<and>
   (\<forall>w'. doMutate call c meth args w = (None, w') \<longrightarrow>
      (\<exists>addr v reply. redirected call meth args (rc_addr c, w) (addr, v) \<and>
         call addr meth args v = (Inr reply, w') \<and> mr_Error reply = []))"
  using mutateLoop_counting [of maxRedirects call "rc_addr c" meth args w 0]
    mutateLoop_success [of maxRedirects call "rc_addr c" meth args w]
  by (auto simp: doMutate_def maxRedirects_def)

subsection \<open>Typed requests\<close>

text \<open>
  The request that a value of an argument type belongs to, and the replies that fit it.  \<open>checked\<close> is a
  call that refuses every other request.
\<close>

fun serviceOf :: "RpcArgs \<Rightarrow> string" where
  "serviceOf (ARequestVote a) = RaftServiceName"
| "serviceOf (AAppendEntries a) = RaftServiceName"
| "serviceOf (AInstallSnapshot a) = RaftServiceName"
| "serviceOf _ = KVServiceName"

definition well_typed :: "string \<Rightarrow> RpcArgs \<Rightarrow> bool" where
  "well_typed meth args \<longleftrightarrow> meth = serviceOf args @ ''.'' @ takenBy args"

fun reply_fits :: "RpcArgs \<Rightarrow> RpcReply \<Rightarrow> bool" where
  "reply_fits (APing a) (RPing r) = True"
| "reply_fits (AGet a) (RGet r) = True"
| "reply_fits (ASet a) (RMutate r) = True"
| "reply_fits (AInsert a) (RMutate r) = True"
| "reply_fits (ADelete a) (RMutate r) = True"
| "reply_fits (AHealth a) (RHealth r) = True"
| "reply_fits (ARequestVote a) (RRequestVote r) = True"
| "reply_fits (AAppendEntries a) (RAppendEntries r) = True"
| "reply_fits (AInstallSnapshot a) (RInstallSnapshot r) = True"
| "reply_fits _ _ = False"

definition checked :: "(string \<Rightarrow> RpcArgs \<Rightarrow> 'w \<Rightarrow> (string + 'r) \<times> 'w) \<Rightarrow> string \<Rightarrow> RpcArgs \<Rightarrow> 'w \<Rightarrow> (string + 'r) \<times> 'w" where
  "checked call meth args w = (if well_typed meth args then call meth args w else (Inl ''ill-typed request'', w))"

lemma checked_typed [simp]: "well_typed meth args \<Longrightarrow> checked call meth args w = call meth args w"
  by (simp add: checked_def)

lemma split_method_typed:
  assumes "well_typed meth args"
  shows "split_method meth = Some (serviceOf args, takenBy args)"
  using assms
  by (cases args) (simp_all add: well_typed_def split_method_def Let_def KVServiceName_def RaftServiceName_def)

lemma dispatch_typed:
  assumes "registerRPC = Inr svcs" and "well_typed meth args"
  shows "dispatch ops env b1 b2 errText svcs meth args s =
    map_option (map_prod Inr id) (invokeMethod ops env b1 b2 errText args s)"
proof -
  have "map_of svcs (serviceOf args) = Some (if serviceOf args = KVServiceName then kvRPC else raftRPC)"
    using assms(1) by (cases args) (auto simp: registered KVServiceName_def RaftServiceName_def)
  moreover have "takenBy args \<in> set (exported (if serviceOf args = KVServiceName then kvRPC else raftRPC))"
    by (cases args) (simp_all add: KVServiceName_def RaftServiceName_def)
  ultimately show ?thesis using split_method_typed [OF assms(2)] by (simp add: dispatch_def)
qed

lemma invokeMethod_fits: "invokeMethod ops env b1 b2 errText args s = Some (reply, s') \<Longrightarrow> reply_fits args reply"
  by (cases args) (auto simp: map_prod_def split: prod.splits)

lemma mutateLoop_checked:
  "well_typed meth args \<Longrightarrow> mutateLoop n (\<lambda>addr. checked (call addr)) addr meth args w = mutateLoop n call addr meth args w"
  by (induction n arbitrary: addr w) (simp_all add: rpc_ErrNotLeader_def split: prod.split sum.split)

lemma getLoop_checked: "getLoop n (\<lambda>addr. checked (call addr)) addr key w = getLoop n call addr key w"
proof (induction n arbitrary: addr w)
  case (Suc n)
  have "well_typed (KVServiceName @ ''.Get'') (AGet \<lparr>ga_Key = key\<rparr>)" by (simp add: well_typed_def)
  with Suc show ?case by (simp add: rpc_ErrNotLeader_def split: prod.split sum.split)
qed simp

lemma RPCTransport_call_checked:
  assumes "serviceOf args = RaftServiceName" and "meth = takenBy args"
  shows "RPCTransport_call io (\<lambda>conn. checked (invoke conn)) ctxErr t p meth args u = RPCTransport_call io invoke ctxErr t p meth args u"
proof -
  have "well_typed (RaftServiceName @ ''.'' @ meth) args" using assms by (simp add: well_typed_def)
  then have eq: "checked call (RaftServiceName @ ''.'' @ meth) args = call (RaftServiceName @ ''.'' @ meth) args" for call
    by (intro ext) simp
  show ?thesis unfolding RPCTransport_call_def Let_def eq by (rule refl)
qed

text \<open>
  C29.  The remote calls are well typed.  Both services are registered; a request whose method belongs to the
  type of its argument is dispatched to that method, which answers, when it returns, with the reply type
  that belongs to it; and every request of the RPC client and of the RPC transport is of this kind, on
  every round of its redirect loop, so none of them ends with a service or a method that is not found or
  a value that cannot be decoded.
\<close>

theorem rpc_well_typed:
  "(\<exists>svcs. registerRPC = Inr svcs \<and>
     (\<forall>meth args s. well_typed meth args \<longrightarrow>
        dispatch ops env b1 b2 errText svcs meth args s = None \<or>
        (\<exists>reply s'. dispatch ops env b1 b2 errText svcs meth args s = Some (Inr reply, s') \<and> reply_fits args reply))) \<and>
   RPCClient_Ping (\<lambda>addr. checked (ping addr)) c w = RPCClient_Ping ping c w \<and>
   RPCClient_Get (\<lambda>addr. checked (get addr)) c key w = RPCClient_Get get c key w \<and>
   RPCClient_Set (\<lambda>addr. checked (mutate addr)) c key v w = RPCClient_Set mutate c key v w \<and>
   RPCClient_Insert (\<lambda>addr. checked (mutate addr)) c key v w = RPCClient_Insert mutate c key v w \<and>
   RPCClient_Delete (\<lambda>addr. checked (mutate addr)) c key w = RPCClient_Delete mutate c key w \<and>
   RPCTransport_RequestVote io (\<lambda>conn. checked (vote conn)) ctxErr t p rv u = RPCTransport_RequestVote io vote ctxErr t p rv u \<and>
   RPCTransport_AppendEntries io (\<lambda>conn. checked (app conn)) ctxErr t p ae u = RPCTransport_AppendEntries io app ctxErr t p ae u \<and>
   RPCTransport_InstallSnapshot io (\<lambda>conn. checked (inst conn)) ctxErr t p is u =
     RPCTransport_InstallSnapshot io inst ctxErr t p is u"
proof -
  have "dispatch ops env b1 b2 errText svcs meth args s = None \<or>
      (\<exists>reply s'. dispatch ops env b1 b2 errText svcs meth args s = Some (Inr reply, s') \<and> reply_fits args reply)"
    if "registerRPC = Inr svcs" "well_typed meth args" for svcs meth args s
    using dispatch_typed [OF that, of ops env b1 b2 errText s] invokeMethod_fits [of ops env b1 b2 errText args s]
    by (cases "invokeMethod ops env b1 b2 errText args s") auto
  then have "\<exists>svcs. registerRPC = Inr svcs \<and>
     (\<forall>meth args s. well_typed meth args \<longrightarrow>
        dispatch ops env b1 b2 errText svcs meth args s = None \<or>
        (\<exists>reply s'. dispatch ops env b1 b2 errText svcs meth args s = Some (Inr reply, s') \<and> reply_fits args reply))"
    using registered by blast
  moreover have "well_typed (KVServiceName @ ''.Ping'') (APing PingArgs)"
    "well_typed (KVServiceName @ ''.Set'') (ASet \<lparr>sa_Key = key, sa_Value = v\<rparr>)"
    "well_typed (KVServiceName @ ''.Insert'') (AInsert \<lparr>ia_Key = key, ia_Value = v\<rparr>)"
    "well_typed (KVServiceName @ ''.Delete'') (ADelete \<lparr>da_Key = key\<rparr>)"
    by (simp_all add: well_typed_def)
  ultimately show ?thesis
    by (simp add: RPCClient_Ping_def RPCClient_Get_def RPCClient_Set_def RPCClient_Insert_def RPCClient_Delete_def
        doMutate_def getLoop_checked mutateLoop_checked RPCTransport_RequestVote_def RPCTransport_AppendEntries_def
        RPCTransport_InstallSnapshot_def RPCTransport_call_checked)
qed

theorem rpc_well_typed_witness:
  "\<exists>svcs reply s'. registerRPC = Inr svcs \<and>
     dispatch memory_ops id prompt prompt [] svcs ''KVService.Ping'' (APing PingArgs) (demo_server solo) = Some (Inr reply, s') \<and>
     reply_fits (APing PingArgs) reply"
proof -
  have "well_typed ''KVService.Ping'' (APing PingArgs)" by (simp add: well_typed_def KVServiceName_def)
  moreover have "\<exists>svcs. registerRPC = Inr svcs \<and> (\<forall>meth args s. well_typed meth args \<longrightarrow>
      dispatch memory_ops id prompt prompt [] svcs meth args s = None \<or>
      (\<exists>reply s'. dispatch memory_ops id prompt prompt [] svcs meth args s = Some (Inr reply, s') \<and> reply_fits args reply))"
    by (rule conjunct1 [OF rpc_well_typed])
  moreover have "registerRPC = Inr svcs \<Longrightarrow>
      dispatch memory_ops id prompt prompt [] svcs ''KVService.Ping'' (APing PingArgs) (demo_server solo) \<noteq> None" for svcs
    using dispatch_typed [of svcs "''KVService.Ping''" "APing PingArgs" memory_ops id prompt prompt "[]" "demo_server solo"]
    by (simp add: well_typed_def KVServiceName_def)
  ultimately show ?thesis by meson
qed

subsection \<open>Clients of running servers\<close>

text \<open>
  The servers at their addresses.  A call to an address without a server is refused, and a server whose
  method panics is gone.  \<open>readAs\<close> is the reply type the caller decodes.
\<close>

type_synonym 's hosts = "string \<rightharpoonup> 's Server"

fun as_Get :: "RpcReply \<Rightarrow> GetReply option" where
  "as_Get (RGet r) = Some r"
| "as_Get _ = None"

fun as_Mutate :: "RpcReply \<Rightarrow> MutateReply option" where
  "as_Mutate (RMutate r) = Some r"
| "as_Mutate _ = None"

definition hosts_call ::
    "'s StorageOps \<Rightarrow> ('s Server \<Rightarrow> 's Server) \<Rightarrow> 's Blocking \<Rightarrow> 's Blocking \<Rightarrow> string \<Rightarrow> (RpcReply \<Rightarrow> 'r option)
      \<Rightarrow> ('r, 's hosts) rpc" where
  "hosts_call ops env b1 b2 errText readAs addr meth args w =
     (case (w addr, registerRPC) of
        (Some s, Inr svcs) \<Rightarrow>
          (case dispatch ops env b1 b2 errText svcs meth args s of
             None \<Rightarrow> (Inl (''rpc call '' @ meth @ '': unexpected EOF''), w(addr := None))
           | Some (Inl e, s) \<Rightarrow> (Inl (''rpc call '' @ meth @ '': '' @ e), w(addr \<mapsto> s))
           | Some (Inr reply, s) \<Rightarrow>
               (case readAs reply of
                  None \<Rightarrow> (Inl (''rpc call '' @ meth @ '': gob: type mismatch''), w(addr \<mapsto> s))
                | Some r \<Rightarrow> (Inr r, w(addr \<mapsto> s))))
      | _ \<Rightarrow> (Inl ''connection refused'', w))"

lemma hosts_call_typed:
  assumes "well_typed meth args" and "w addr = Some s"
  shows "hosts_call ops env b1 b2 errText readAs addr meth args w =
    (case invokeMethod ops env b1 b2 errText args s of
       None \<Rightarrow> (Inl (''rpc call '' @ meth @ '': unexpected EOF''), w(addr := None))
     | Some (reply, s) \<Rightarrow>
         (case readAs reply of
            None \<Rightarrow> (Inl (''rpc call '' @ meth @ '': gob: type mismatch''), w(addr \<mapsto> s))
          | Some r \<Rightarrow> (Inr r, w(addr \<mapsto> s))))"
  using assms(2)
  by (cases "invokeMethod ops env b1 b2 errText args s")
    (auto simp: hosts_call_def registered dispatch_typed [OF registered assms(1)] split: option.split)

lemma hosts_call_get:
  assumes "w addr = Some s"
  shows "hosts_call ops env b1 b2 errText as_Get addr (KVServiceName @ ''.Get'') (AGet args) w = (Inr (rpcGet errText args s), w)"
  using assms by (subst hosts_call_typed [where s = s]) (simp_all add: well_typed_def fun_upd_idem)

text \<open>
  C28.  A read finds the leader: if the server the client talks to leads, or knows the address of a
  server that does, the client gets the value the leader's store has for the key, or the error
  \<^verbatim>\<open>key not found\<close> if it has none, and no server changes.
\<close>

theorem read_finds_leader:
  assumes "w (rc_addr c) = Some s"
    and "if state (srv_raft s) = Leader then l = s
         else leaderAddr s \<noteq> [] \<and> w (leaderAddr s) = Some l \<and> state (srv_raft l) = Leader"
  shows "RPCClient_Get (hosts_call ops env b1 b2 errText as_Get) c key w =
     (case lookup (srv_store l) key of Some v \<Rightarrow> Inr v | None \<Rightarrow> Inl ''key not found'', w)"
  using assms
  by (cases "lookup (srv_store l) key")
    (auto simp: RPCClient_Get_def maxRedirects_def numeral_3_eq_3 hosts_call_get rpcGet_def
      getValueInternal_def RaftState_def Get_def populateLeaderError_def rpc_ErrNotLeader_def split: if_splits)

definition led_by :: "MemoryStorage Server" where
  "led_by = (demo_server ((fresh ''n1'')\<lparr>leaderID := ''n2''\<rparr>))"

definition two_hosts :: "MemoryStorage hosts" where
  "two_hosts = [''h1:1'' \<mapsto> led_by, ''h2:1'' \<mapsto> (demo_server leader_one)\<lparr>srv_store := \<lparr>store_data = Some [(''k'', ''v'')]\<rparr>\<rparr>]"

theorem read_finds_leader_witness:
  "RPCClient_Get (hosts_call memory_ops id prompt prompt [] as_Get) (NewRPCClient ''h1:1'') ''k'' two_hosts = (Inr ''v'', two_hosts)"
proof -
  have "state (fresh ''n1'') \<noteq> Leader \<and> state leader_one = Leader" by code_simp
  then show ?thesis
    using read_finds_leader [of two_hosts "NewRPCClient ''h1:1''" led_by
        "(demo_server leader_one)\<lparr>srv_store := \<lparr>store_data = Some [(''k'', ''v'')]\<rparr>\<rparr>" memory_ops id prompt prompt "[]" "''k''"]
    by (simp add: two_hosts_def led_by_def demo_server_def NewRPCClient_def leaderAddr_def LeaderID_def lookup_def)
qed

end
