(* ===== verification/Sessions.thy ===== *)
theory Sessions
  imports Client_Service
begin

text \<open>
  What a client sees of a server that is alone, over many operations.  A client whose every operation
  agrees with an abstract map is the locale \<open>map_client\<close>; the RPC client behind the dispatcher of \<^verbatim>\<open>net/rpc\<close>
  and the HTTP client behind the routes of the server are its instances.
\<close>

subsection \<open>The interface\<close>

datatype ClientOp =
    DoGet string
  | DoSet string string
  | DoInsert string string
  | DoDelete string

text \<open>
  What a client gets from an abstract map: a value, nothing, or the text of the error; the text for a
  read of a missing key is an argument.
\<close>

fun spec_op :: "(string \<Rightarrow> string) \<Rightarrow> ClientOp \<Rightarrow> (string \<rightharpoonup> string) \<Rightarrow> (string + string) \<times> (string \<rightharpoonup> string)" where
  "spec_op missing (DoGet k) m = (case m k of Some v \<Rightarrow> Inr v | None \<Rightarrow> Inl (missing k), m)"
| "spec_op missing (DoSet k v) m = (Inr [], m(k \<mapsto> v))"
| "spec_op missing (DoInsert k v) m = (if k \<in> dom m then (Inl ''key exists'', m) else (Inr [], m(k \<mapsto> v)))"
| "spec_op missing (DoDelete k) m = (if k \<in> dom m then (Inr [], m(k := None)) else (Inl ''key not found'', m))"

fun spec_session ::
    "(string \<Rightarrow> string) \<Rightarrow> ClientOp list \<Rightarrow> (string \<rightharpoonup> string) \<Rightarrow> (string + string) list \<times> (string \<rightharpoonup> string)" where
  "spec_session missing [] m = ([], m)"
| "spec_session missing (x # xs) m =
     (let (r, m) = spec_op missing x m; (rs, m) = spec_session missing xs m in (r # rs, m))"

fun session :: "(ClientOp \<Rightarrow> 'w \<Rightarrow> 'r \<times> 'w) \<Rightarrow> ClientOp list \<Rightarrow> 'w \<Rightarrow> 'r list \<times> 'w" where
  "session op [] w = ([], w)"
| "session op (x # xs) w = (let (r, w) = op x w; (rs, w) = session op xs w in (r # rs, w))"

locale map_client =
  fixes op :: "ClientOp \<Rightarrow> 'w \<Rightarrow> (string + string) \<times> 'w" and missing :: "string \<Rightarrow> string"
    and ok :: "ClientOp \<Rightarrow> bool" and good :: "'w \<Rightarrow> bool" and contents :: "'w \<Rightarrow> (string \<rightharpoonup> string)"
  assumes op_good: "good w \<Longrightarrow> ok x \<Longrightarrow> good (snd (op x w))"
    and op_result: "good w \<Longrightarrow> ok x \<Longrightarrow> fst (op x w) = fst (spec_op missing x (contents w))"
    and op_contents: "good w \<Longrightarrow> ok x \<Longrightarrow> contents (snd (op x w)) = snd (spec_op missing x (contents w))"
begin

lemma session_refines:
  assumes "good w" and "list_all ok xs"
  shows "fst (session op xs w) = fst (spec_session missing xs (contents w)) \<and>
    contents (snd (session op xs w)) = snd (spec_session missing xs (contents w)) \<and> good (snd (session op xs w))"
  using assms
proof (induction xs arbitrary: w)
  case (Cons x xs)
  then have "good (snd (op x w))" and "list_all ok xs" by (simp_all add: op_good)
  from Cons.IH [OF this] Cons.prems show ?case by (simp add: case_prod_beta op_result op_contents)
qed simp

end

subsection \<open>A server that is alone\<close>

fun op_ok :: "ClientOp \<Rightarrow> bool" where
  "op_ok (DoGet k) = True"
| "op_ok (DoSet k v) = (valid_utf8 k \<and> valid_utf8 v)"
| "op_ok (DoInsert k v) = (valid_utf8 k \<and> valid_utf8 v)"
| "op_ok (DoDelete k) = valid_utf8 k"

fun op_command :: "ClientOp \<Rightarrow> Command" where
  "op_command (DoSet k v) = \<lparr>Op = OpSet, Key = k, Value = v\<rparr>"
| "op_command (DoInsert k v) = \<lparr>Op = OpInsert, Key = k, Value = v\<rparr>"
| "op_command (DoDelete k) = \<lparr>Op = OpDelete, Key = k, Value = []\<rparr>"
| "op_command (DoGet k) = zero_Command"

lemma op_command_ok: "op_ok x \<Longrightarrow> \<forall>k. x \<noteq> DoGet k \<Longrightarrow> command_ok (op_command x)"
  by (cases x) (simp_all add: command_ok_def OpSet_def OpInsert_def OpDelete_def valid_utf8.simps)

text \<open>
  The server at an address is alone, the apply loop catches up at the latest while a request waits for
  its result, and the servers elsewhere are those of \<open>w0\<close>.
\<close>

definition lone_at :: "'s StorageOps \<Rightarrow> 's Blocking \<Rightarrow> 's Blocking \<Rightarrow> string \<Rightarrow> 's hosts \<Rightarrow> 's hosts \<Rightarrow> bool" where
  "lone_at ops b1 b2 addr w0 w \<longleftrightarrow> catches_up ops b1 b2 \<and>
     (case w addr of None \<Rightarrow> False | Some s \<Rightarrow> lone s) \<and> w(addr := None) = w0(addr := None)"

definition contents_at :: "string \<Rightarrow> 's hosts \<Rightarrow> (string \<rightharpoonup> string)" where
  "contents_at addr w = (case w addr of None \<Rightarrow> Map.empty | Some s \<Rightarrow> lookup (srv_store s))"

lemma lone_atE:
  assumes "lone_at ops b1 b2 addr w0 w"
  obtains s where "w addr = Some s" and "lone s" and "contents_at addr w = lookup (srv_store s)"
    and "catches_up ops b1 b2"
  using assms by (auto simp: lone_at_def contents_at_def split: option.splits)

lemma lone_at_update:
  assumes "lone_at ops b1 b2 addr w0 w" and "lone s"
  shows "lone_at ops b1 b2 addr w0 (w(addr \<mapsto> s))" and "contents_at addr (w(addr \<mapsto> s)) = lookup (srv_store s)"
  using assms by (simp_all add: lone_at_def contents_at_def)

text \<open>A client operation that is a read, or that hands the server its command.\<close>

definition serves :: "string \<Rightarrow> (ClientOp \<Rightarrow> 's hosts \<Rightarrow> (string + string) \<times> 's hosts) \<Rightarrow> (string \<Rightarrow> string)
    \<Rightarrow> 's hosts \<Rightarrow> 's Server \<Rightarrow> ClientOp \<Rightarrow> bool" where
  "serves addr op missing w s x \<longleftrightarrow>
     (\<exists>s'. op x w = (fst (spec_op missing x (lookup (srv_store s))), w(addr \<mapsto> s')) \<and>
        lookup (srv_store s') = snd (spec_op missing x (lookup (srv_store s))) \<and> lone s')"

lemma serves_map_client:
  assumes "\<And>w x s. lone_at ops b1 b2 addr w0 w \<Longrightarrow> w addr = Some s \<Longrightarrow> lone s \<Longrightarrow> ok x \<Longrightarrow> serves addr op missing w s x"
  shows "map_client op missing ok (lone_at ops b1 b2 addr w0) (contents_at addr)"
proof -
  have *: "\<exists>s'. op x w = (fst (spec_op missing x (contents_at addr w)), w(addr \<mapsto> s')) \<and>
      lookup (srv_store s') = snd (spec_op missing x (contents_at addr w)) \<and> lone s'"
    if "lone_at ops b1 b2 addr w0 w" "ok x" for w x
    using that(1)
  proof (rule lone_atE)
    fix s assume "w addr = Some s" "lone s" "contents_at addr w = lookup (srv_store s)"
    with assms [OF that(1) _ _ that(2)] show ?thesis by (simp add: serves_def)
  qed
  show ?thesis
    by unfold_locales (use * lone_at_update in \<open>fastforce\<close>)+
qed

subsection \<open>The RPC client\<close>

text \<open>A mutation reports nothing or its error.\<close>

definition outcome :: "string option \<times> 'w \<Rightarrow> (string + string) \<times> 'w" where
  "outcome res = (case fst res of None \<Rightarrow> Inr [] | Some e \<Rightarrow> Inl e, snd res)"

fun rpc_op ::
    "'s StorageOps \<Rightarrow> 's Blocking \<Rightarrow> 's Blocking \<Rightarrow> string \<Rightarrow> RPCClient \<Rightarrow> ClientOp \<Rightarrow> 's hosts \<Rightarrow> (string + string) \<times> 's hosts" where
  "rpc_op ops b1 b2 errText c (DoGet k) w = RPCClient_Get (hosts_call ops id b1 b2 errText as_Get) c k w"
| "rpc_op ops b1 b2 errText c (DoSet k v) w =
     outcome (RPCClient_Set (hosts_call ops id b1 b2 errText as_Mutate) c k v w)"
| "rpc_op ops b1 b2 errText c (DoInsert k v) w =
     outcome (RPCClient_Insert (hosts_call ops id b1 b2 errText as_Mutate) c k v w)"
| "rpc_op ops b1 b2 errText c (DoDelete k) w =
     outcome (RPCClient_Delete (hosts_call ops id b1 b2 errText as_Mutate) c k w)"

fun op_request :: "ClientOp \<Rightarrow> RpcArgs" where
  "op_request (DoGet k) = AGet \<lparr>ga_Key = k\<rparr>"
| "op_request (DoSet k v) = ASet \<lparr>sa_Key = k, sa_Value = v\<rparr>"
| "op_request (DoInsert k v) = AInsert \<lparr>ia_Key = k, ia_Value = v\<rparr>"
| "op_request (DoDelete k) = ADelete \<lparr>da_Key = k\<rparr>"

lemma lone_call:
  assumes "lone s" and "w addr = Some s" and "command_ok cmd" and "catches_up ops b1 b2"
    and "well_typed meth args"
    and "invokeMethod ops id b1 b2 errText args s = map_option (map_prod RMutate id) (rpcMutate ops id b1 b2 errText cmd s)"
  shows "\<exists>s'. hosts_call ops id b1 b2 errText as_Mutate addr meth args w =
      (Inr \<lparr>mr_Error = (case fst (kv_spec cmd (lookup (srv_store s))) of None \<Rightarrow> [] | Some e \<Rightarrow> kv_error_Error errText e),
         mr_LeaderAddr = []\<rparr>, w(addr \<mapsto> s')) \<and>
    lookup (srv_store s') = snd (kv_spec cmd (lookup (srv_store s))) \<and> lone s'"
proof -
  from lone_mutation [OF assms(1,3,4)] obtain s' where s': "applyCommandInternal ops id b1 b2 cmd s =
      Done (map_option KvErr (fst (kv_spec cmd (lookup (srv_store s))))) [] None s'"
    "lookup (srv_store s') = snd (kv_spec cmd (lookup (srv_store s)))" "lone s'" by (auto simp: id_def)
  then have "hosts_call ops id b1 b2 errText as_Mutate addr meth args w =
      (Inr (mutateReply errText (map_option KvErr (fst (kv_spec cmd (lookup (srv_store s))))) [] None), w(addr \<mapsto> s'))"
    by (subst hosts_call_typed [where w = w and addr = addr and s = s, OF assms(5,2)]) (simp add: assms(6) rpcMutate_def)
  with s'(2,3) show ?thesis
    by (intro exI [of _ s']) (simp add: mutateReply_def split: option.split)
qed

lemma rpc_serves:
  assumes "lone s" and "w (rc_addr c) = Some s" and "op_ok x"
    and "catches_up ops b1 b2"
  shows "serves (rc_addr c) (rpc_op ops b1 b2 errText c) (\<lambda>k. ''key not found'') w s x"
proof (cases "\<exists>k. x = DoGet k")
  case True
  with assms(1,2) have "rpc_op ops b1 b2 errText c x w = (fst (spec_op (\<lambda>k. ''key not found'') x (lookup (srv_store s))), w)"
    by (auto simp: RPCClient_Get_def maxRedirects_def numeral_3_eq_3 hosts_call_get rpcGet_def getValueInternal_def
        RaftState_def Get_def lone_def rpc_ErrNotLeader_def split: option.split)
  with True assms(1,2) show ?thesis by (auto simp: serves_def fun_upd_idem intro!: exI [of _ s])
next
  case False
  let ?cmd = "op_command x" and ?args = "op_request x" and ?m = "lookup (srv_store s)"
  let ?meth = "serviceOf ?args @ ''.'' @ takenBy ?args" and ?spec = "spec_op (\<lambda>k. ''key not found'') x"
  have "invokeMethod ops id b1 b2 errText ?args s = map_option (map_prod RMutate id) (rpcMutate ops id b1 b2 errText ?cmd s)"
    using False by (cases x) (simp_all add: rpcSet_def rpcInsert_def rpcDelete_def)
  moreover have "well_typed ?meth ?args" by (simp add: well_typed_def)
  ultimately obtain s' where s': "hosts_call ops id b1 b2 errText as_Mutate (rc_addr c) ?meth ?args w =
      (Inr \<lparr>mr_Error = (case fst (kv_spec ?cmd ?m) of None \<Rightarrow> [] | Some e \<Rightarrow> kv_error_Error errText e), mr_LeaderAddr = []\<rparr>,
       w(rc_addr c \<mapsto> s'))" "lookup (srv_store s') = snd (kv_spec ?cmd ?m)" "lone s'"
    using lone_call [where w = w and addr = "rc_addr c" and s = s, OF assms(1,2) op_command_ok assms(4)] assms(3) False by blast
  have "outcome (doMutate (hosts_call ops id b1 b2 errText as_Mutate) c ?meth ?args w) =
      (fst (?spec ?m), w(rc_addr c \<mapsto> s')) \<and> snd (kv_spec ?cmd ?m) = snd (?spec ?m)"
    using s'(1) False
    by (cases x) (auto simp: doMutate_def maxRedirects_def numeral_3_eq_3 outcome_def kv_spec_def OpSet_def OpInsert_def
        OpDelete_def rpc_ErrNotLeader_def)
  moreover have "rpc_op ops b1 b2 errText c x w =
      outcome (doMutate (hosts_call ops id b1 b2 errText as_Mutate) c ?meth ?args w)"
    using False by (cases x) (simp_all add: RPCClient_Set_def RPCClient_Insert_def RPCClient_Delete_def)
  ultimately show ?thesis using s'(2,3) by (auto simp: serves_def intro!: exI [of _ s'])
qed

interpretation rpc: map_client "rpc_op ops b1 b2 errText c" "\<lambda>k. ''key not found''" op_ok
    "lone_at ops b1 b2 (rc_addr c) w0" "contents_at (rc_addr c)"
  for ops b1 b2 errText c and w0 :: "'s hosts"
  by (rule serves_map_client) (blast intro: rpc_serves elim: lone_atE)

subsection \<open>The HTTP client\<close>

text \<open>
  An HTTP request to the servers at their addresses: the host and the path of its URL, the route the
  server has for it, and what its handler answers.  A handler that panics drops the connection.
\<close>

definition hosts_do ::
    "'s StorageOps \<Rightarrow> ('s Server \<Rightarrow> 's Server) \<Rightarrow> 's Blocking \<Rightarrow> 's Blocking \<Rightarrow> mux \<Rightarrow> 's hosts http_do" where
  "hosts_do ops env b1 b2 m meth url body w =
     (let rest = drop 7 url;
          addr = takeWhile (\<lambda>c. c \<noteq> CHR ''/'') rest;
          path = dropWhile (\<lambda>c. c \<noteq> CHR ''/'') rest
      in case w addr of
           None \<Rightarrow> (Inl ''connection refused'', w)
         | Some s \<Rightarrow>
             (case serveHTTP ops env b1 b2 m meth path (Some body) s of
                None \<Rightarrow> (Inl ''EOF'', w)
              | Some (res, s) \<Rightarrow> (Inr res, w(addr \<mapsto> s))))"

fun http_op ::
    "'s StorageOps \<Rightarrow> 's Blocking \<Rightarrow> 's Blocking \<Rightarrow> mux \<Rightarrow> HTTPClient \<Rightarrow> ClientOp \<Rightarrow> 's hosts \<Rightarrow> (string + string) \<times> 's hosts" where
  "http_op ops b1 b2 m c (DoGet k) w = HTTPClient_Get (hosts_do ops id b1 b2 m) c k w"
| "http_op ops b1 b2 m c (DoSet k v) w = outcome (HTTPClient_Set (hosts_do ops id b1 b2 m) c k v w)"
| "http_op ops b1 b2 m c (DoInsert k v) w = outcome (HTTPClient_Insert (hosts_do ops id b1 b2 m) c k v w)"
| "http_op ops b1 b2 m c (DoDelete k) w = outcome (HTTPClient_Delete (hosts_do ops id b1 b2 m) c k w)"

fun op_key :: "ClientOp \<Rightarrow> string" where
  "op_key (DoGet k) = k" | "op_key (DoSet k v) = k" | "op_key (DoInsert k v) = k" | "op_key (DoDelete k) = k"

lemma hosts_do_key:
  assumes "mux_ok m" and "plain_key key" and "CHR ''/'' \<notin> set addr" and "w addr = Some s"
    and "(meth, h) \<in> set [(''GET'', HandleGet), (''POST'', HandlePost), (''PUT'', HandlePut), (''DELETE'', HandleDelete)]"
    and "serveRoute ops env b1 b2 h [(''key'', key)] meth (''/key/'' @ key) (Some body) s = Some (res, s')"
  shows "hosts_do ops env b1 b2 m meth (PathWithKey (PathWithHttp addr) key) body w = (Inr res, w(addr \<mapsto> s'))"
proof -
  have "takeWhile (\<lambda>c. c \<noteq> CHR ''/'') (addr @ ''/key/'' @ key) = addr"
    "dropWhile (\<lambda>c. c \<noteq> CHR ''/'') (addr @ ''/key/'' @ key) = ''/key/'' @ key"
    using assms(3) by (induction addr) auto
  moreover have "drop 7 (PathWithKey (PathWithHttp addr) key) = addr @ ''/key/'' @ key"
    by (simp add: PathWithKey_def PathWithHttp_def)
  ultimately show ?thesis
    using assms(4,6) serveHTTP_key [OF assms(1,2,5), of ops env b1 b2 "Some body" s]
    unfolding hosts_do_def Let_def by (simp only: option.case prod.case)
qed

definition http_ok :: "mux \<Rightarrow> HTTPClient \<Rightarrow> ClientOp \<Rightarrow> bool" where
  "http_ok m c x \<longleftrightarrow> op_ok x \<and> plain_key (op_key x) \<and> mux_ok m \<and> CHR ''/'' \<notin> set (hc_addr c)"

text \<open>The response of a lone server to a mutation.\<close>

definition command_reply :: "kv_error option \<Rightarrow> Response" where
  "command_reply e = (case e of
     None \<Rightarrow> reply_with 200 []
   | Some ErrKeyExists \<Rightarrow> reply_with 409 ''key exists''
   | Some ErrKeyNotFound \<Rightarrow> reply_with 404 ''key not found''
   | Some _ \<Rightarrow> reply_with 500 ''apply error'')"

lemma lone_command:
  assumes "lone s" and "command_ok cmd" and "catches_up ops b1 b2"
  shows "\<exists>s'. applyCommand ops id b1 b2 uri cmd s = Some (command_reply (fst (kv_spec cmd (lookup (srv_store s)))), s') \<and>
    lookup (srv_store s') = snd (kv_spec cmd (lookup (srv_store s))) \<and> lone s'"
proof -
  from lone_mutation [OF assms] obtain s' where s': "applyCommandInternal ops id b1 b2 cmd s =
      Done (map_option KvErr (fst (kv_spec cmd (lookup (srv_store s))))) [] None s'"
    "lookup (srv_store s') = snd (kv_spec cmd (lookup (srv_store s)))" "lone s'" by (auto simp: id_def)
  then show ?thesis
    by (intro exI [of _ s'])
      (auto simp: applyCommand_def commandResponse_def command_reply_def writeApplyError_def split: option.split kv_error.split)
qed

fun op_meth :: "ClientOp \<Rightarrow> string" where
  "op_meth (DoGet k) = ''GET''"
| "op_meth (DoSet k v) = ''POST''"
| "op_meth (DoInsert k v) = ''PUT''"
| "op_meth (DoDelete k) = ''DELETE''"

fun op_handler :: "ClientOp \<Rightarrow> Handler" where
  "op_handler (DoGet k) = HandleGet"
| "op_handler (DoSet k v) = HandlePost"
| "op_handler (DoInsert k v) = HandlePut"
| "op_handler (DoDelete k) = HandleDelete"

fun op_body :: "ClientOp \<Rightarrow> string" where
  "op_body (DoSet k v) = v"
| "op_body (DoInsert k v) = v"
| "op_body _ = []"

lemma http_request:
  assumes "http_ok m c x" and "w (hc_addr c) = Some s"
    and "serveRoute ops id b1 b2 (op_handler x) [(''key'', op_key x)] (op_meth x) (''/key/'' @ op_key x) (Some (op_body x)) s = Some (res, s')"
  shows "hosts_do ops id b1 b2 m (op_meth x) (PathWithKey (PathWithHttp (hc_addr c)) (op_key x)) (op_body x) w =
    (Inr res, w(hc_addr c \<mapsto> s'))"
proof -
  have "(op_meth x, op_handler x) \<in> set [(''GET'', HandleGet), (''POST'', HandlePost), (''PUT'', HandlePut), (''DELETE'', HandleDelete)]"
    by (cases x) simp_all
  with assms show ?thesis by (intro hosts_do_key [where s = s]) (auto simp: http_ok_def)
qed

lemma http_serves:
  assumes "lone s" and "w (hc_addr c) = Some s" and ok: "http_ok m c x"
    and "catches_up ops b1 b2"
  shows "serves (hc_addr c) (http_op ops b1 b2 m c) (\<lambda>k. ''key '' @ k @ '' not found'') w s x"
proof (cases "\<exists>k. x = DoGet k")
  case True
  then obtain k where x: "x = DoGet k" by blast
  have "hosts_do ops id b1 b2 m ''GET'' (PathWithKey (PathWithHttp (hc_addr c)) k) [] w =
      (Inr (getHandler (''/key/'' @ k) k s), w(hc_addr c \<mapsto> s))"
    using http_request [where w = w and s = s, OF ok assms(2), of ops b1 b2 "getHandler (''/key/'' @ k) k s" s] by (simp add: x getKey_def)
  then show ?thesis
    using assms(1) unfolding x serves_def
    by (intro exI [of _ s]) (auto simp: HTTPClient_Get_def httpRead_def doRequest_def maxRedirects_def numeral_3_eq_3
        getHandler_def getValueInternal_def RaftState_def Get_def lone_def reply_with_def split: option.split)
next
  case False
  let ?cmd = "op_command x" and ?m = "lookup (srv_store s)" and ?uri = "''/key/'' @ op_key x"
  let ?spec = "spec_op (\<lambda>k. ''key '' @ k @ '' not found'') x"
  have "op_ok x" using ok by (simp add: http_ok_def)
  with lone_command [OF assms(1) op_command_ok assms(4)] False obtain s' where
    s': "applyCommand ops id b1 b2 ?uri ?cmd s = Some (command_reply (fst (kv_spec ?cmd ?m)), s')"
      "lookup (srv_store s') = snd (kv_spec ?cmd ?m)" "lone s'" by blast
  have "serveRoute ops id b1 b2 (op_handler x) [(''key'', op_key x)] (op_meth x) ?uri (Some (op_body x)) s =
      applyCommand ops id b1 b2 ?uri ?cmd s"
    using False by (cases x) (simp_all add: getKey_def postHandler_def putHandler_def deleteHandler_def)
  from http_request [where w = w and s = s, OF ok assms(2), of ops b1 b2, unfolded this, OF s'(1)]
  have do: "hosts_do ops id b1 b2 m (op_meth x) (PathWithKey (PathWithHttp (hc_addr c)) (op_key x)) (op_body x) w =
      (Inr (command_reply (fst (kv_spec ?cmd ?m))), w(hc_addr c \<mapsto> s'))" .
  have "http_op ops b1 b2 m c x w = outcome (httpMutate (hosts_do ops id b1 b2 m) (op_meth x)
      (PathWithKey (PathWithHttp (hc_addr c)) (op_key x)) (op_body x) w)"
    using False by (cases x) (simp_all add: HTTPClient_Set_def HTTPClient_Insert_def HTTPClient_Delete_def)
  also have "\<dots> = (fst (?spec ?m), w(hc_addr c \<mapsto> s'))"
    using do False
    by (cases x) (auto simp: httpMutate_def doRequest_def maxRedirects_def numeral_3_eq_3 outcome_def command_reply_def
        kv_spec_def OpSet_def OpInsert_def OpDelete_def reply_with_def)
  finally have "http_op ops b1 b2 m c x w = (fst (?spec ?m), w(hc_addr c \<mapsto> s'))" .
  moreover have "snd (kv_spec ?cmd ?m) = snd (?spec ?m)"
    using False by (cases x) (auto simp: kv_spec_def OpSet_def OpInsert_def OpDelete_def)
  ultimately show ?thesis using s'(2,3) by (auto simp: serves_def)
qed

interpretation http: map_client "http_op ops b1 b2 m c" "\<lambda>k. ''key '' @ k @ '' not found''" "http_ok m c"
    "lone_at ops b1 b2 (hc_addr c) w0" "contents_at (hc_addr c)"
  for ops b1 b2 m c and w0 :: "'s hosts"
  by (rule serves_map_client) (blast intro: http_serves elim: lone_atE)

subsection \<open>Properties\<close>

text \<open>
  C14.  A cluster of one refines a map.  Whatever a client does in a row against a server that is alone,
  leads and has nothing left to apply, reads, writes, inserts and deletes, it gets exactly the results,
  errors included, that an abstract map would give, and the server's store ends with that map's contents.
  The keys and values of mutations are valid UTF-8.  The apply loop may catch up with a command before the
  request waits for the commit, before it asks for the result, or while it waits for the result, and that
  may differ from request to request.  This holds through the RPC client and its dispatcher, and, for
  keys that need no escaping in a path, through the HTTP client and the routes: nothing is lost,
  repeated or reordered on the way through the client, the server, the log, its JSON, the apply loop
  and automatic snapshots.
\<close>

theorem lone_sessions_refine:
  assumes "w addr = Some s" and "lone s" and "catches_up ops b1 b2" and "list_all op_ok xs"
    and "missing = (if useHTTP then (\<lambda>k. ''key '' @ k @ '' not found'') else (\<lambda>k. ''key not found''))"
    and "useHTTP \<Longrightarrow> mux_ok m \<and> CHR ''/'' \<notin> set addr \<and> list_all (plain_key \<circ> op_key) xs"
  shows "let op = (if useHTTP then http_op ops b1 b2 m \<lparr>hc_addr = addr\<rparr> else rpc_op ops b1 b2 errText \<lparr>rc_addr = addr\<rparr>)
    in \<exists>s'. session op xs w = (fst (spec_session missing xs (lookup (srv_store s))), w(addr \<mapsto> s')) \<and>
       lookup (srv_store s') = snd (spec_session missing xs (lookup (srv_store s))) \<and> lone s'"
proof -
  define op where "op = (if useHTTP then http_op ops b1 b2 m \<lparr>hc_addr = addr\<rparr> else rpc_op ops b1 b2 errText \<lparr>rc_addr = addr\<rparr>)"
  let ?w' = "snd (session op xs w)"
  have at: "lone_at ops b1 b2 addr w w" using assms(1-3) by (simp add: lone_at_def)
  have c: "contents_at addr w = lookup (srv_store s)" using assms(1) by (simp add: contents_at_def)
  have R: "fst (session op xs w) = fst (spec_session missing xs (lookup (srv_store s))) \<and>
      contents_at addr ?w' = snd (spec_session missing xs (lookup (srv_store s))) \<and> lone_at ops b1 b2 addr w ?w'"
  proof (cases useHTTP)
    case True
    then have "list_all (http_ok m \<lparr>hc_addr = addr\<rparr>) xs" using assms(4,6) by (simp add: list_all_iff http_ok_def)
    with http.session_refines [of ops b1 b2 "\<lparr>hc_addr = addr\<rparr>" w w m] at c True show ?thesis
      by (simp add: op_def assms(5))
  next
    case False
    with rpc.session_refines [of ops b1 b2 "\<lparr>rc_addr = addr\<rparr>" w w xs errText] at c assms(4) show ?thesis
      by (simp add: op_def assms(5))
  qed
  then obtain s' where s': "?w' addr = Some s'" "lone s'" "contents_at addr ?w' = lookup (srv_store s')"
    by (auto elim: lone_atE)
  have "?w'(addr := None) = w(addr := None)" using R by (simp add: lone_at_def)
  then have "?w' = w(addr \<mapsto> s')" using s'(1) by (auto simp: fun_eq_iff split: if_splits)
  with R s' have "session op xs w = (fst (spec_session missing xs (lookup (srv_store s))), w(addr \<mapsto> s'))"
    by (metis prod.collapse)
  with R s' show ?thesis by (auto simp: op_def [symmetric])
qed

definition demo_ops :: "ClientOp list" where
  "demo_ops = [DoInsert ''k'' ''v'', DoInsert ''k'' ''u'', DoGet ''k'', DoDelete ''k'', DoGet ''k'']"

text \<open>The apply loop runs only while the request waits for its result.\<close>

definition patient :: "MemoryStorage Blocking" where
  "patient = prompt\<lparr>bl_env := drain memory_ops\<rparr>"

theorem lone_sessions_refine_witness:
  "fst (session (http_op memory_ops prompt patient firstRoute \<lparr>hc_addr = ''h1:1''\<rparr>)
      demo_ops [''h1:1'' \<mapsto> demo_server solo]) =
    [Inr [], Inl ''key exists'', Inr ''v'', Inr [], Inl ''key k not found'']"
proof -
  let ?s = "demo_server solo"
  have "lone ?s" "list_all op_ok demo_ops" "list_all (plain_key \<circ> op_key) demo_ops" by code_simp+
  moreover have "mux_ok firstRoute" by (simp add: mux_ok_def)
  moreover have "catches_up memory_ops prompt patient" by (simp add: catches_up_def prompt_def patient_def)
  moreover have e: "lookup (srv_store ?s) = Map.empty" by (simp add: demo_server_def NewStore_def lookup_def fun_eq_iff)
  ultimately have "fst (session (http_op memory_ops prompt patient firstRoute \<lparr>hc_addr = ''h1:1''\<rparr>)
      demo_ops [''h1:1'' \<mapsto> ?s]) = fst (spec_session (\<lambda>k. ''key '' @ k @ '' not found'') demo_ops Map.empty)"
    using lone_sessions_refine [of "[''h1:1'' \<mapsto> ?s]" "''h1:1''" ?s memory_ops prompt patient
        demo_ops "\<lambda>k. ''key '' @ k @ '' not found''" True firstRoute "[]"]
    by auto
  then show ?thesis by (simp add: demo_ops_def)
qed

end
