(* ===== verification/Peers_Flag.thy ===== *)
theory Peers_Flag
  imports Prelude
begin

text \<open>
  The peers flag of \<^verbatim>\<open>src/cmd/server_cmd/server_cmd.go\<close>: \<^verbatim>\<open>parsePeers\<close> with the functions of the package
  \<^verbatim>\<open>strings\<close> it uses, on strings of bytes.
\<close>

subsection \<open>strings.TrimSpace\<close>

text \<open>The UTF-8 forms of the white space characters of \<^verbatim>\<open>unicode.IsSpace\<close>.\<close>

definition spaces :: "string list" where
  "spaces =
     map (\<lambda>c. [c]) [CHR 0x09, CHR 0x0A, CHR 0x0B, CHR 0x0C, CHR 0x0D, CHR '' ''] @
     [[CHR 0xC2, CHR 0x85], [CHR 0xC2, CHR 0xA0], [CHR 0xE1, CHR 0x9A, CHR 0x80]] @
     map (\<lambda>c. [CHR 0xE2, CHR 0x80, c])
       [CHR 0x80, CHR 0x81, CHR 0x82, CHR 0x83, CHR 0x84, CHR 0x85, CHR 0x86, CHR 0x87, CHR 0x88, CHR 0x89,
        CHR 0x8A, CHR 0xA8, CHR 0xA9, CHR 0xAF] @
     [[CHR 0xE2, CHR 0x81, CHR 0x9F], [CHR 0xE3, CHR 0x80, CHR 0x80]]"

definition starts_with :: "string \<Rightarrow> string \<Rightarrow> bool" where
  "starts_with p s \<longleftrightarrow> take (length p) s = p"

definition leading :: "string list \<Rightarrow> string \<Rightarrow> nat" where
  "leading ps s = (case List.find (\<lambda>p. starts_with p s) ps of None \<Rightarrow> 0 | Some p \<Rightarrow> length p)"

function trim_with :: "string list \<Rightarrow> string \<Rightarrow> string" where
  "trim_with ps s =
     (let k = leading ps s in if k = 0 \<or> s = [] then s else trim_with ps (drop k s))"
  by pat_completeness auto
termination
  by (relation "measure (\<lambda>(ps, s). length s)") auto

declare trim_with.simps [simp del]

definition TrimSpace :: "string \<Rightarrow> string" where
  "TrimSpace s = rev (trim_with (map rev spaces) (rev (trim_with spaces s)))"

subsection \<open>strings.Split and strings.SplitN\<close>

fun Split :: "char \<Rightarrow> string \<Rightarrow> string list" where
  "Split sep [] = [[]]"
| "Split sep (c # cs) =
     (if c = sep then [] # Split sep cs
      else case Split sep cs of [] \<Rightarrow> [[c]] | x # xs \<Rightarrow> (c # x) # xs)"

text \<open>\<^verbatim>\<open>strings.SplitN(s, sep, 2)\<close>.\<close>

definition SplitN2 :: "char \<Rightarrow> string \<Rightarrow> string list" where
  "SplitN2 sep s =
     (case dropWhile (\<lambda>c. c \<noteq> sep) s of
        [] \<Rightarrow> [s]
      | _ # rest \<Rightarrow> [takeWhile (\<lambda>c. c \<noteq> sep) s, rest])"

subsection \<open>parsePeers\<close>

fun parseLoop :: "string list \<Rightarrow> (string, string) gomap \<Rightarrow> string + (string, string) gomap" where
  "parseLoop [] result = Inr result"
| "parseLoop (p # pairs) result =
     (let pair = TrimSpace p
      in if pair = [] then parseLoop pairs result
         else case SplitN2 (CHR ''='') pair of
                [l, r] \<Rightarrow>
                  (let id = TrimSpace l; addr = TrimSpace r
                   in if id = [] \<or> addr = [] then Inl (''invalid peer entry: '' @ pair)
                      else parseLoop pairs (AList.update id addr result))
              | _ \<Rightarrow> Inl (''invalid peer entry: '' @ pair))"

definition parsePeers :: "string \<Rightarrow> string + (string, string) gomap" where
  "parsePeers raw =
     (if TrimSpace raw = [] then Inr [] else parseLoop (Split (CHR '','') raw) [])"

subsection \<open>Trimming\<close>

text \<open>A text with no space at either end.\<close>

definition trimmed :: "string \<Rightarrow> bool" where
  "trimmed s \<longleftrightarrow> leading spaces s = 0 \<and> leading (map rev spaces) (rev s) = 0"

lemma trim_with_id: "leading ps s = 0 \<Longrightarrow> trim_with ps s = s"
  by (subst trim_with.simps) simp

lemma TrimSpace_trimmed: "trimmed s \<Longrightarrow> TrimSpace s = s"
  by (simp add: TrimSpace_def trimmed_def trim_with_id)

lemma leading_zero:
  assumes "\<forall>p \<in> set ps. p \<noteq> []"
  shows "leading ps s = 0 \<longleftrightarrow> (\<forall>p \<in> set ps. \<not> starts_with p s)"
proof (cases "List.find (\<lambda>p. starts_with p s) ps")
  case None
  then have "\<forall>p \<in> set ps. \<not> starts_with p s" by (simp add: find_None_iff)
  with None show ?thesis by (simp add: leading_def)
next
  case (Some p)
  then have "p \<in> set ps" "starts_with p s" by (auto simp: find_Some_iff)
  with Some assms show ?thesis by (auto simp: leading_def)
qed

lemma leading_append:
  assumes "\<forall>p \<in> set ps. c \<notin> set p \<and> p \<noteq> []" and "leading ps s = 0" and "s \<noteq> []"
  shows "leading ps (s @ c # t) = 0"
proof -
  have "\<not> starts_with p (s @ c # t)" if p: "p \<in> set ps" for p
  proof
    assume st: "starts_with p (s @ c # t)"
    have "\<not> starts_with p s"
      using assms(1,2) p leading_zero [of ps s] by blast
    then have "length s < length p"
      using st by (auto simp: starts_with_def not_le [symmetric])
    then have "c \<in> set (take (length p) (s @ c # t))"
      by (cases "length p - length s") (auto simp: take_Cons')
    with st assms(1) p show False by (simp add: starts_with_def)
  qed
  then show ?thesis using assms(1) leading_zero [of ps] by blast
qed

lemma trimmed_pair:
  assumes "trimmed a" and "trimmed b" and "a \<noteq> []" and "b \<noteq> []"
  shows "trimmed (a @ CHR ''='' # b)"
proof -
  have s: "\<forall>p \<in> set spaces. CHR ''='' \<notin> set p \<and> p \<noteq> []"
    "\<forall>p \<in> set (map rev spaces). CHR ''='' \<notin> set p \<and> p \<noteq> []"
    by (auto simp: spaces_def)
  have "leading spaces (a @ CHR ''='' # b) = 0"
    using assms by (intro leading_append [OF s(1)]) (auto simp: trimmed_def)
  moreover have "leading (map rev spaces) (rev b @ CHR ''='' # rev a) = 0"
    using assms by (intro leading_append [OF s(2)]) (auto simp: trimmed_def)
  ultimately show ?thesis by (simp add: trimmed_def)
qed

subsection \<open>Splitting what was joined\<close>

fun join_comma :: "string list \<Rightarrow> string" where
  "join_comma [] = []"
| "join_comma [x] = x"
| "join_comma (x # y # ys) = x @ CHR '','' # join_comma (y # ys)"

lemma Split_append: "sep \<notin> set x \<Longrightarrow> Split sep (x @ sep # s) = x # Split sep s"
  by (induction x) (auto split: list.splits)

lemma Split_single: "sep \<notin> set x \<Longrightarrow> Split sep x = [x]"
  by (induction x) auto

lemma Split_join: "xs \<noteq> [] \<Longrightarrow> \<forall>x \<in> set xs. CHR '','' \<notin> set x \<Longrightarrow> Split (CHR '','') (join_comma xs) = xs"
  by (induction xs rule: join_comma.induct) (simp_all add: Split_append Split_single)

definition peer_entry :: "string \<times> string \<Rightarrow> string" where
  "peer_entry p = fst p @ CHR ''='' # snd p"

text \<open>An identifier and an address that can be written in the flag.\<close>

definition peer_ok :: "string \<times> string \<Rightarrow> bool" where
  "peer_ok p \<longleftrightarrow> fst p \<noteq> [] \<and> snd p \<noteq> [] \<and> trimmed (fst p) \<and> trimmed (snd p) \<and>
     CHR '','' \<notin> set (fst p) \<and> CHR '','' \<notin> set (snd p) \<and> CHR ''='' \<notin> set (fst p)"

lemma SplitN2_entry: "CHR ''='' \<notin> set a \<Longrightarrow> SplitN2 (CHR ''='') (a @ CHR ''='' # b) = [a, b]"
  by (induction a) (auto simp: SplitN2_def split: list.splits)

lemma parseLoop_entries:
  "list_all peer_ok ps \<Longrightarrow>
     parseLoop (map peer_entry ps) m = Inr (fold (\<lambda>p. AList.update (fst p) (snd p)) ps m)"
  by (induction ps arbitrary: m)
    (simp_all add: peer_ok_def peer_entry_def TrimSpace_trimmed trimmed_pair SplitN2_entry Let_def)

text \<open>A character that is not part of a space survives trimming.\<close>

lemma trim_with_keeps: "\<forall>p \<in> set ps. c \<notin> set p \<Longrightarrow> c \<in> set s \<Longrightarrow> c \<in> set (trim_with ps s)"
proof (induction ps s rule: trim_with.induct)
  case (1 ps s)
  show ?case
  proof (cases "leading ps s = 0")
    case True
    with "1.prems" show ?thesis by (simp add: trim_with_id)
  next
    case False
    then obtain p where p: "p \<in> set ps" "starts_with p s" "leading ps s = length p"
      by (auto simp: leading_def split: option.splits) (metis find_Some_iff nth_mem)
    have "c \<in> set (take (length p) s) \<or> c \<in> set (drop (length p) s)"
      using "1.prems"(2) by (metis Un_iff append_take_drop_id set_append)
    then have "c \<in> set (drop (leading ps s) s)"
      using p "1.prems"(1) by (auto simp: starts_with_def)
    moreover have "s \<noteq> []" using "1.prems"(2) by auto
    ultimately show ?thesis
      using "1.IH" [OF refl] False "1.prems"(1) by (subst trim_with.simps) (simp add: Let_def)
  qed
qed

lemma TrimSpace_keeps:
  assumes "\<forall>p \<in> set spaces. c \<notin> set p" and "c \<in> set s"
  shows "c \<in> set (TrimSpace s)"
proof -
  have "c \<in> set (rev (trim_with spaces s))" using trim_with_keeps [OF assms] by simp
  then show ?thesis
    using trim_with_keeps [of "map rev spaces" c "rev (trim_with spaces s)"] assms(1)
    by (simp add: TrimSpace_def)
qed

lemma entries_not_blank:
  assumes "ps \<noteq> []"
  shows "TrimSpace (join_comma (map peer_entry ps)) \<noteq> []"
proof -
  obtain p qs where "ps = p # qs" using assms by (cases ps) auto
  then have "CHR ''='' \<in> set (join_comma (map peer_entry ps))"
    by (cases qs) (simp_all add: peer_entry_def)
  moreover have "\<forall>p \<in> set spaces. CHR ''='' \<notin> set p" by (auto simp: spaces_def)
  ultimately have "CHR ''='' \<in> set (TrimSpace (join_comma (map peer_entry ps)))"
    by (intro TrimSpace_keeps)
  then show ?thesis by auto
qed

subsection \<open>Properties\<close>

lemma fold_update_distinct:
  "distinct (map fst m) \<Longrightarrow> distinct (map fst (fold (\<lambda>p. AList.update (fst p) (snd p)) ps m))"
  by (induction ps arbitrary: m) (simp_all add: distinct_update)

text \<open>
  The flag is parsed as it is written: a comma-separated list of \<^verbatim>\<open>id=host:port\<close> entries, with
  distinct identifiers and no stray spaces, commas or equals signs inside, yields exactly these
  identifiers with their addresses.
\<close>

lemma parsePeers_entries:
  assumes "list_all peer_ok ps" and "distinct (map fst ps)" and "ps \<noteq> []"
  shows "\<exists>m. parsePeers (join_comma (map peer_entry ps)) = Inr m \<and> map_of m = map_of ps \<and> distinct (map fst m)"
proof -
  have "\<forall>x \<in> set (map peer_entry ps). CHR '','' \<notin> set x"
    using assms(1) by (auto simp: list_all_iff peer_ok_def peer_entry_def)
  then have "Split (CHR '','') (join_comma (map peer_entry ps)) = map peer_entry ps"
    using assms(3) by (intro Split_join) simp_all
  then show ?thesis
    using parseLoop_entries [OF assms(1), of "[]"] entries_not_blank [OF assms(3)]
      map_of_fold_update [OF assms(2), of "[]"] fold_update_distinct [of "[]" ps]
    by (simp add: parsePeers_def)
qed

lemma parseLoop_result:
  "parseLoop pairs m = Inr m' \<Longrightarrow> list_all (\<lambda>p. fst p \<noteq> [] \<and> snd p \<noteq> []) m \<Longrightarrow>
     list_all (\<lambda>p. fst p \<noteq> [] \<and> snd p \<noteq> []) m'"
proof (induction pairs arbitrary: m)
  case (Cons p pairs)
  have upd: "list_all (\<lambda>p. fst p \<noteq> [] \<and> snd p \<noteq> []) (AList.update i a m)" if "i \<noteq> []" "a \<noteq> []" for i a
    using Cons.prems(2) that by (induction m) auto
  from Cons.prems(1) show ?case
    using Cons.IH Cons.prems(2) upd
    by (auto simp: Let_def split: if_splits list.splits)
qed simp

text \<open>
  Whatever the flag holds, parsing either fails with a message that names the entry or yields
  peers that all have an identifier and an address.
\<close>

lemma peers_complete:
  "(case parsePeers raw of
      Inl e \<Rightarrow> starts_with ''invalid peer entry: '' e
    | Inr m \<Rightarrow> list_all (\<lambda>p. fst p \<noteq> [] \<and> snd p \<noteq> []) m)"
proof -
  have "parseLoop pairs m = Inl e \<Longrightarrow> starts_with ''invalid peer entry: '' e" for pairs m e
    by (induction pairs m rule: parseLoop.induct)
      (auto simp: Let_def starts_with_def split: if_splits list.splits)
  then show ?thesis
    using parseLoop_result [of "Split (CHR '','') raw" "[]"]
    by (auto simp: parsePeers_def split: sum.splits)
qed

end
