(* ===== verification/Commands.thy ===== *)
theory Commands
  imports Service Peers_Flag
begin

text \<open>
  The command line of \<^verbatim>\<open>src/cmd\<close>: the server command with its flags, and the client commands over either
  client.  What a client command prints is a result; flag parsing itself is done by the cobra package and
  the values of the flags are arguments.
\<close>

subsection \<open>The server command\<close>

record ServerFlags =
  sf_port :: int
  sf_host :: string
  sf_nodeID :: string
  sf_peers :: string
  sf_dataDir :: string
  sf_snapshotThreshold :: int
  sf_debug :: bool
  sf_verbose :: bool

definition defaultFlags :: ServerFlags where
  "defaultFlags = \<lparr>sf_port = 15213, sf_host = ''127.0.0.1'', sf_nodeID = [], sf_peers = [], sf_dataDir = ''data'',
     sf_snapshotThreshold = 100, sf_debug = False, sf_verbose = False\<rparr>"

datatype cmd_error = CmdErr string | SrvErr srv_error

text \<open>\<^verbatim>\<open>RunE\<close> up to the call of \<^verbatim>\<open>Start\<close>, which serves until it fails.\<close>

definition serverCmd ::
    "'s StorageOps \<Rightarrow> (string \<Rightarrow> string \<Rightarrow> 's) \<Rightarrow> 's \<Rightarrow> ServerFlags \<Rightarrow> cmd_error + 's Server" where
  "serverCmd ops store_at newMem flags =
     (if sf_nodeID flags = [] then Inl (CmdErr ''--id is required'')
      else
        let addr = sf_host flags @ '':'' @ AppendInt (sf_port flags)
        in case parsePeers (sf_peers flags) of
             Inl e \<Rightarrow> Inl (CmdErr e)
           | Inr peerMap \<Rightarrow>
               (case NewServer ops store_at newMem
                   \<lparr>sc_ID = sf_nodeID flags, sc_Addr = addr, sc_Peers = peerMap, sc_DataDir = sf_dataDir flags,
                    sc_SnapshotThreshold = sf_snapshotThreshold flags, sc_Debug = sf_debug flags,
                    sc_Verbose = sf_verbose flags\<rparr> of
                  Inl e \<Rightarrow> Inl (SrvErr e)
                | Inr s \<Rightarrow> Inr s))"

subsection \<open>The client commands\<close>

datatype API = HTTP HTTPClient | RPC RPCClient

definition newClient :: "bool \<Rightarrow> string \<Rightarrow> API" where
  "newClient useHTTP serverAddr =
     (if useHTTP then HTTP (NewHTTPClient serverAddr) else RPC (NewRPCClient serverAddr))"

text \<open>The calls of both clients, into the world they run in.\<close>

record 'w Calls =
  call_http :: "'w http_do"
  call_ping :: "(PingReply, 'w) rpc"
  call_get :: "(GetReply, 'w) rpc"
  call_mutate :: "(MutateReply, 'w) rpc"

fun API_Ping :: "'w Calls \<Rightarrow> API \<Rightarrow> 'w \<Rightarrow> (string + string) \<times> 'w" where
  "API_Ping n (HTTP c) w = HTTPClient_Ping (call_http n) c w"
| "API_Ping n (RPC c) w = RPCClient_Ping (call_ping n) c w"

fun API_Get :: "'w Calls \<Rightarrow> API \<Rightarrow> string \<Rightarrow> 'w \<Rightarrow> (string + string) \<times> 'w" where
  "API_Get n (HTTP c) key w = HTTPClient_Get (call_http n) c key w"
| "API_Get n (RPC c) key w = RPCClient_Get (call_get n) c key w"

fun API_Set :: "'w Calls \<Rightarrow> API \<Rightarrow> string \<Rightarrow> string \<Rightarrow> 'w \<Rightarrow> string option \<times> 'w" where
  "API_Set n (HTTP c) key v w = HTTPClient_Set (call_http n) c key v w"
| "API_Set n (RPC c) key v w = RPCClient_Set (call_mutate n) c key v w"

fun API_Insert :: "'w Calls \<Rightarrow> API \<Rightarrow> string \<Rightarrow> string \<Rightarrow> 'w \<Rightarrow> string option \<times> 'w" where
  "API_Insert n (HTTP c) key v w = HTTPClient_Insert (call_http n) c key v w"
| "API_Insert n (RPC c) key v w = RPCClient_Insert (call_mutate n) c key v w"

fun API_Delete :: "'w Calls \<Rightarrow> API \<Rightarrow> string \<Rightarrow> 'w \<Rightarrow> string option \<times> 'w" where
  "API_Delete n (HTTP c) key w = HTTPClient_Delete (call_http n) c key w"
| "API_Delete n (RPC c) key w = RPCClient_Delete (call_mutate n) c key w"

text \<open>The line a command prints: a value or the error, or \<^verbatim>\<open>succeed!\<close>; \<^term>\<open>None\<close> is a missing argument.\<close>

definition printValue :: "(string + string) \<times> 'w \<Rightarrow> string \<times> 'w" where
  "printValue res = (case res of (Inl e, w) \<Rightarrow> (e, w) | (Inr v, w) \<Rightarrow> (v, w))"

definition printDone :: "string option \<times> 'w \<Rightarrow> string \<times> 'w" where
  "printDone res = (case res of (Some e, w) \<Rightarrow> (e, w) | (None, w) \<Rightarrow> (''succeed!'', w))"

definition doPing :: "'w Calls \<Rightarrow> bool \<Rightarrow> string \<Rightarrow> 'w \<Rightarrow> string \<times> 'w" where
  "doPing n useHTTP serverAddr w = printValue (API_Ping n (newClient useHTTP serverAddr) w)"

fun doGet :: "'w Calls \<Rightarrow> bool \<Rightarrow> string \<Rightarrow> string list \<Rightarrow> 'w \<Rightarrow> (string \<times> 'w) option" where
  "doGet n useHTTP serverAddr (key # _) w = Some (printValue (API_Get n (newClient useHTTP serverAddr) key w))"
| "doGet n useHTTP serverAddr [] w = None"

fun doSet :: "'w Calls \<Rightarrow> bool \<Rightarrow> string \<Rightarrow> string list \<Rightarrow> 'w \<Rightarrow> (string \<times> 'w) option" where
  "doSet n useHTTP serverAddr (key # v # _) w =
     Some (printDone (API_Set n (newClient useHTTP serverAddr) key v w))"
| "doSet n useHTTP serverAddr _ w = None"

fun doInsert :: "'w Calls \<Rightarrow> bool \<Rightarrow> string \<Rightarrow> string list \<Rightarrow> 'w \<Rightarrow> (string \<times> 'w) option" where
  "doInsert n useHTTP serverAddr (key # v # _) w =
     Some (printDone (API_Insert n (newClient useHTTP serverAddr) key v w))"
| "doInsert n useHTTP serverAddr _ w = None"

fun doDelete :: "'w Calls \<Rightarrow> bool \<Rightarrow> string \<Rightarrow> string list \<Rightarrow> 'w \<Rightarrow> (string \<times> 'w) option" where
  "doDelete n useHTTP serverAddr (key # _) w =
     Some (printDone (API_Delete n (newClient useHTTP serverAddr) key w))"
| "doDelete n useHTTP serverAddr [] w = None"

subsection \<open>Properties\<close>

text \<open>
  C31.  The server command starts a member of the cluster that the peers flag lists.  Every node that is
  started with the same well-formed list of all nodes and with its own identifier among them has all the
  others as its Raft peers with the listed addresses, and a quorum that is a majority of the list; only
  reading the stored state can keep it from starting.
\<close>

theorem server_cmd_cluster:
  assumes "list_all peer_ok ps" and "distinct (map fst ps)" and "sf_nodeID flags \<in> fst ` set ps"
    and "sf_peers flags = join_comma (map peer_entry ps)"
    and "serverCmd ops store_at newMem flags = res"
  shows "case res of
      Inr s \<Rightarrow> raft_id (srv_raft s) = sf_nodeID flags \<and> state (srv_raft s) = Follower \<and>
        map_of (peers (srv_raft s)) = (map_of ps)(sf_nodeID flags := None) \<and>
        int (length ps) < 2 * quorumSize (srv_raft s)
    | Inl (CmdErr e) \<Rightarrow> False
    | Inl (SrvErr e) \<Rightarrow> e \<noteq> ErrServerID \<and> e \<noteq> ErrServerAddr"
proof -
  have id: "sf_nodeID flags \<noteq> []" using assms(1,3) by (auto simp: list_all_iff peer_ok_def)
  have "ps \<noteq> []" using assms(3) by auto
  then obtain m where m: "parsePeers (sf_peers flags) = Inr m" "map_of m = map_of ps" "distinct (map fst m)"
    using parsePeers_entries [OF assms(1,2)] assms(4) by auto
  show ?thesis
  proof (cases res)
    case (Inl e)
    with assms(5) id m(1) show ?thesis
      by (auto simp: serverCmd_def NewServer_def Let_def split: sum.splits if_splits option.splits prod.splits)
  next
    case (Inr s)
    let ?cfg = "\<lparr>sc_ID = sf_nodeID flags, sc_Addr = sf_host flags @ '':'' @ AppendInt (sf_port flags), sc_Peers = m,
      sc_DataDir = sf_dataDir flags, sc_SnapshotThreshold = sf_snapshotThreshold flags, sc_Debug = sf_debug flags,
      sc_Verbose = sf_verbose flags\<rparr>"
    have new: "NewServer ops store_at newMem ?cfg = Inr s"
      using assms(5) Inr id m(1) by (auto simp: serverCmd_def Let_def split: sum.splits)
    have n: "map_of (srv_peers s) = (map_of m)(sf_nodeID flags \<mapsto> sf_host flags @ '':'' @ AppendInt (sf_port flags))"
      "map_of (peers (srv_raft s)) = (map_of m)(sf_nodeID flags := None)"
      "int (card (dom (map_of (srv_peers s)))) < 2 * quorumSize (srv_raft s)"
      "state (srv_raft s) = Follower" "raft_id (srv_raft s) = sf_nodeID flags"
      using new_server_peers [OF new, unfolded ServerConfig.simps, OF m(3)] by blast+
    have "dom (map_of (srv_peers s)) = fst ` set ps"
      using assms(3) by (auto simp: n(1) m(2) dom_map_of_conv_image_fst)
    then have "card (dom (map_of (srv_peers s))) = length ps"
      using assms(2) by (metis distinct_card length_map list.set_map)
    with n m Inr show ?thesis by simp
  qed
qed

definition trio_flags :: ServerFlags where
  "trio_flags = defaultFlags\<lparr>sf_nodeID := ''n2'', sf_peers := ''n1=h:1,n2=h:2,n3=h:3''\<rparr>"

theorem server_cmd_cluster_witness:
  "\<exists>s. serverCmd memory_ops (\<lambda>_ _. NewMemoryStorage) NewMemoryStorage trio_flags = Inr s \<and>
     map_of (peers (srv_raft s)) = [''n1'' \<mapsto> ''h:1'', ''n3'' \<mapsto> ''h:3''] \<and> 3 < 2 * quorumSize (srv_raft s)"
proof -
  let ?ps = "[(''n1'', ''h:1''), (''n2'', ''h:2''), (''n3'', ''h:3'')]"
  have ok: "list_all peer_ok ?ps" by code_simp
  obtain m where m: "parsePeers (sf_peers trio_flags) = Inr m"
    using parsePeers_entries [OF ok] by (auto simp: trio_flags_def peer_entry_def)
  have "serverCmd memory_ops (\<lambda>_ _. NewMemoryStorage) NewMemoryStorage trio_flags \<noteq> Inl e" for e
    by (simp add: serverCmd_def m Let_def)
      (simp add: trio_flags_def defaultFlags_def NewServer_def NewRaft_def Let_def restoreSnapshot_def
        SnapshotState_def clampIndexes_eq NewMemoryStorage_def zero_PersistentState_def zero_Snapshot_def)
  then obtain s where s: "serverCmd memory_ops (\<lambda>_ _. NewMemoryStorage) NewMemoryStorage trio_flags = Inr s"
    by (cases "serverCmd memory_ops (\<lambda>_ _. NewMemoryStorage) NewMemoryStorage trio_flags") auto
  have "map_of (peers (srv_raft s)) = (map_of ?ps)(''n2'' := None) \<and> int (length ?ps) < 2 * quorumSize (srv_raft s)"
    using server_cmd_cluster [OF ok _ _ _ s] by (simp add: trio_flags_def peer_entry_def)
  moreover have "(map_of ?ps)(''n2'' := None) = [''n1'' \<mapsto> ''h:1'', ''n3'' \<mapsto> ''h:3'']" by (auto simp: fun_eq_iff)
  ultimately show ?thesis using s by simp
qed

end
