(* ===== verification/Spec2Isabelle.thy ===== *)
theory Spec2Isabelle
  imports Replicas Snapshot_Safety Local_Cluster Transport_Network Raft_Timers Races Sessions Commands
begin

text \<open>
  Breeoche is a replicated key-value store: a cluster of servers, each with a Raft node that keeps a
  replicated log of commands, a store that the committed commands are applied to, an HTTP and an RPC
  interface for clients and for the other nodes, and two clients that follow the leader.

  \<^bold>\<open>Parts and theories.\<close>
  \<^item> \<^verbatim>\<open>Prelude\<close>: what all parts share, Go's maps as association lists, bytes, 64-bit arithmetic.
  \<^item> \<^verbatim>\<open>src/raft/types.go\<close>, \<^verbatim>\<open>status.go\<close>, \<^verbatim>\<open>state_string.go\<close>: theory \<^verbatim>\<open>Raft_Types\<close>, one record or
    datatype per Go type.
  \<^item> Go's \<^verbatim>\<open>encoding/json\<close>, as far as the program uses it: \<^verbatim>\<open>Json_Strings\<close>, \<^verbatim>\<open>Json\<close>, \<^verbatim>\<open>Json_Scalars\<close> (integers,
    booleans, base64), \<^verbatim>\<open>Json_Structs\<close> (the fields of a struct in any order), and \<^verbatim>\<open>Raft_Json\<close> (the messages
    and the stored state of Raft).
  \<^item> \<^verbatim>\<open>src/raft/storage.go\<close>: \<^verbatim>\<open>Raft_Storage\<close>.  The interface is a record of two operations and the locale
    \<open>stable_storage\<close> of its promise; memory and file storage implement it, the file storage over a file
    system whose calls may fail and with the JSON codec of the development.
  \<^item> \<^verbatim>\<open>src/raft/raft.go\<close>: \<^verbatim>\<open>Raft_State\<close> (the struct and the helpers that run under its mutex),
    \<^verbatim>\<open>Raft_Election\<close>, \<^verbatim>\<open>Raft_Commit\<close> (\<^verbatim>\<open>Start\<close>, \<^verbatim>\<open>WaitForCommit\<close>, \<^verbatim>\<open>advanceCommitIndex\<close>,
    \<^verbatim>\<open>applyCommitted\<close>), \<^verbatim>\<open>Raft_Append\<close>, \<^verbatim>\<open>Raft_Snapshot\<close>, \<^verbatim>\<open>Raft_Init\<close> (\<^verbatim>\<open>NewRaft\<close>).  A critical section of
    the mutex is one function on the node's record; a panic is \<^term>\<open>None\<close>.  \<^verbatim>\<open>Raft_Timers\<close> has the loops of
    \<^verbatim>\<open>Run\<close>, one \<^verbatim>\<open>select\<close> at a time, over the clock of \<^verbatim>\<open>src/raft/fake_clock.go\<close>, theory \<^verbatim>\<open>Fake_Clock\<close>.
  \<^item> \<^verbatim>\<open>Raft_Node\<close> runs one node over any sequence of its critical sections, \<^verbatim>\<open>Raft_Cluster\<close> runs all nodes
    over a network that loses, repeats and reorders messages, with crashes and restarts.
    \<^verbatim>\<open>Raft_Invariants\<close>, \<^verbatim>\<open>Raft_Properties\<close> and \<^verbatim>\<open>Election_Safety\<close> hold what is proved of them;
    \<^verbatim>\<open>Log_History\<close>, \<^verbatim>\<open>Cluster_History\<close>, \<^verbatim>\<open>Log_Steps\<close>, \<^verbatim>\<open>Log_Replication\<close> and \<^verbatim>\<open>Log_Safety\<close> the safety of the
    log, by an invariant over the history of all logs and votes, and \<^verbatim>\<open>Next_Index\<close> the range of a leader's next
    indices.  \<^verbatim>\<open>Snapshot_Safety\<close> shows that snapshots break log safety.
  \<^item> \<^verbatim>\<open>src/raft/local_transport.go\<close>, \<^verbatim>\<open>http_transport.go\<close>, \<^verbatim>\<open>rpc_transport.go\<close> and \<^verbatim>\<open>src/rpcapi/dial.go\<close>:
    \<^verbatim>\<open>Transports\<close>.  \<^verbatim>\<open>Local_Cluster\<close> has the sending goroutines of \<^verbatim>\<open>raft.go\<close> as whole calls over the in-memory
    transport, \<^verbatim>\<open>Transport_Network\<close> the servers behind the HTTP transport and the locale \<open>remote_call\<close> that
    both transports meet.
  \<^item> \<^verbatim>\<open>src/kv/store.go\<close>: \<^verbatim>\<open>Kv_Store\<close>.
  \<^item> \<^verbatim>\<open>src/server/server.go\<close>: \<^verbatim>\<open>Server\<close> (construction, requests, apply loop, handlers) and \<^verbatim>\<open>Router\<close> (routes and
    \<^verbatim>\<open>Start\<close>); \<^verbatim>\<open>src/server/rpc_handlers.go\<close> and \<^verbatim>\<open>src/rpcapi/rpcapi.go\<close>: \<^verbatim>\<open>Server_RPC\<close> (services,
    registration and dispatch); \<^verbatim>\<open>src/client\<close>: \<^verbatim>\<open>Client\<close>.
  \<^item> Parts together: \<^verbatim>\<open>Service\<close> (node, store and server), \<^verbatim>\<open>Replicas\<close> (the servers of a cluster),
    \<^verbatim>\<open>Client_Service\<close> (clients, dispatch and servers), \<^verbatim>\<open>Sessions\<close> (whole client sessions, with the locale
    \<open>map_client\<close> that both clients meet), \<^verbatim>\<open>Races\<close> (what may happen between the critical sections).
  \<^item> \<^verbatim>\<open>src/cmd\<close>: \<^verbatim>\<open>Peers_Flag\<close> (the peers flag) and \<^verbatim>\<open>Commands\<close> (the server command and the client commands).

  \<^bold>\<open>What the theorems show.\<close>
  \<^item> Consensus.  A cluster never has two leaders in one term; logs match; a leader only appends and has
    everything that was committed; what two nodes commit is the same; no node panics.  All of these but
    election safety are proved of runs without snapshots (\<open>compact\<close> is \<^term>\<open>False\<close>; the servers' automatic
    snapshots, which are on by default, are off): with snapshots log safety fails, which is a theorem of its
    own.  Election safety is proved of all runs.  The calls over
    the in-memory transport are runs of this cluster, and, without snapshots, repeating them brings the log
    of a follower that is not ahead in term up to the leader's.
  \<^item> One node.  It votes by the rule of Raft; as long as its saves succeed and the messages it gets respect
    its committed prefix, it recovers from its file after a crash exactly what it had, and keeps its
    indices in order.  It accepts appends and takes snapshots as specified, commits what a majority is known
    to store in the current term only, and, while the committed entries are in its log, delivers them
    once and in order.  Its timers start elections not too early
    and, in silence, not too late; a leader's heartbeats go out; after \<^verbatim>\<open>Stop\<close> both loops end.
  \<^item> Service.  The store implements a map; a snapshot replaces the commands before it, and a server restarted
    from the file has the contents of its last automatic snapshot; replicas without snapshots never
    diverge; a result reaches the request that waits for it and no other; a client gets from a server that is alone
    what an abstract map would give, over either protocol; reads find the leader, the others redirect;
    remote calls are well typed and leave no connection open; the HTTP transport agrees with the in-memory
    one; commands, stored states and the peers flag round-trip through their encodings.
  \<^item> Behaviour that is not intended.  A snapshot that arrives late removes acknowledged and committed entries,
    so that two nodes commit different commands; a waiter is told that a
    replaced entry committed; two apply goroutines deliver entries under a wrong index or out of order; a
    snapshot that is overtaken undoes an entry; a vote is lost when its save fails; a timeout is
    misreported; the fake clock can hang.

  \<^bold>\<open>Bounds.\<close>
  No function uses fuel: every loop is structural, has a termination proof, or is a
  \<^theory_text>\<open>partial_function (option)\<close> with a theorem that it returns.  Constants of the code are kept: the
  client tries \<open>maxRedirects\<close> = 3 servers, and the JSON scanner nests at most \<open>max_depth\<close> = 10000 deep.
  Terms and log indices are unbounded integers (both only grow by one); timeouts keep their 64 bits, and
  integers in JSON are checked against 64 bits.

  \<^bold>\<open>Grain.\<close>
  A critical section of a mutex is one step.  In \<^verbatim>\<open>Raft_Cluster\<close> nodes crash between critical sections, over a
  storage whose saves succeed; the event that sends to a peer merges the section of
  \<^verbatim>\<open>sendAppendEntries\<close> with that of the \<^verbatim>\<open>sendInstallSnapshot\<close> it may call, and is disabled where the code would
  panic (without snapshots it never does, by \<^verbatim>\<open>Next_Index\<close>).  In \<^verbatim>\<open>Raft_Timers\<close> the two sections of
  \<^verbatim>\<open>startElection\<close> run in one step, and \<^verbatim>\<open>Advance\<close> of the fake clock sends on its channels within its own.

  \<^bold>\<open>Parameters.\<close>
  The order in which \<^verbatim>\<open>gorilla/mux\<close> tries routes (\<open>mux_ok\<close>), what the connections of \<^verbatim>\<open>net\<close> do (\<open>conns_ok\<close>),
  what other goroutines do while a request waits (\<open>'s Blocking\<close>), the values of \<^verbatim>\<open>rand\<close>, and the faults of the
  file system and the network are arguments of the definitions.

  \<^bold>\<open>Not modelled.\<close>
  The wall clock (\<^verbatim>\<open>src/raft/clock.go\<close> passes every call to \<^verbatim>\<open>time\<close>; the loops are proved over the fake
  clock), \<^verbatim>\<open>http.ListenAndServe\<close>, the HTML body of \<^verbatim>\<open>http.Redirect\<close>, the text of log output, and what belongs to cobra: the command
  descriptions, the parsing of flags, \<^verbatim>\<open>src/cmd/root_cmd.go\<close> and \<^verbatim>\<open>src/main.go\<close>.
\<close>

end
